(* ===== verification/Prelude.thy ===== *)
theory Prelude
  imports Main "HOL-Library.Word" "HOL-Library.Monad_Syntax"
begin

section \<open>Prelude: integer widths, byte buffers, shared automation\<close>

text \<open>
  The vocabulary every component shares: the machine integers of the target (a 32 bit
  little-endian Arm core, where \<open>int\<close>, \<open>long\<close>, \<open>size_t\<close> and \<open>off_t\<close> have 32 bits; the format
  strings of the sources print an \<open>off_t\<close> with \<open>%ld\<close>), byte buffers as lists, slices of them,
  and the effect of a read that stores fewer bytes than the buffer holds.

  Conventions of the models. A C function that only computes and calls the platform is a HOL
  function from the state to a pair of its result and the new state. A function whose loops a
  misbehaving platform could keep going for ever returns an \<open>option\<close> of such a pair, and \<open>None\<close>
  is ``does not return''. Log output is not modelled.
\<close>

type_synonym byte = "8 word"
type_synonym u8 = "8 word"
type_synonym u16 = "16 word"
type_synonym u32 = "32 word"

named_theorems frame "frame and invariant facts, one per operation"
named_theorems spec "facts that say what an operation does to the abstract device"

subsection \<open>Conversions\<close>

text \<open>A signed value used where the code has an unsigned 32 bit operand.\<close>

definition u32_of_int :: "int \<Rightarrow> u32" where
  "u32_of_int i = word_of_int i"

text \<open>An unsigned 32 bit value passed where the callee takes an \<open>off_t\<close>.\<close>

definition off_of_u32 :: "u32 \<Rightarrow> int" where
  "off_of_u32 w = sint w"

lemma unat_u32_of_int:
  "0 \<le> i \<Longrightarrow> i < 2 ^ 32 \<Longrightarrow> unat (u32_of_int i) = nat i"
  by (simp add: u32_of_int_def unat_eq_nat_uint uint_word_of_int take_bit_int_eq_self)

lemma u32_of_int_unat [simp]: "u32_of_int (int (unat w)) = w"
  by (simp add: u32_of_int_def)

lemma u32_of_int_eq_nat:
  "0 \<le> i \<Longrightarrow> i < 2 ^ 32 \<Longrightarrow> u32_of_int i = w \<longleftrightarrow> nat i = unat w"
  by (metis unat_u32_of_int word_unat_eq_iff)

lemma u32_of_int_neg:
  assumes "- (2 ^ 31) \<le> i" and "i < 0"
  shows "unat (u32_of_int i) = nat (i + 2 ^ 32)"
proof -
  have "u32_of_int i = u32_of_int (i + 2 ^ 32)"
    by (simp add: u32_of_int_def word_of_int_eq_iff take_bit_eq_mod)
  then show ?thesis
    using assms by (simp add: unat_u32_of_int)
qed

lemma off_of_u32_nonneg:
  assumes "0 \<le> off_of_u32 w"
  shows "off_of_u32 w = int (unat w)" and "unat w < 2 ^ 31"
proof -
  have lt: "sint w < 2 ^ 31"
    using sint_lt [of w] by simp
  have "uint w = take_bit 32 (sint w)"
    by (simp add: uint_sint)
  also have "\<dots> = sint w"
    using assms lt by (simp add: off_of_u32_def take_bit_int_eq_self)
  finally have eq: "uint w = sint w" .
  then show "off_of_u32 w = int (unat w)"
    by (simp add: off_of_u32_def)
  show "unat w < 2 ^ 31"
    using eq lt by (simp add: unat_eq_nat_uint nat_less_iff)
qed

lemma off_of_u32_small:
  assumes "unat w < 2 ^ 31"
  shows "off_of_u32 w = int (unat w)"
proof -
  have "int (unat w) < int (2 ^ 31)"
    using assms by (simp only: of_nat_less_iff)
  then have hi: "uint w < 2 ^ 31"
    by simp
  have lo: "- (2 ^ 31) \<le> uint w"
    by (rule order_trans [of _ 0]) simp_all
  have "sint w = signed_take_bit 31 (uint w)"
    by (simp add: sint_uint)
  also have "\<dots> = uint w"
    by (rule signed_take_bit_int_eq_self [OF lo hi])
  finally show ?thesis
    by (simp add: off_of_u32_def)
qed

lemma unat_plus_small:
  "unat (a :: u32) + unat b < 2 ^ 32 \<Longrightarrow> unat (a + b) = unat a + unat b"
  by (simp add: unat_word_ariths)

lemma unat_of_nat_u32 [simp]:
  "n < 2 ^ 32 \<Longrightarrow> unat (of_nat n :: u32) = n"
  by (simp add: unat_of_nat take_bit_nat_eq_self)

lemma unat_ucast_u16 [simp]: "unat (ucast (l :: u16) :: u32) = unat l"
  by (simp add: unsigned_ucast_eq take_bit_nat_eq_self_iff less_trans [OF unsigned_less])

lemma unat_u16_bound: "unat (l :: u16) < 65536"
  using unsigned_less [of l] by simp

lemma unat_u32_bound: "unat (l :: u32) < 4294967296"
  using unsigned_less [of l] by simp

lemma ex_unat_u32: "(\<exists>c :: u32. unat c = n) \<longleftrightarrow> n < 2 ^ 32"
  using unat_u32_bound unat_of_nat_u32 [of n] by fastforce

lemma ex_unat_u16: "(\<exists>c :: u16. unat c = n) \<longleftrightarrow> n < 2 ^ 16"
proof
  assume "n < 2 ^ 16"
  then have "unat (of_nat n :: u16) = n"
    by (simp add: unat_of_nat take_bit_nat_eq_self)
  then show "\<exists>c :: u16. unat c = n"
    by blast
qed (use unat_u16_bound in fastforce)

subsection \<open>Byte buffers\<close>

text \<open>The \<open>n\<close> bytes at offset \<open>off\<close>, fewer where the list ends first.\<close>

definition bytes_at :: "nat \<Rightarrow> nat \<Rightarrow> 'a list \<Rightarrow> 'a list" where
  "bytes_at off n xs = take n (drop off xs)"

text \<open>
  A buffer after a call has stored \<open>new\<close> at its start: the bytes beyond what was stored keep
  their old values. This is what a short read leaves behind.
\<close>

definition overlay :: "'a list \<Rightarrow> 'a list \<Rightarrow> 'a list" where
  "overlay new old = new @ drop (length new) old"

lemma length_bytes_at [simp]: "length (bytes_at off n xs) = min n (length xs - off)"
  by (simp add: bytes_at_def)

lemma bytes_at_0_all [simp]: "length xs \<le> n \<Longrightarrow> bytes_at 0 n xs = xs"
  by (simp add: bytes_at_def)

lemma bytes_at_zero [simp]: "bytes_at off 0 xs = []"
  by (simp add: bytes_at_def)

lemma bytes_at_append_bytes_at:
  "bytes_at off m xs @ bytes_at (off + m) n xs = bytes_at off (m + n) xs"
  by (simp add: bytes_at_def take_add drop_drop add.commute)

lemma take_append_bytes_at:
  "take off xs @ bytes_at off n xs = take (off + n) xs"
  by (simp add: bytes_at_def take_add)

lemma bytes_at_take: "off + n \<le> m \<Longrightarrow> bytes_at off n (take m xs) = bytes_at off n xs"
  by (simp add: bytes_at_def drop_take min_def)

lemma length_overlay [simp]:
  "length new \<le> length old \<Longrightarrow> length (overlay new old) = length old"
  by (simp add: overlay_def)

lemma overlay_full [simp]: "length old \<le> length new \<Longrightarrow> overlay new old = new"
  by (simp add: overlay_def)

lemma take_overlay: "n \<le> length new \<Longrightarrow> take n (overlay new old) = take n new"
  by (simp add: overlay_def)

subsection \<open>Runs of the option monad\<close>

text \<open>
  A block of the models is a chain of binds; a fact that it returned is taken apart into the
  facts that each step returned.
\<close>

lemma bind_SomeE:
  assumes "Option.bind m f = Some r"
  obtains x where "m = Some x" and "f x = Some r"
  using assms by (cases m) auto

lemmas run_split = bind_eq_Some_conv Let_def

end
