(* ===== verification/Platform.thy ===== *)
theory Platform
  imports Prelude
begin

section \<open>Platform: what the sources include from outside the repository\<close>

text \<open>
  The bootloader calls the Zephyr file system and flash map, MCUboot's bootutil library, the
  secure-boot library of the SDK, and reads constants of their headers and of the build
  configuration. None of that is part of the repository, so all of it is a parameter of the
  models, in four records:
  \<^item> \<open>os\<close>: the calls into Zephyr, bootutil and the secure-boot library; each works on a world of
    an arbitrary type;
  \<^item> \<open>image_abi\<close>: the layout of the structures that are read from images, and the constants of
    the image format;
  \<^item> \<open>crypto\<close>: hashing, signature verification and the table of built-in public keys;
  \<^item> \<open>config\<close>: Kconfig options, partition identifiers, file names and buffer sizes.

  What the documentation of the calls promises is stated on an abstract device (files, open
  handles, flash areas) by the predicates \<open>fs_spec\<close> and \<open>flash_spec\<close>; they are hypotheses of the
  theorems that need them. Both take a flag \<open>rel\<close>: with \<open>rel = False\<close> every call may fail at any
  time, with \<open>rel = True\<close> a call whose arguments are in range succeeds.
\<close>

subsection \<open>Structures and constants of the included headers\<close>

type_synonym fa_id_t = nat
type_synonym slot_id_t = nat

record fs_file_t =
  filep :: "nat option"

datatype fs_whence = FS_SEEK_SET | FS_SEEK_END

datatype fs_dir_entry_type = FS_DIR_ENTRY_FILE | FS_DIR_ENTRY_DIR

record flash_area =
  fa_id :: fa_id_t
  fa_off :: u32
  fa_size :: u32

record image_version =
  iv_major :: u8
  iv_minor :: u8
  iv_revision :: u16
  iv_build_num :: u32

record image_header =
  ih_magic :: u32
  ih_hdr_size :: u16
  ih_protect_tlv_size :: u16
  ih_img_size :: u32
  ih_flags :: u32
  ih_ver :: image_version

record image_tlv_info =
  it_magic :: u16
  it_tlv_tot :: u16

record image_tlv =
  it_type :: u16
  it_len :: u16

record fw_info =
  fi_magic :: "byte list"
  fi_version :: u32
  fi_address :: u32

datatype fih_ret = FIH_SUCCESS | FIH_FAILURE

record image_abi =
  sizeof_image_header :: nat
  image_header_of :: "byte list \<Rightarrow> image_header"
  sizeof_image_tlv_info :: nat
  image_tlv_info_of :: "byte list \<Rightarrow> image_tlv_info"
  sizeof_image_tlv :: nat
  image_tlv_of :: "byte list \<Rightarrow> image_tlv"
  sizeof_fw_info :: nat
  fw_info_of :: "byte list \<Rightarrow> fw_info"
  IMAGE_MAGIC :: u32
  IMAGE_F_NON_BOOTABLE :: u32
  IMAGE_TLV_INFO_MAGIC :: u16
  IMAGE_TLV_PROT_INFO_MAGIC :: u16
  IMAGE_TLV_ANY :: u16
  IMAGE_TLV_KEYHASH :: u16
  IMAGE_TLV_PUBKEY :: u16
  IMAGE_TLV_SHA256 :: u16
  IMAGE_TLV_SHA384 :: u16
  IMAGE_TLV_SHA512 :: u16
  IMAGE_TLV_RSA2048_PSS :: u16
  IMAGE_TLV_ECDSA224 :: u16
  IMAGE_TLV_ECDSA_SIG :: u16
  IMAGE_TLV_RSA3072_PSS :: u16
  IMAGE_TLV_ED25519 :: u16
  IMAGE_TLV_ENC_RSA2048 :: u16
  IMAGE_TLV_ENC_KW :: u16
  IMAGE_TLV_ENC_EC256 :: u16
  IMAGE_TLV_ENC_X25519 :: u16
  IMAGE_TLV_SEC_CNT :: u16
  IMAGE_TLV_RUUVI_HW_REV_ID :: u16
  IMAGE_TLV_RUUVI_HW_REV_NAME :: u16
  EXPECTED_HASH_TLV :: u16
  IMAGE_HASH_SIZE :: nat
  BOOT_EBADARGS :: int
  BOOT_EBADIMAGE :: int
  BOOT_EFLASH :: int

text \<open>The structures are not empty and are shorter than 64 KiB; a digest has at most 255 bytes;
  the two TLV types of the hardware revision differ.\<close>

definition abi_ok :: "image_abi \<Rightarrow> bool" where
  "abi_ok A \<longleftrightarrow>
     0 < sizeof_image_header A \<and> sizeof_image_header A < 65536
     \<and> 0 < sizeof_image_tlv_info A \<and> sizeof_image_tlv_info A < 65536
     \<and> 0 < sizeof_image_tlv A \<and> sizeof_image_tlv A < 65536
     \<and> 0 < sizeof_fw_info A \<and> sizeof_fw_info A < 65536
     \<and> IMAGE_TLV_RUUVI_HW_REV_ID A \<noteq> IMAGE_TLV_RUUVI_HW_REV_NAME A
     \<and> 0 < IMAGE_HASH_SIZE A \<and> IMAGE_HASH_SIZE A < 256"

record 'c crypto =
  bootutil_sha_init :: 'c
  bootutil_sha_update :: "'c \<Rightarrow> byte list \<Rightarrow> 'c"
  bootutil_sha_finish :: "'c \<Rightarrow> byte list"
  boot_fih_memequal :: "byte list \<Rightarrow> byte list \<Rightarrow> fih_ret"
  bootutil_verify_sig :: "byte list \<Rightarrow> byte list \<Rightarrow> u8 \<Rightarrow> fih_ret"
  bootutil_keys :: "byte list list"

datatype sign_type = MCUBOOT_SIGN_RSA_2048 | MCUBOOT_SIGN_RSA_3072 | MCUBOOT_SIGN_EC | MCUBOOT_SIGN_ED25519

record config =
  mcuboot_sign :: sign_type
  boot_signature_using_kmu :: bool
  allow_rogue_tlvs :: bool
  mcuboot_downgrade_prevention :: bool
  mcuboot_version_cmp_use_build_number :: bool
  cfg_s0_s1_image_version :: image_version
  PM_ID_s0 :: fa_id_t
  PM_ID_s1 :: fa_id_t
  PM_ID_mcuboot_primary :: fa_id_t
  PM_ID_mcuboot_secondary :: fa_id_t
  PM_ID_littlefs_storage1 :: fa_id_t
  RUUVI_FW_MCUBOOT0_FILE_NAME :: string
  RUUVI_FW_MCUBOOT1_FILE_NAME :: string
  RUUVI_FW_LOADER_FILE_NAME :: string
  RUUVI_FW_APP_FILE_NAME :: string
  RUUVI_FW_UPDATE_MOUNT_POINT :: string
  MAX_FILE_NAME :: nat
  shared_img_buf_size :: nat
  shared_img_buf_addr :: u32
  fw_info_allowed_offsets :: "int list"
  FIRMWARE_INFO_MAGIC :: "byte list"
  CONFIG_FW_INFO_MAGIC_LEN :: nat

text \<open>Error numbers of the C library.\<close>

definition ENOENT :: int where
  "ENOENT = 2"

subsection \<open>The calls\<close>

text \<open>
  A call returns its return code, what it stored through its out-pointers, and the new world.
  A call that stores into a buffer returns the bytes it stored. \<open>fw_info_find\<close> and
  \<open>bl_validate_firmware\<close> read memory at an address that may lie in \<open>g_shared_img_buf\<close>, so the
  contents of that buffer are an argument; the first returns a pointer and what it points at.
\<close>

record 'w os =
  fs_open :: "string \<Rightarrow> 'w \<Rightarrow> (int \<times> fs_file_t) \<times> 'w"
  fs_close :: "fs_file_t \<Rightarrow> 'w \<Rightarrow> int \<times> 'w"
  fs_read :: "fs_file_t \<Rightarrow> nat \<Rightarrow> 'w \<Rightarrow> (int \<times> byte list) \<times> 'w"
  fs_seek :: "fs_file_t \<Rightarrow> int \<Rightarrow> fs_whence \<Rightarrow> 'w \<Rightarrow> int \<times> 'w"
  fs_tell :: "fs_file_t \<Rightarrow> 'w \<Rightarrow> int"
  fs_stat :: "string \<Rightarrow> 'w \<Rightarrow> (int \<times> fs_dir_entry_type) \<times> 'w"
  fs_unlink :: "string \<Rightarrow> 'w \<Rightarrow> int \<times> 'w"
  fs_mount :: "string \<Rightarrow> 'w \<Rightarrow> int \<times> 'w"
  fs_statvfs :: "string \<Rightarrow> 'w \<Rightarrow> int \<times> 'w"
  fs_unmount :: "string \<Rightarrow> 'w \<Rightarrow> int \<times> 'w"
  flash_area_open :: "fa_id_t \<Rightarrow> 'w \<Rightarrow> (int \<times> flash_area) \<times> 'w"
  flash_area_close :: "flash_area \<Rightarrow> 'w \<Rightarrow> 'w"
  flash_area_read :: "flash_area \<Rightarrow> int \<Rightarrow> nat \<Rightarrow> 'w \<Rightarrow> (int \<times> byte list) \<times> 'w"
  flash_area_write :: "flash_area \<Rightarrow> int \<Rightarrow> byte list \<Rightarrow> 'w \<Rightarrow> int \<times> 'w"
  flash_area_erase :: "flash_area \<Rightarrow> int \<Rightarrow> nat \<Rightarrow> 'w \<Rightarrow> int \<times> 'w"
  flash_area_flatten :: "flash_area \<Rightarrow> int \<Rightarrow> nat \<Rightarrow> 'w \<Rightarrow> int \<times> 'w"
  boot_image_load_header :: "flash_area \<Rightarrow> 'w \<Rightarrow> (int \<times> image_header) \<times> 'w"
  fw_info_find :: "u32 \<Rightarrow> byte list \<Rightarrow> 'w \<Rightarrow> (u32 \<times> fw_info) option"
  fw_info_invalidate :: "u32 \<Rightarrow> 'w \<Rightarrow> 'w"
  bl_validate_firmware :: "u32 \<Rightarrow> u32 \<Rightarrow> byte list \<Rightarrow> 'w \<Rightarrow> bool \<times> 'w"
  sys_reboot_cold :: "'w \<Rightarrow> 'w"
  k_msleep :: "nat \<Rightarrow> 'w \<Rightarrow> 'w"

subsection \<open>The abstract device\<close>

text \<open>
  Files by path, open handles with the path they were opened at and their position, flash areas
  by identifier with their descriptors and contents.
\<close>

record dev =
  d_files :: "string \<Rightarrow> byte list option"
  d_fds :: "nat \<Rightarrow> (string \<times> nat) option"
  d_area :: "fa_id_t \<Rightarrow> flash_area option"
  d_flash :: "fa_id_t \<Rightarrow> byte list"

definition file_at :: "dev \<Rightarrow> fs_file_t \<Rightarrow> (byte list \<times> nat) option" where
  "file_at d f = do {
     h \<leftarrow> filep f;
     (p, pos) \<leftarrow> d_fds d h;
     bs \<leftarrow> d_files d p;
     Some (bs, pos)
   }"

definition set_pos :: "fs_file_t \<Rightarrow> nat \<Rightarrow> dev \<Rightarrow> dev" where
  "set_pos f n d =
     (case filep f of None \<Rightarrow> d
      | Some h \<Rightarrow> (case d_fds d h of None \<Rightarrow> d
                   | Some (p, _) \<Rightarrow> d\<lparr>d_fds := (d_fds d)(h \<mapsto> (p, n))\<rparr>))"

lemma file_at_set_pos [simp]:
  "file_at d f = Some (bs, pos) \<Longrightarrow> file_at (set_pos f n d) f = Some (bs, n)"
  by (auto simp: file_at_def set_pos_def bind_eq_Some_conv split: option.splits)

lemma set_pos_frame [simp]:
  "d_files (set_pos f n d) = d_files d"
  "d_area (set_pos f n d) = d_area d"
  "d_flash (set_pos f n d) = d_flash d"
  by (simp_all add: set_pos_def split: option.split prod.split)

lemma set_pos_set_pos [simp]: "set_pos f n (set_pos f m d) = set_pos f n d"
  by (simp add: set_pos_def split: option.split prod.split)

lemma set_pos_same: "file_at d f = Some (bs, pos) \<Longrightarrow> set_pos f pos d = d"
  by (auto simp: file_at_def set_pos_def bind_eq_Some_conv fun_upd_idem)

subsection \<open>What the file system documents\<close>

definition fs_seek_target :: "byte list \<Rightarrow> int \<Rightarrow> fs_whence \<Rightarrow> int" where
  "fs_seek_target bs off wh =
     (case wh of FS_SEEK_SET \<Rightarrow> off | FS_SEEK_END \<Rightarrow> int (length bs) + off)"

definition fs_seek_spec :: "bool \<Rightarrow> ('w \<Rightarrow> dev) \<Rightarrow> 'w os \<Rightarrow> bool" where
  "fs_seek_spec rel dv E \<longleftrightarrow>
     (\<forall>f off wh w rc w' bs pos.
        fs_seek E f off wh w = (rc, w') \<longrightarrow> file_at (dv w) f = Some (bs, pos) \<longrightarrow>
        (let t = fs_seek_target bs off wh in
         rc = 0 \<and> 0 \<le> t \<and> dv w' = set_pos f (nat t) (dv w)
         \<or> rc < 0 \<and> dv w' = dv w \<and> \<not> (rel \<and> 0 \<le> t \<and> t \<le> int (length bs))))"

text \<open>
  A read stores what the file holds from the position on, at most \<open>n\<close> bytes, returns how many it
  stored, and advances the position. A failure is a negative \<open>ssize_t\<close>,
  and has stored no more than \<open>n\<close> bytes either.
\<close>

definition fs_read_spec :: "bool \<Rightarrow> ('w \<Rightarrow> dev) \<Rightarrow> 'w os \<Rightarrow> bool" where
  "fs_read_spec rel dv E \<longleftrightarrow>
     (\<forall>f n w rc data w' bs pos.
        fs_read E f n w = ((rc, data), w') \<longrightarrow> file_at (dv w) f = Some (bs, pos) \<longrightarrow>
        rc = int (length data) \<and> data = bytes_at pos n bs
          \<and> dv w' = set_pos f (pos + length data) (dv w)
        \<or> \<not> rel \<and> - (2 ^ 31) \<le> rc \<and> rc < 0 \<and> length data \<le> n \<and> dv w' = dv w)"

definition fs_tell_spec :: "('w \<Rightarrow> dev) \<Rightarrow> 'w os \<Rightarrow> bool" where
  "fs_tell_spec dv E \<longleftrightarrow>
     (\<forall>f w bs pos. file_at (dv w) f = Some (bs, pos) \<longrightarrow> fs_tell E f w = int pos)"

definition fs_open_spec :: "bool \<Rightarrow> ('w \<Rightarrow> dev) \<Rightarrow> 'w os \<Rightarrow> bool" where
  "fs_open_spec rel dv E \<longleftrightarrow>
     (\<forall>p w rc f w'. fs_open E p w = ((rc, f), w') \<longrightarrow>
        rc = 0 \<and> d_files (dv w) p \<noteq> None
          \<and> (\<exists>h. filep f = Some h \<and> d_fds (dv w) h = None
                \<and> dv w' = (dv w)\<lparr>d_fds := (d_fds (dv w))(h \<mapsto> (p, 0))\<rparr>)
        \<or> rc < 0 \<and> dv w' = dv w \<and> \<not> (rel \<and> d_files (dv w) p \<noteq> None))"

text \<open>
  \<open>d_fds\<close> holds the handles that were opened and have not been passed to \<open>fs_close\<close> since. LittleFS returns
  the data of a file to its pool in \<open>fs_close\<close> whatever it reports, since a file opened for reading has
  nothing to write back; the code under \<open>src/\<close> ignores the return code everywhere.
\<close>

definition fs_close_spec :: "('w \<Rightarrow> dev) \<Rightarrow> 'w os \<Rightarrow> bool" where
  "fs_close_spec dv E \<longleftrightarrow>
     (\<forall>f h w rc w'. fs_close E f w = (rc, w') \<longrightarrow> filep f = Some h \<longrightarrow>
        dv w' = (dv w)\<lparr>d_fds := (d_fds (dv w))(h := None)\<rparr>)"

definition fs_stat_spec :: "bool \<Rightarrow> ('w \<Rightarrow> dev) \<Rightarrow> 'w os \<Rightarrow> bool" where
  "fs_stat_spec rel dv E \<longleftrightarrow>
     (\<forall>p w rc t w'. fs_stat E p w = ((rc, t), w') \<longrightarrow> dv w' = dv w
        \<and> (rc = 0 \<and> t = FS_DIR_ENTRY_FILE \<longrightarrow> d_files (dv w) p \<noteq> None)
        \<and> (rel \<and> d_files (dv w) p \<noteq> None \<longrightarrow> rc = 0 \<and> t = FS_DIR_ENTRY_FILE))"

definition fs_unlink_spec :: "bool \<Rightarrow> ('w \<Rightarrow> dev) \<Rightarrow> 'w os \<Rightarrow> bool" where
  "fs_unlink_spec rel dv E \<longleftrightarrow>
     (\<forall>p w rc w'. fs_unlink E p w = (rc, w') \<longrightarrow>
        rc = 0 \<and> dv w' = (dv w)\<lparr>d_files := (d_files (dv w))(p := None)\<rparr>
        \<or> rc < 0 \<and> dv w' = dv w \<and> \<not> (rel \<and> d_files (dv w) p \<noteq> None))"

text \<open>LittleFS bounds the size of a file by \<open>2^31 - 1\<close>.\<close>

definition fs_size_spec :: "('w \<Rightarrow> dev) \<Rightarrow> bool" where
  "fs_size_spec dv \<longleftrightarrow> (\<forall>w p bs. d_files (dv w) p = Some bs \<longrightarrow> length bs < 2 ^ 31)"

definition fs_spec :: "bool \<Rightarrow> ('w \<Rightarrow> dev) \<Rightarrow> 'w os \<Rightarrow> bool" where
  "fs_spec rel dv E \<longleftrightarrow>
     fs_seek_spec rel dv E \<and> fs_read_spec rel dv E \<and> fs_tell_spec dv E
     \<and> fs_open_spec rel dv E \<and> fs_close_spec dv E \<and> fs_stat_spec rel dv E
     \<and> fs_unlink_spec rel dv E \<and> fs_size_spec dv"

lemma fs_specD:
  assumes "fs_spec rel dv E"
  shows "fs_seek_spec rel dv E" "fs_read_spec rel dv E" "fs_tell_spec dv E"
    "fs_open_spec rel dv E" "fs_close_spec dv E" "fs_stat_spec rel dv E"
    "fs_unlink_spec rel dv E" "fs_size_spec dv"
  using assms by (simp_all add: fs_spec_def)

subsection \<open>Reading an open file\<close>

text \<open>
  The state of a world while an open file \<open>f\<close> with contents \<open>bs\<close> is read: nothing but the
  position differs from the device \<open>d\<close> the reading started with.
\<close>

definition reading :: "bool \<Rightarrow> ('w \<Rightarrow> dev) \<Rightarrow> 'w os \<Rightarrow> fs_file_t \<Rightarrow> byte list \<Rightarrow> dev \<Rightarrow> nat \<Rightarrow> 'w \<Rightarrow> bool"
  where
  "reading rel dv E f bs d pos w \<longleftrightarrow>
     fs_spec rel dv E \<and> (\<exists>p. file_at d f = Some (bs, p)) \<and> dv w = set_pos f pos d"

lemma readingI:
  "fs_spec rel dv E \<Longrightarrow> file_at (dv w) f = Some (bs, pos) \<Longrightarrow> reading rel dv E f bs (dv w) pos w"
  by (auto simp: reading_def set_pos_same)

lemma reading_file_at:
  "reading rel dv E f bs d pos w \<Longrightarrow> file_at (dv w) f = Some (bs, pos)"
  by (auto simp: reading_def)

lemma file_at_content: "file_at d f = Some (bs, pos) \<Longrightarrow> \<exists>p. d_files d p = Some bs"
  by (auto simp: file_at_def bind_eq_Some_conv)

lemma reading_length: "reading rel dv E f bs d pos w \<Longrightarrow> length bs < 2 ^ 31"
  using file_at_content [OF reading_file_at]
  by (fastforce simp: reading_def fs_spec_def fs_size_spec_def)

lemma reading_tell: "reading rel dv E f bs d pos w \<Longrightarrow> fs_tell E f w = int pos"
  using reading_file_at [of rel dv E f bs d pos w]
  by (auto simp: reading_def fs_spec_def fs_tell_spec_def)

lemma reading_seek:
  assumes "reading rel dv E f bs d pos w" and "fs_seek E f off wh w = (rc, w')"
  defines "t \<equiv> fs_seek_target bs off wh"
  shows "rc = 0 \<and> 0 \<le> t \<and> reading rel dv E f bs d (nat t) w'
         \<or> rc < 0 \<and> reading rel dv E f bs d pos w' \<and> \<not> (rel \<and> 0 \<le> t \<and> t \<le> int (length bs))"
proof -
  have "fs_seek_spec rel dv E" and at: "file_at (dv w) f = Some (bs, pos)"
    using assms(1) reading_file_at by (auto simp: reading_def fs_spec_def)
  then have "rc = 0 \<and> 0 \<le> t \<and> dv w' = set_pos f (nat t) (dv w)
         \<or> rc < 0 \<and> dv w' = dv w \<and> \<not> (rel \<and> 0 \<le> t \<and> t \<le> int (length bs))"
    using assms(2) unfolding fs_seek_spec_def t_def Let_def by blast
  then show ?thesis
    using assms(1) by (auto simp: reading_def)
qed

lemma reading_read:
  assumes "reading rel dv E f bs d pos w" and "fs_read E f n w = ((rc, data), w')"
  shows "rc = int (length data) \<and> data = bytes_at pos n bs
           \<and> reading rel dv E f bs d (pos + length data) w'
         \<or> \<not> rel \<and> - (2 ^ 31) \<le> rc \<and> rc < 0 \<and> length data \<le> n \<and> reading rel dv E f bs d pos w'"
proof -
  have "fs_read_spec rel dv E" and "file_at (dv w) f = Some (bs, pos)"
    using assms(1) reading_file_at by (auto simp: reading_def fs_spec_def)
  then have "rc = int (length data) \<and> data = bytes_at pos n bs
          \<and> dv w' = set_pos f (pos + length data) (dv w)
        \<or> \<not> rel \<and> - (2 ^ 31) \<le> rc \<and> rc < 0 \<and> length data \<le> n \<and> dv w' = dv w"
    using assms(2) unfolding fs_read_spec_def by blast
  then show ?thesis
    using assms(1) by (auto simp: reading_def)
qed

subsection \<open>What the flash map documents\<close>

definition set_flash :: "fa_id_t \<Rightarrow> byte list \<Rightarrow> dev \<Rightarrow> dev" where
  "set_flash i fl d = d\<lparr>d_flash := (d_flash d)(i := fl)\<rparr>"

definition patch :: "nat \<Rightarrow> 'a list \<Rightarrow> 'a list \<Rightarrow> 'a list" where
  "patch off new old = take off old @ new @ drop (off + length new) old"

lemma length_patch [simp]:
  "off + length new \<le> length old \<Longrightarrow> length (patch off new old) = length old"
  by (simp add: patch_def)

lemma set_flash_simps [simp]:
  "d_files (set_flash i fl d) = d_files d" "d_fds (set_flash i fl d) = d_fds d"
  "d_area (set_flash i fl d) = d_area d" "d_flash (set_flash i fl d) = (d_flash d)(i := fl)"
  "set_flash i fl (set_flash i fl' d) = set_flash i fl d"
  "set_flash i (d_flash d i) d = d"
  "file_at (set_flash i fl d) f = file_at d f"
  by (simp_all add: set_flash_def file_at_def)

lemma set_pos_set_flash: "set_pos f n (set_flash i fl d) = set_flash i fl (set_pos f n d)"
  by (simp add: set_flash_def set_pos_def split: option.split prod.split)

definition flash_open_spec :: "bool \<Rightarrow> ('w \<Rightarrow> dev) \<Rightarrow> 'w os \<Rightarrow> bool" where
  "flash_open_spec rel dv E \<longleftrightarrow>
     (\<forall>i w rc fa w'. flash_area_open E i w = ((rc, fa), w') \<longrightarrow> dv w' = dv w
        \<and> (rc = 0 \<longrightarrow> d_area (dv w) i = Some fa)
        \<and> (rel \<and> d_area (dv w) i \<noteq> None \<longrightarrow> rc = 0))"

definition flash_area_wf :: "('w \<Rightarrow> dev) \<Rightarrow> bool" where
  "flash_area_wf dv \<longleftrightarrow>
     (\<forall>w i fa. d_area (dv w) i = Some fa \<longrightarrow>
        fa_id fa = i \<and> length (d_flash (dv w) i) = unat (fa_size fa))"

definition flash_close_spec :: "('w \<Rightarrow> dev) \<Rightarrow> 'w os \<Rightarrow> bool" where
  "flash_close_spec dv E \<longleftrightarrow> (\<forall>fa w. dv (flash_area_close E fa w) = dv w)"

definition flash_read_spec :: "bool \<Rightarrow> ('w \<Rightarrow> dev) \<Rightarrow> 'w os \<Rightarrow> bool" where
  "flash_read_spec rel dv E \<longleftrightarrow>
     (\<forall>fa off n w rc data w'. flash_area_read E fa off n w = ((rc, data), w') \<longrightarrow>
        d_area (dv w) (fa_id fa) = Some fa \<longrightarrow>
        (let fl = d_flash (dv w) (fa_id fa); ok = (0 \<le> off \<and> nat off + n \<le> length fl) in
         dv w' = dv w \<and> length data \<le> n
         \<and> (rc = 0 \<longrightarrow> ok \<and> data = bytes_at (nat off) n fl) \<and> (rel \<and> ok \<longrightarrow> rc = 0)))"

text \<open>
  A write needs an erased destination: where it is not erased, nothing is said about what the
  cells hold afterwards. Offsets and lengths have to be multiples of the write block (4 bytes).
\<close>

definition flash_write_spec :: "bool \<Rightarrow> ('w \<Rightarrow> dev) \<Rightarrow> 'w os \<Rightarrow> bool" where
  "flash_write_spec rel dv E \<longleftrightarrow>
     (\<forall>fa off data w rc w'. flash_area_write E fa off data w = (rc, w') \<longrightarrow>
        d_area (dv w) (fa_id fa) = Some fa \<longrightarrow>
        (let i = fa_id fa; fl = d_flash (dv w) i;
             ok = (0 \<le> off \<and> nat off + length data \<le> length fl) in
         rc = 0 \<and> ok \<and> (\<exists>r. length r = length data
             \<and> (bytes_at (nat off) (length data) fl = replicate (length data) 0xFF \<longrightarrow> r = data)
             \<and> dv w' = set_flash i (patch (nat off) r fl) (dv w))
         \<or> rc \<noteq> 0 \<and> (\<exists>fl'. length fl' = length fl \<and> dv w' = set_flash i fl' (dv w))
             \<and> \<not> (rel \<and> ok \<and> 4 dvd nat off \<and> 4 dvd length data)))"

definition flash_erase_spec :: "bool \<Rightarrow> ('w \<Rightarrow> dev) \<Rightarrow> 'w os \<Rightarrow> bool" where
  "flash_erase_spec rel dv E \<longleftrightarrow>
     (\<forall>fa off n w rc w'. flash_area_erase E fa off n w = (rc, w') \<longrightarrow>
        d_area (dv w) (fa_id fa) = Some fa \<longrightarrow>
        (let i = fa_id fa; fl = d_flash (dv w) i; ok = (0 \<le> off \<and> nat off + n \<le> length fl) in
         rc = 0 \<and> ok \<and> dv w' = set_flash i (patch (nat off) (replicate n 0xFF) fl) (dv w)
         \<or> rc \<noteq> 0 \<and> (\<exists>fl'. length fl' = length fl \<and> dv w' = set_flash i fl' (dv w))
             \<and> \<not> (rel \<and> off = 0 \<and> n = length fl)))"

definition flash_spec :: "bool \<Rightarrow> ('w \<Rightarrow> dev) \<Rightarrow> 'w os \<Rightarrow> bool" where
  "flash_spec rel dv E \<longleftrightarrow>
     flash_open_spec rel dv E \<and> flash_area_wf dv \<and> flash_close_spec dv E
     \<and> flash_read_spec rel dv E \<and> flash_write_spec rel dv E \<and> flash_erase_spec rel dv E"

lemma flash_specD:
  assumes "flash_spec rel dv E"
  shows "flash_open_spec rel dv E" "flash_area_wf dv" "flash_close_spec dv E"
    "flash_read_spec rel dv E" "flash_write_spec rel dv E" "flash_erase_spec rel dv E"
  using assms by (simp_all add: flash_spec_def)

text \<open>
  The remaining calls do not touch files, handles or flash contents: loading an image header,
  validating firmware against the keys of the immutable bootloader, and sleeping.
\<close>

definition query_spec :: "('w \<Rightarrow> dev) \<Rightarrow> 'w os \<Rightarrow> bool" where
  "query_spec dv E \<longleftrightarrow>
     (\<forall>fa w r w'. boot_image_load_header E fa w = (r, w') \<longrightarrow> dv w' = dv w)
     \<and> (\<forall>a b m w r w'. bl_validate_firmware E a b m w = (r, w') \<longrightarrow> dv w' = dv w)
     \<and> (\<forall>ms w. dv (k_msleep E ms w) = dv w)"

end
