(* ===== verification/Ram_Device.thy ===== *)
theory Ram_Device
  imports Platform
begin

section \<open>A device in memory\<close>

text \<open>
  A concrete, executable instance of the platform: files and flash areas held in memory. It
  models no code of the repository. It shows that the documented behaviour the theorems assume
  can be provided (\<open>ram_fs_spec\<close>, \<open>ram_flash_spec\<close>, \<open>ram_query_spec\<close>), and the witnesses of
  the theorems run the models on it. No call of it ever fails while its arguments are in range.
\<close>

record ram =
  r_dev :: dev
  r_next :: nat

text \<open>What the device shows: handles that were handed out, files and areas of legal size.\<close>

definition ram_view :: "ram \<Rightarrow> dev" where
  "ram_view w = (r_dev w)\<lparr>
     d_files := (\<lambda>p. case d_files (r_dev w) p of None \<Rightarrow> None
                     | Some bs \<Rightarrow> if length bs < 2 ^ 31 then Some bs else None),
     d_fds := (\<lambda>h. if h < r_next w then d_fds (r_dev w) h else None),
     d_area := (\<lambda>i. case d_area (r_dev w) i of None \<Rightarrow> None
                    | Some fa \<Rightarrow> if fa_id fa = i \<and> length (d_flash (r_dev w) i) = unat (fa_size fa)
                                then Some fa else None)\<rparr>"

definition ram_open :: "string \<Rightarrow> ram \<Rightarrow> (int \<times> fs_file_t) \<times> ram" where
  "ram_open p w =
     (case d_files (ram_view w) p of
        None \<Rightarrow> ((- 2, \<lparr>filep = None\<rparr>), w)
      | Some _ \<Rightarrow> ((0, \<lparr>filep = Some (r_next w)\<rparr>),
                  w\<lparr>r_dev := (r_dev w)\<lparr>d_fds := (d_fds (r_dev w))(r_next w \<mapsto> (p, 0))\<rparr>,
                    r_next := Suc (r_next w)\<rparr>))"

definition ram_close :: "fs_file_t \<Rightarrow> ram \<Rightarrow> int \<times> ram" where
  "ram_close f w =
     (case filep f of None \<Rightarrow> (- 9, w)
      | Some h \<Rightarrow> (0, w\<lparr>r_dev := (r_dev w)\<lparr>d_fds := (d_fds (r_dev w))(h := None)\<rparr>\<rparr>))"

definition ram_seek :: "fs_file_t \<Rightarrow> int \<Rightarrow> fs_whence \<Rightarrow> ram \<Rightarrow> int \<times> ram" where
  "ram_seek f off wh w =
     (case file_at (ram_view w) f of None \<Rightarrow> (- 9, w)
      | Some (bs, pos) \<Rightarrow>
          let t = fs_seek_target bs off wh in
          if 0 \<le> t \<and> t \<le> int (length bs) then (0, w\<lparr>r_dev := set_pos f (nat t) (r_dev w)\<rparr>)
          else (- 22, w))"

definition ram_read :: "fs_file_t \<Rightarrow> nat \<Rightarrow> ram \<Rightarrow> (int \<times> byte list) \<times> ram" where
  "ram_read f n w =
     (case file_at (ram_view w) f of None \<Rightarrow> ((- 9, []), w)
      | Some (bs, pos) \<Rightarrow>
          let data = bytes_at pos n bs in
          ((int (length data), data), w\<lparr>r_dev := set_pos f (pos + length data) (r_dev w)\<rparr>))"

definition ram_tell :: "fs_file_t \<Rightarrow> ram \<Rightarrow> int" where
  "ram_tell f w = (case file_at (ram_view w) f of None \<Rightarrow> - 9 | Some (_, pos) \<Rightarrow> int pos)"

definition ram_stat :: "string \<Rightarrow> ram \<Rightarrow> (int \<times> fs_dir_entry_type) \<times> ram" where
  "ram_stat p w =
     (case d_files (ram_view w) p of None \<Rightarrow> ((- 2, FS_DIR_ENTRY_FILE), w)
      | Some _ \<Rightarrow> ((0, FS_DIR_ENTRY_FILE), w))"

definition ram_unlink :: "string \<Rightarrow> ram \<Rightarrow> int \<times> ram" where
  "ram_unlink p w =
     (case d_files (ram_view w) p of None \<Rightarrow> (- 2, w)
      | Some _ \<Rightarrow> (0, w\<lparr>r_dev := (r_dev w)\<lparr>d_files := (d_files (r_dev w))(p := None)\<rparr>\<rparr>))"

definition ram_fa_open :: "fa_id_t \<Rightarrow> ram \<Rightarrow> (int \<times> flash_area) \<times> ram" where
  "ram_fa_open i w =
     (case d_area (ram_view w) i of
        None \<Rightarrow> ((- 19, \<lparr>fa_id = i, fa_off = 0, fa_size = 0\<rparr>), w)
      | Some fa \<Rightarrow> ((0, fa), w))"

definition ram_fa_read :: "flash_area \<Rightarrow> int \<Rightarrow> nat \<Rightarrow> ram \<Rightarrow> (int \<times> byte list) \<times> ram" where
  "ram_fa_read fa off n w =
     (let fl = d_flash (r_dev w) (fa_id fa) in
      if 0 \<le> off \<and> nat off + n \<le> length fl then ((0, bytes_at (nat off) n fl), w)
      else ((- 22, []), w))"

text \<open>Programming a cell can only clear bits.\<close>

definition ram_fa_write :: "flash_area \<Rightarrow> int \<Rightarrow> byte list \<Rightarrow> ram \<Rightarrow> int \<times> ram" where
  "ram_fa_write fa off data w =
     (let i = fa_id fa; fl = d_flash (r_dev w) i in
      if 0 \<le> off \<and> nat off + length data \<le> length fl \<and> 4 dvd nat off \<and> 4 dvd length data
      then (0, w\<lparr>r_dev := set_flash i
                 (patch (nat off) (map2 (\<lambda>a b. Bit_Operations.and a b) (bytes_at (nat off) (length data) fl) data) fl)
                 (r_dev w)\<rparr>)
      else (- 22, w))"

definition ram_fa_erase :: "flash_area \<Rightarrow> int \<Rightarrow> nat \<Rightarrow> ram \<Rightarrow> int \<times> ram" where
  "ram_fa_erase fa off n w =
     (let i = fa_id fa; fl = d_flash (r_dev w) i in
      if 0 \<le> off \<and> nat off + n \<le> length fl
      then (0, w\<lparr>r_dev := set_flash i (patch (nat off) (replicate n 0xFF) fl) (r_dev w)\<rparr>)
      else (- 22, w))"

definition ram_load_header :: "image_abi \<Rightarrow> flash_area \<Rightarrow> ram \<Rightarrow> (int \<times> image_header) \<times> ram" where
  "ram_load_header A fa w =
     (let h = image_header_of A (bytes_at 0 (sizeof_image_header A) (d_flash (r_dev w) (fa_id fa))) in
      ((if ih_magic h = IMAGE_MAGIC A then 0 else - 1, h), w))"

text \<open>
  Memory at an address: the shared buffer at its address, else the flash area that starts there.
  The firmware information sits at the first of the allowed offsets.
\<close>

definition ram_fw_info_find :: "image_abi \<Rightarrow> config \<Rightarrow> u32 \<Rightarrow> byte list \<Rightarrow> ram \<Rightarrow> (u32 \<times> fw_info) option" where
  "ram_fw_info_find A K addr buf w =
     (let mem = (if addr = shared_img_buf_addr K then buf
                 else case find (\<lambda>i. case d_area (ram_view w) i of None \<Rightarrow> False | Some fa \<Rightarrow> fa_off fa = addr)
                        [PM_ID_s0 K, PM_ID_s1 K, PM_ID_mcuboot_primary K, PM_ID_mcuboot_secondary K] of
                      None \<Rightarrow> [] | Some i \<Rightarrow> d_flash (r_dev w) i);
          off = nat (hd (fw_info_allowed_offsets K));
          i = fw_info_of A (bytes_at off (sizeof_fw_info A) mem) in
      if take (CONFIG_FW_INFO_MAGIC_LEN K) (fi_magic i) = take (CONFIG_FW_INFO_MAGIC_LEN K) (FIRMWARE_INFO_MAGIC K)
      then Some (addr + of_nat off, i) else None)"

text \<open>Stand-in for the signature check of the immutable bootloader: the bytes add up to zero.\<close>

definition ram_bl_validate :: "config \<Rightarrow> u32 \<Rightarrow> u32 \<Rightarrow> byte list \<Rightarrow> ram \<Rightarrow> bool \<times> ram" where
  "ram_bl_validate K a src buf w = (sum_list (drop (unat (src - shared_img_buf_addr K)) buf) = 0, w)"

definition ram_os :: "image_abi \<Rightarrow> config \<Rightarrow> ram os" where
  "ram_os A K =
    \<lparr>fs_open = ram_open, fs_close = ram_close, fs_read = ram_read, fs_seek = ram_seek,
     fs_tell = ram_tell, fs_stat = ram_stat, fs_unlink = ram_unlink,
     fs_mount = (\<lambda>_ w. (0, w)), fs_statvfs = (\<lambda>_ w. (0, w)), fs_unmount = (\<lambda>_ w. (0, w)),
     flash_area_open = ram_fa_open, flash_area_close = (\<lambda>_ w. w), flash_area_read = ram_fa_read,
     flash_area_write = ram_fa_write, flash_area_erase = ram_fa_erase,
     flash_area_flatten = ram_fa_erase, boot_image_load_header = ram_load_header A,
     fw_info_find = ram_fw_info_find A K, fw_info_invalidate = (\<lambda>_ w. w),
     bl_validate_firmware = ram_bl_validate K, sys_reboot_cold = (\<lambda>w. w), k_msleep = (\<lambda>_ w. w)\<rparr>"

subsection \<open>It behaves as documented\<close>

lemma ram_view_frame [simp]:
  "d_flash (ram_view w) = d_flash (r_dev w)"
  by (simp add: ram_view_def)

lemma ram_view_set_pos [simp]:
  "ram_view (w\<lparr>r_dev := set_pos f n (r_dev w)\<rparr>) = set_pos f n (ram_view w)"
  by (cases "filep f")
     (auto simp: ram_view_def set_pos_def fun_eq_iff split: option.split prod.split if_split)

lemma ram_view_set_flash [simp]:
  "length fl = length (d_flash (r_dev w) i) \<Longrightarrow>
   ram_view (w\<lparr>r_dev := set_flash i fl (r_dev w)\<rparr>) = set_flash i fl (ram_view w)"
  by (auto simp: ram_view_def set_flash_def fun_eq_iff split: option.split if_split)

lemma ram_view_open:
  "ram_view (w\<lparr>r_dev := (r_dev w)\<lparr>d_fds := (d_fds (r_dev w))(r_next w \<mapsto> (p, 0))\<rparr>,
     r_next := Suc (r_next w)\<rparr>) = (ram_view w)\<lparr>d_fds := (d_fds (ram_view w))(r_next w \<mapsto> (p, 0))\<rparr>"
  by (rule dev.equality) (auto simp: ram_view_def fun_eq_iff split: option.split)

lemma ram_open_spec: "fs_open_spec True ram_view (ram_os A K)"
  unfolding fs_open_spec_def
proof (intro allI impI)
  fix p w rc f w'
  assume run: "fs_open (ram_os A K) p w = ((rc, f), w')"
  have free: "d_fds (ram_view w) (r_next w) = None"
    by (simp add: ram_view_def)
  show "rc = 0 \<and> d_files (ram_view w) p \<noteq> None
          \<and> (\<exists>h. filep f = Some h \<and> d_fds (ram_view w) h = None
                \<and> ram_view w' = (ram_view w)\<lparr>d_fds := (d_fds (ram_view w))(h \<mapsto> (p, 0))\<rparr>)
        \<or> rc < 0 \<and> ram_view w' = ram_view w \<and> \<not> (True \<and> d_files (ram_view w) p \<noteq> None)"
    using run free ram_view_open [of w p]
    by (cases "d_files (ram_view w) p") (auto simp: ram_os_def ram_open_def)
qed

lemma ram_fs_spec: "fs_spec True ram_view (ram_os A K)"
proof -
  have "fs_seek_spec True ram_view (ram_os A K)"
    by (auto simp: fs_seek_spec_def ram_os_def ram_seek_def Let_def split: if_splits)
  moreover have "fs_read_spec True ram_view (ram_os A K)"
    by (auto simp: fs_read_spec_def ram_os_def ram_read_def Let_def)
  moreover have "fs_tell_spec ram_view (ram_os A K)"
    by (auto simp: fs_tell_spec_def ram_os_def ram_tell_def)
  moreover have "fs_open_spec True ram_view (ram_os A K)"
    by (rule ram_open_spec)
  moreover have "fs_close_spec ram_view (ram_os A K)"
    by (auto simp: fs_close_spec_def ram_os_def ram_close_def ram_view_def fun_eq_iff
        intro!: dev.equality split: option.split)
  moreover have "fs_stat_spec True ram_view (ram_os A K)"
    by (auto simp: fs_stat_spec_def ram_os_def ram_stat_def split: option.splits)
  moreover have "fs_unlink_spec True ram_view (ram_os A K)"
    by (auto simp: fs_unlink_spec_def ram_os_def ram_unlink_def ram_view_def fun_eq_iff
        split: option.splits if_splits)
  moreover have "fs_size_spec ram_view"
    by (auto simp: fs_size_spec_def ram_view_def split: option.splits if_splits)
  ultimately show ?thesis
    by (simp add: fs_spec_def)
qed

lemma map2_and_erased:
  "length r = length data \<Longrightarrow> r = replicate (length data) (0xFF :: byte) \<Longrightarrow>
   map2 (\<lambda>a b. Bit_Operations.and a b) r data = data"
proof -
  have "Bit_Operations.and (0xFF :: byte) x = x" for x
  proof -
    have m: "(0xFF :: byte) = - 1"
      by simp
    show ?thesis
      unfolding m by (rule and.left_neutral)
  qed
  then have "map2 (\<lambda>a b. Bit_Operations.and a b) (replicate (length data) (0xFF :: byte)) data = data"
    by (induction data) simp_all
  then show "length r = length data \<Longrightarrow> r = replicate (length data) 0xFF \<Longrightarrow> ?thesis"
    by simp
qed

lemma ram_flash_spec: "flash_spec True ram_view (ram_os A K)"
proof -
  have "flash_open_spec True ram_view (ram_os A K)"
    by (auto simp: flash_open_spec_def ram_os_def ram_fa_open_def split: option.splits)
  moreover have "flash_area_wf ram_view"
    by (auto simp: flash_area_wf_def ram_view_def split: option.splits if_splits)
  moreover have "flash_close_spec ram_view (ram_os A K)"
    by (simp add: flash_close_spec_def ram_os_def)
  moreover have "flash_read_spec True ram_view (ram_os A K)"
    by (auto simp: flash_read_spec_def ram_os_def ram_fa_read_def Let_def split: if_splits)
  moreover have "flash_write_spec True ram_view (ram_os A K)"
    unfolding flash_write_spec_def
  proof (intro allI impI)
    fix fa :: flash_area and off data and w :: ram and rc w'
    let ?fl = "d_flash (r_dev w) (fa_id fa)"
    let ?r = "map2 (\<lambda>a b. Bit_Operations.and a b) (bytes_at (nat off) (length data) ?fl) data"
    assume run: "flash_area_write (ram_os A K) fa off data w = (rc, w')"
    show "let i = fa_id fa; fl = d_flash (ram_view w) i;
          ok = 0 \<le> off \<and> nat off + length data \<le> length fl
        in rc = 0 \<and> ok \<and> (\<exists>r. length r = length data
             \<and> (bytes_at (nat off) (length data) fl = replicate (length data) 0xFF \<longrightarrow> r = data)
             \<and> ram_view w' = set_flash i (patch (nat off) r fl) (ram_view w))
           \<or> rc \<noteq> 0 \<and> (\<exists>fl'. length fl' = length fl \<and> ram_view w' = set_flash i fl' (ram_view w))
             \<and> \<not> (True \<and> ok \<and> 4 dvd nat off \<and> 4 dvd length data)"
    proof (cases "0 \<le> off \<and> nat off + length data \<le> length ?fl \<and> 4 dvd nat off \<and> 4 dvd length data")
      case True
      then show ?thesis
        using run by (auto simp: ram_os_def ram_fa_write_def Let_def map2_and_erased
            intro!: exI [of _ ?r])
    next
      case False
      then show ?thesis
        using run by (auto simp: ram_os_def ram_fa_write_def Let_def intro!: exI [of _ ?fl])
    qed
  qed
  moreover have "flash_erase_spec True ram_view (ram_os A K)"
    by (auto simp: flash_erase_spec_def ram_os_def ram_fa_erase_def Let_def split: if_splits)
  ultimately show ?thesis
    by (simp add: flash_spec_def)
qed

lemma ram_query_spec: "query_spec ram_view (ram_os A K)"
  by (auto simp: query_spec_def ram_os_def ram_load_header_def ram_bl_validate_def Let_def)

subsection \<open>A small image format and configuration\<close>

text \<open>
  Structures of a few bytes each, a digest of two bytes, and partitions of 64 bytes, so that the
  witnesses evaluate in the kernel.
\<close>

definition byte_n :: "nat \<Rightarrow> byte list \<Rightarrow> byte" where
  "byte_n n bs = (if n < length bs then bs ! n else 0)"

definition demo_abi :: image_abi where
  "demo_abi =
    \<lparr>sizeof_image_header = 8,
     image_header_of = (\<lambda>b. \<lparr>ih_magic = ucast (byte_n 0 b), ih_hdr_size = ucast (byte_n 1 b),
        ih_protect_tlv_size = ucast (byte_n 2 b), ih_img_size = ucast (byte_n 3 b),
        ih_flags = ucast (byte_n 4 b),
        ih_ver = \<lparr>iv_major = byte_n 5 b, iv_minor = byte_n 6 b, iv_revision = ucast (byte_n 7 b),
                  iv_build_num = 0\<rparr>\<rparr>),
     sizeof_image_tlv_info = 2,
     image_tlv_info_of = (\<lambda>b. \<lparr>it_magic = ucast (byte_n 0 b), it_tlv_tot = ucast (byte_n 1 b)\<rparr>),
     sizeof_image_tlv = 2,
     image_tlv_of = (\<lambda>b. \<lparr>it_type = ucast (byte_n 0 b), it_len = ucast (byte_n 1 b)\<rparr>),
     sizeof_fw_info = 3,
     fw_info_of = (\<lambda>b. \<lparr>fi_magic = [byte_n 0 b], fi_version = ucast (byte_n 1 b),
        fi_address = ucast (byte_n 2 b)\<rparr>),
     IMAGE_MAGIC = 0x3D, IMAGE_F_NON_BOOTABLE = 0x10, IMAGE_TLV_INFO_MAGIC = 0x07,
     IMAGE_TLV_PROT_INFO_MAGIC = 0x08, IMAGE_TLV_ANY = 0xFFFF, IMAGE_TLV_KEYHASH = 0x01,
     IMAGE_TLV_PUBKEY = 0x02, IMAGE_TLV_SHA256 = 0x10, IMAGE_TLV_SHA384 = 0x11,
     IMAGE_TLV_SHA512 = 0x12, IMAGE_TLV_RSA2048_PSS = 0x20, IMAGE_TLV_ECDSA224 = 0x21,
     IMAGE_TLV_ECDSA_SIG = 0x22, IMAGE_TLV_RSA3072_PSS = 0x23, IMAGE_TLV_ED25519 = 0x24,
     IMAGE_TLV_ENC_RSA2048 = 0x30, IMAGE_TLV_ENC_KW = 0x31, IMAGE_TLV_ENC_EC256 = 0x32,
     IMAGE_TLV_ENC_X25519 = 0x33, IMAGE_TLV_SEC_CNT = 0x50, IMAGE_TLV_RUUVI_HW_REV_ID = 0xA0,
     IMAGE_TLV_RUUVI_HW_REV_NAME = 0xA1, EXPECTED_HASH_TLV = 0x10, IMAGE_HASH_SIZE = 2,
     BOOT_EBADARGS = 8, BOOT_EBADIMAGE = 3, BOOT_EFLASH = 1\<rparr>"

text \<open>
  Digest: the sum and the number of the bytes. A signature under key \<open>k\<close> is the digest and \<open>k\<close>.
\<close>

definition demo_crypto :: "byte list crypto" where
  "demo_crypto =
    \<lparr>bootutil_sha_init = [], bootutil_sha_update = (\<lambda>c b. c @ b),
     bootutil_sha_finish = (\<lambda>c. [sum_list c, of_nat (length c)]),
     boot_fih_memequal = (\<lambda>a b. if a = b then FIH_SUCCESS else FIH_FAILURE),
     bootutil_verify_sig = (\<lambda>h s k. if s = h @ [k] then FIH_SUCCESS else FIH_FAILURE),
     bootutil_keys = [[11, 12], [21, 22, 23]]\<rparr>"

definition demo_config :: config where
  "demo_config =
    \<lparr>mcuboot_sign = MCUBOOT_SIGN_EC, boot_signature_using_kmu = False, allow_rogue_tlvs = False,
     mcuboot_downgrade_prevention = True, mcuboot_version_cmp_use_build_number = False,
     cfg_s0_s1_image_version = \<lparr>iv_major = 1, iv_minor = 0, iv_revision = 0, iv_build_num = 0\<rparr>,
     PM_ID_s0 = 1, PM_ID_s1 = 2, PM_ID_mcuboot_primary = 3, PM_ID_mcuboot_secondary = 4,
     PM_ID_littlefs_storage1 = 5,
     RUUVI_FW_MCUBOOT0_FILE_NAME = ''b0'', RUUVI_FW_MCUBOOT1_FILE_NAME = ''b1'',
     RUUVI_FW_LOADER_FILE_NAME = ''ld'', RUUVI_FW_APP_FILE_NAME = ''ap'',
     RUUVI_FW_UPDATE_MOUNT_POINT = ''/m'', MAX_FILE_NAME = 16,
     shared_img_buf_size = 64, shared_img_buf_addr = 0x1000,
     fw_info_allowed_offsets = [16, 40], FIRMWARE_INFO_MAGIC = [0xF1], CONFIG_FW_INFO_MAGIC_LEN = 1\<rparr>"

text \<open>The equations with which the simplifier runs the device.\<close>

lemmas ram_eval =
  ram_os_def ram_view_def ram_open_def ram_close_def ram_seek_def ram_read_def ram_tell_def
  ram_stat_def ram_unlink_def ram_fa_open_def ram_fa_read_def ram_fa_write_def ram_fa_erase_def
  ram_load_header_def ram_fw_info_find_def ram_bl_validate_def file_at_def set_pos_def
  set_flash_def patch_def fs_seek_target_def bytes_at_def u32_of_int_def off_of_u32_def

text \<open>
  A signed image in this format: header, two bytes of code, a protected TLV area with a security
  counter, and the unprotected TLVs with the hash, the key hash and the signature.
\<close>

definition demo_image :: "byte list" where
  "demo_image =
     [0x3D, 8, 8, 2, 0, 2, 0, 0,  5, 6,
      8, 8, 0x50, 4, 7, 0, 0, 0,
      7, 15, 0x10, 2, 199, 18, 0x01, 2, 23, 2, 0x22, 3, 199, 18, 0]"

definition demo_header :: image_header where
  "demo_header = \<lparr>ih_magic = 0x3D, ih_hdr_size = 8, ih_protect_tlv_size = 8, ih_img_size = 2,
     ih_flags = 0, ih_ver = \<lparr>iv_major = 2, iv_minor = 0, iv_revision = 0, iv_build_num = 0\<rparr>\<rparr>"

text \<open>It is stored in a file, which is open.\<close>

definition demo_ram :: ram where
  "demo_ram =
     \<lparr>r_dev = \<lparr>d_files = [''/m/ap'' \<mapsto> demo_image], d_fds = [0 \<mapsto> (''/m/ap'', 0)],
               d_area = Map.empty, d_flash = (\<lambda>_. [])\<rparr>,
      r_next = 1\<rparr>"

abbreviation demo_file :: fs_file_t where
  "demo_file \<equiv> \<lparr>filep = Some 0\<rparr>"

lemma demo_abi_ok: "abi_ok demo_abi"
  by (simp add: abi_ok_def demo_abi_def)

lemma demo_ram_at: "file_at (ram_view demo_ram) demo_file = Some (demo_image, 0)"
  by (simp add: demo_ram_def demo_image_def ram_view_def file_at_def)

lemma demo_reading:
  "reading True ram_view (ram_os A K) demo_file demo_image (ram_view demo_ram) 0 demo_ram"
  by (rule readingI [OF ram_fs_spec demo_ram_at])

end
