(* ===== verification/Img_Op.thy ===== *)
theory Img_Op
  imports Ram_Device
begin

section \<open>Copying a file to a flash area (\<open>mcuboot_img_op.c\<close>)\<close>

text \<open>
  \<open>img_process\<close> streams a file through a 256 byte buffer and hands every chunk, padded with
  \<open>0xFF\<close> to a multiple of four bytes, to a callback: \<open>cb_img_write\<close> for the copy, \<open>cb_img_cmp\<close>
  for the comparison. The contract between the loop and its callback is the locale
  \<open>img_callback\<close>, interpreted for both callbacks. The static buffers need no state here: every
  byte of them that is passed on has been written in the same iteration.
\<close>

subsection \<open>The operations\<close>

definition TMP_BUF_SIZE :: nat where
  "TMP_BUF_SIZE = 256"

type_synonym 'w cb_img_process_t = "flash_area \<Rightarrow> int \<Rightarrow> byte list \<Rightarrow> 'w \<Rightarrow> bool \<times> 'w"

definition chunk_padding :: "nat \<Rightarrow> nat" where
  "chunk_padding len = (if len mod 4 \<noteq> 0 then 4 - len mod 4 else 0)"

function img_process_loop ::
  "'w os \<Rightarrow> fs_file_t \<Rightarrow> 'w cb_img_process_t \<Rightarrow> flash_area \<Rightarrow> nat \<Rightarrow> int \<Rightarrow> 'w \<Rightarrow> bool \<times> 'w"
where
  "img_process_loop E f cb fa rem_len offset w =
     (if rem_len > 0 then
        let len = (if rem_len > TMP_BUF_SIZE then TMP_BUF_SIZE else rem_len) in
        (case fs_read E f len w of ((rc, data), w) \<Rightarrow>
          if rc < 0 then (False, w)
          else if rc \<noteq> int len then (False, w)
          else
            let padding = chunk_padding len;
                tmp_buf1 = take len data @ replicate padding 0xFF
            in
            (case cb fa offset tmp_buf1 w of (ok, w) \<Rightarrow>
              if \<not> ok then (False, w)
              else img_process_loop E f cb fa (rem_len - len) (offset + int len) w))
      else (True, w))"
  by pat_completeness auto
termination
  by (relation "measure (\<lambda>(E, f, cb, fa, rem_len, offset, w). rem_len)")
     (auto simp: TMP_BUF_SIZE_def)

declare img_process_loop.simps [simp del]

definition img_process ::
  "'w os \<Rightarrow> fa_id_t \<Rightarrow> fs_file_t \<Rightarrow> bool \<Rightarrow> 'w cb_img_process_t \<Rightarrow> 'w \<Rightarrow> bool \<times> 'w"
where
  "img_process E fa_id_dst p_file_src flag_erase_dst cb_img_process w =
     (case flash_area_open E fa_id_dst w of ((rc, p_fa_dst), w) \<Rightarrow>
      if rc \<noteq> 0 then (False, w)
      else (case fs_seek E p_file_src 0 FS_SEEK_END w of (rc, w) \<Rightarrow>
      if rc \<noteq> 0 then (False, w)
      else
        let src_file_size = fs_tell E p_file_src w in
        (case fs_seek E p_file_src 0 FS_SEEK_SET w of (rc, w) \<Rightarrow>
        if rc \<noteq> 0 then (False, w)
        else if u32_of_int src_file_size > fa_size p_fa_dst then (False, w)
        else
          (case (if flag_erase_dst
                 then flash_area_erase E p_fa_dst 0 (unat (fa_size p_fa_dst)) w
                 else (0, w)) of (rc, w) \<Rightarrow>
          if flag_erase_dst \<and> rc \<noteq> 0 then (False, w)
          else
            (case img_process_loop E p_file_src cb_img_process p_fa_dst
                    (unat (u32_of_int src_file_size)) 0 w of (is_success, w) \<Rightarrow>
              (is_success, flash_area_close E p_fa_dst w))))))"

definition cb_img_write :: "'w os \<Rightarrow> 'w cb_img_process_t" where
  "cb_img_write E p_fa_dst offset p_src_img_data_buf w =
     (case flash_area_write E p_fa_dst offset p_src_img_data_buf w of (rc, w) \<Rightarrow>
      if rc \<noteq> 0 then (False, w) else (True, w))"

definition cb_img_cmp :: "'w os \<Rightarrow> 'w cb_img_process_t" where
  "cb_img_cmp E p_fa_dst offset p_src_img_data_buf w =
     (let buf_len = length p_src_img_data_buf in
      case flash_area_read E p_fa_dst offset buf_len w of ((rc, tmp_buf2), w) \<Rightarrow>
      if rc \<noteq> 0 then (False, w)
      else if p_src_img_data_buf \<noteq> take buf_len tmp_buf2 then (False, w)
      else (True, w))"

definition mcuboot_img_op_copy :: "'w os \<Rightarrow> fa_id_t \<Rightarrow> fs_file_t \<Rightarrow> 'w \<Rightarrow> bool \<times> 'w" where
  "mcuboot_img_op_copy E fa_id_dst p_file_src w =
     img_process E fa_id_dst p_file_src True (cb_img_write E) w"

definition mcuboot_img_op_cmp :: "'w os \<Rightarrow> fa_id_t \<Rightarrow> fs_file_t \<Rightarrow> 'w \<Rightarrow> bool \<times> 'w" where
  "mcuboot_img_op_cmp E fa_id_dst p_file_src w =
     img_process E fa_id_dst p_file_src False (cb_img_cmp E) w"

subsection \<open>The padded image\<close>

text \<open>What ends up in flash: the file, filled up with \<open>0xFF\<close> to a multiple of four bytes.\<close>

definition pad4 :: "byte list \<Rightarrow> byte list" where
  "pad4 bs = bs @ replicate (chunk_padding (length bs)) 0xFF"

lemma length_pad4: "length (pad4 bs) = length bs + chunk_padding (length bs)"
  by (simp add: pad4_def)

lemma chunk_padding_ceil: "n + chunk_padding n = 4 * ((n + 3) div 4)"
proof -
  obtain q r where n: "n = r + 4 * q" and r: "r < 4"
    by (metis mod_less_divisor mod_mult_div_eq zero_less_numeral)
  then have "n mod 4 = r"
    by simp
  then have "n + chunk_padding n = (if r = 0 then 4 * q else 4 + 4 * q)"
    using n r by (simp add: chunk_padding_def)
  moreover have "(n + 3) div 4 = (if r = 0 then q else 1 + q)"
    using n r by (cases "r = 0") simp_all
  ultimately show ?thesis
    by simp
qed

lemma chunk_padding_aligned: "4 dvd n + chunk_padding n"
  by (simp add: chunk_padding_ceil)

lemma chunk_padding_dvd [simp]: "4 dvd n \<Longrightarrow> chunk_padding n = 0"
  by (simp add: chunk_padding_def)

lemma pad4_aligned: "4 dvd length (pad4 bs)"
  by (simp add: length_pad4 chunk_padding_aligned)

lemma chunk_padding_add: "256 dvd n \<Longrightarrow> chunk_padding (n + m) = chunk_padding m"
proof -
  assume "256 dvd n"
  then have "n mod 4 = 0"
    by (auto elim!: dvdE)
  then have "(n + m) mod 4 = m mod 4"
    by (metis add_0 mod_add_left_eq)
  then show ?thesis
    by (simp add: chunk_padding_def)
qed

lemma ceil4_le: "m \<le> n \<Longrightarrow> 4 dvd n \<Longrightarrow> m + chunk_padding m \<le> n"
  unfolding chunk_padding_ceil by (elim dvdE) simp

lemma length_pad4_le: "length bs \<le> n \<Longrightarrow> 4 dvd n \<Longrightarrow> length (pad4 bs) \<le> n"
  by (simp add: length_pad4 ceil4_le)

text \<open>A chunk of the loop with its padding is a chunk of the padded image.\<close>

lemma chunk_of_pad4:
  assumes "256 dvd n" and "n < length bs"
  defines "len \<equiv> min TMP_BUF_SIZE (length bs - n)"
  shows "bytes_at n len bs @ replicate (chunk_padding len) 0xFF = bytes_at n TMP_BUF_SIZE (pad4 bs)"
proof (cases "TMP_BUF_SIZE \<le> length bs - n")
  case True
  then show ?thesis
    by (simp add: len_def bytes_at_def pad4_def TMP_BUF_SIZE_def)
next
  case False
  then have len: "len = length bs - n" and lt: "length bs - n < 256"
    by (simp_all add: len_def TMP_BUF_SIZE_def)
  have cp: "chunk_padding (length bs) = chunk_padding len"
    using chunk_padding_add [OF assms(1), of len] assms(2) by (simp add: len)
  have "len + chunk_padding len \<le> 256"
    using lt by (intro ceil4_le) (simp_all add: len)
  then show ?thesis
    using assms(2) len cp by (simp add: bytes_at_def pad4_def TMP_BUF_SIZE_def)
qed

text \<open>
  The contents of an area of \<open>n\<close> bytes during a copy, after the erase and the first \<open>m\<close> bytes.
\<close>

definition image_prefix :: "nat \<Rightarrow> nat \<Rightarrow> byte list \<Rightarrow> byte list" where
  "image_prefix m n bs = take m (pad4 bs) @ replicate (n - m) 0xFF"

lemma length_image_prefix: "m \<le> length (pad4 bs) \<Longrightarrow> m \<le> n \<Longrightarrow> length (image_prefix m n bs) = n"
  by (simp add: image_prefix_def)

lemma image_prefix_all: "image_prefix (length (pad4 bs)) n bs = pad4 bs @ replicate (n - length (pad4 bs)) 0xFF"
  by (simp add: image_prefix_def)

text \<open>
  What the area \<open>i\<close> of a device \<open>d\<close> can hold where a flash call of the copy has reported a failure: what
  that call left, be it the erase of the whole area, or the write of a chunk at its offset, after
  all chunks before it.
\<close>

definition flash_call_failed :: "('w \<Rightarrow> dev) \<Rightarrow> 'w os \<Rightarrow> dev \<Rightarrow> fa_id_t \<Rightarrow> byte list \<Rightarrow> byte list \<Rightarrow> bool" where
  "flash_call_failed dv E d i bs fl \<longleftrightarrow>
     (\<exists>fa w rc w'. d_area (dv w) i = Some fa \<and> rc \<noteq> 0 \<and> fl = d_flash (dv w') i
        \<and> (flash_area_erase E fa 0 (unat (fa_size fa)) w = (rc, w') \<and> d_flash (dv w) i = d_flash d i
           \<or> (\<exists>m. 256 dvd m \<and> m < length bs \<and> flash_area_write E fa (int m) (bytes_at m TMP_BUF_SIZE (pad4 bs)) w = (rc, w')
                \<and> d_flash (dv w) i = image_prefix m (length (d_flash d i)) bs)))"

text \<open>
  The contents of the area \<open>i\<close> of a device \<open>d\<close> after the copy of a file \<open>bs\<close> into it, whether it reported
  success or not. On a reliable platform, where the file fits and the area is a multiple of the
  write block, that is the padded file. Otherwise it is the padded file; or the old contents, where
  the copy ended before the erase, as it does for a file that does not fit; or a prefix of the padded
  file in an erased area, where the file could not be read on; or what a failed flash call left.
\<close>

definition copied :: "bool \<Rightarrow> ('w \<Rightarrow> dev) \<Rightarrow> 'w os \<Rightarrow> dev \<Rightarrow> fa_id_t \<Rightarrow> byte list \<Rightarrow> byte list \<Rightarrow> bool" where
  "copied rel dv E d i bs fl \<longleftrightarrow>
     (let n = length (d_flash d i); whole = image_prefix (length (pad4 bs)) n bs in
      length fl = n
      \<and> (if rel \<and> length bs \<le> n \<and> 4 dvd n then fl = whole
         else if length bs \<le> n
         then fl = whole \<or> \<not> rel \<and> (fl = d_flash d i \<or> (\<exists>m\<le>n. fl = image_prefix m n bs))
           \<or> flash_call_failed dv E d i bs fl
         else fl = d_flash d i))"

lemma copied_length: "copied rel dv E d i bs fl \<Longrightarrow> length fl = length (d_flash d i)"
  by (simp add: copied_def Let_def)

lemma copied_whole:
  assumes "copied rel dv E d i bs fl" and "rel" and "length bs \<le> length (d_flash d i)" and "4 dvd length (d_flash d i)"
  shows "fl = pad4 bs @ replicate (length (d_flash d i) - length (pad4 bs)) 0xFF"
  using assms by (simp add: copied_def Let_def image_prefix_all)

lemma copied_same:
  "copied rel dv E d i bs fl \<Longrightarrow> d_flash d' i = d_flash d i \<Longrightarrow> copied rel dv E d' i bs fl"
  unfolding copied_def flash_call_failed_def by presburger

subsection \<open>The contract between the loop and its callback\<close>

text \<open>
  \<open>At pos n w\<close>: the file stands at \<open>pos\<close> and the first \<open>n\<close> bytes of the padded image have been
  processed. \<open>Stopped w\<close>: what is known when a read or the callback has failed. The callback is
  promised the chunks of the padded image in order, at offsets that are multiples of 256.
\<close>

locale img_callback =
  fixes E :: "'w os" and f :: fs_file_t and bs :: "byte list"
    and cb :: "'w cb_img_process_t" and fa :: flash_area
    and At :: "nat \<Rightarrow> nat \<Rightarrow> 'w \<Rightarrow> bool" and Stopped :: "'w \<Rightarrow> bool"
  assumes read_chunk: "At pos n w \<Longrightarrow> fs_read E f k w = ((rc, data), w') \<Longrightarrow>
      rc = int (length data) \<and> data = bytes_at pos k bs \<and> At (pos + length data) n w'
      \<or> rc < 0 \<and> Stopped w'"
    and process_chunk: "At pos n w \<Longrightarrow> n < length bs \<Longrightarrow> 256 dvd n \<Longrightarrow>
      chunk = bytes_at n TMP_BUF_SIZE (pad4 bs) \<Longrightarrow> cb fa (int n) chunk w = (ok, w') \<Longrightarrow>
      if ok then At pos (n + length chunk) w' else Stopped w'"
begin

text \<open>
  One iteration either ends the loop in failure, or moves on by one chunk.
\<close>

lemma loop_step:
  assumes at: "At n n w" and n: "256 dvd n" "n < length bs"
    and run: "img_process_loop E f cb fa (length bs - n) (int n) w = (ok, w')"
  defines "len \<equiv> min TMP_BUF_SIZE (length bs - n)"
    and "chunk \<equiv> bytes_at n TMP_BUF_SIZE (pad4 bs)"
  shows "\<not> ok \<and> Stopped w' \<or>
    (\<exists>w2. At (n + len) (n + length chunk) w2 \<and>
          img_process_loop E f cb fa (length bs - (n + len)) (int (n + len)) w2 = (ok, w'))"
proof -
  obtain rc data w1 where rd: "fs_read E f len w = ((rc, data), w1)"
    by (metis prod.exhaust)
  have len_if: "(if length bs - n > TMP_BUF_SIZE then TMP_BUF_SIZE else length bs - n) = len"
    by (simp add: len_def)
  note step = run [unfolded img_process_loop.simps [of _ _ _ _ "length bs - n"] len_if Let_def]
  from read_chunk [OF at rd] show ?thesis
  proof
    assume "rc < 0 \<and> Stopped w1"
    then show ?thesis
      using step n(2) rd by (auto split: if_splits)
  next
    assume r: "rc = int (length data) \<and> data = bytes_at n len bs \<and> At (n + length data) n w1"
    then have ld: "length data = len"
      by (simp add: len_def)
    have ch: "take len data @ replicate (chunk_padding len) 0xFF = chunk"
      using chunk_of_pad4 [OF n] r ld by (simp add: len_def chunk_def)
    obtain ok1 w2 where c: "cb fa (int n) chunk w1 = (ok1, w2)"
      by (metis prod.exhaust)
    have "if ok1 then At (n + len) (n + length chunk) w2 else Stopped w2"
      using process_chunk [of "n + len", OF _ n(2,1) chunk_def [THEN meta_eq_to_obj_eq] c] r ld
      by simp
    then show ?thesis
      using step n(2) rd r ld ch c by (cases ok1) (auto simp: diff_diff_eq add.commute split: if_splits)
  qed
qed

lemma loop_processes_image:
  assumes "At n n w" and "256 dvd n" and "n \<le> length bs"
    and "img_process_loop E f cb fa (length bs - n) (int n) w = (ok, w')"
  shows "if ok then At (length bs) (length (pad4 bs)) w' else Stopped w'"
  using assms
proof (induction "length bs - n" arbitrary: n w rule: less_induct)
  case less
  define len where "len = min TMP_BUF_SIZE (length bs - n)"
  define chunk where "chunk = bytes_at n TMP_BUF_SIZE (pad4 bs)"
  show ?case
  proof (cases "n = length bs")
    case True
    then show ?thesis
      using less.prems by (auto simp: img_process_loop.simps length_pad4)
  next
    case False
    then have lt: "n < length bs"
      using less.prems(3) by simp
    from loop_step [OF less.prems(1,2) lt less.prems(4)] show ?thesis
    proof (elim disjE exE conjE)
      fix w2
      assume at: "At (n + min TMP_BUF_SIZE (length bs - n))
                     (n + length (bytes_at n TMP_BUF_SIZE (pad4 bs))) w2"
        and rest: "img_process_loop E f cb fa (length bs - (n + min TMP_BUF_SIZE (length bs - n)))
                     (int (n + min TMP_BUF_SIZE (length bs - n))) w2 = (ok, w')"
      show ?thesis
      proof (cases "TMP_BUF_SIZE \<le> length bs - n")
        case True
        then have "length (bytes_at n TMP_BUF_SIZE (pad4 bs)) = 256"
          by (simp add: TMP_BUF_SIZE_def length_pad4)
        then show ?thesis
          using True less.hyps [of "n + 256" w2] at rest less.prems(2) lt
          by (simp add: TMP_BUF_SIZE_def)
      next
        case False
        then have "length bs - n + chunk_padding (length bs - n) \<le> 256"
          by (intro ceil4_le) (simp_all add: TMP_BUF_SIZE_def)
        moreover have "chunk_padding (length bs) = chunk_padding (length bs - n)"
          using chunk_padding_add [OF less.prems(2), of "length bs - n"] lt by simp
        ultimately have "n + length (bytes_at n TMP_BUF_SIZE (pad4 bs)) = length (pad4 bs)"
          using lt by (simp add: TMP_BUF_SIZE_def length_pad4)
        then show ?thesis
          using at rest False lt by (auto simp: img_process_loop.simps)
      qed
    qed simp
  qed
qed

end

subsection \<open>The callbacks keep the contract\<close>

definition copy_state ::
  "bool \<Rightarrow> ('w \<Rightarrow> dev) \<Rightarrow> 'w os \<Rightarrow> fs_file_t \<Rightarrow> byte list \<Rightarrow> flash_area \<Rightarrow> dev \<Rightarrow> nat \<Rightarrow> nat \<Rightarrow> 'w \<Rightarrow> bool"
where
  "copy_state rel dv E f bs fa d pos n w \<longleftrightarrow>
     (let i = fa_id fa; N = unat (fa_size fa) in
      fs_spec rel dv E \<and> flash_spec rel dv E \<and> d_area d i = Some fa \<and> length (d_flash d i) = N
      \<and> (\<exists>p. file_at d f = Some (bs, p)) \<and> n \<le> length (pad4 bs) \<and> n \<le> N
      \<and> dv w = set_pos f pos (set_flash i (image_prefix n N bs) d))"

definition copy_stopped ::
  "bool \<Rightarrow> ('w \<Rightarrow> dev) \<Rightarrow> 'w os \<Rightarrow> fs_file_t \<Rightarrow> byte list \<Rightarrow> flash_area \<Rightarrow> dev \<Rightarrow> 'w \<Rightarrow> bool"
where
  "copy_stopped rel dv E f bs fa d w \<longleftrightarrow>
     (let i = fa_id fa; N = unat (fa_size fa) in
      \<not> (rel \<and> length bs \<le> N \<and> 4 dvd N)
      \<and> (\<exists>pos fl. length fl = N \<and> dv w = set_pos f pos (set_flash i fl d)
            \<and> (\<not> rel \<and> (\<exists>m\<le>N. fl = image_prefix m N bs) \<or> flash_call_failed dv E d i bs fl)))"

lemma copy_stoppedI:
  assumes "dv w = set_pos f pos (set_flash (fa_id fa) fl d)" and "length fl = unat (fa_size fa)"
    and "\<not> (rel \<and> length bs \<le> unat (fa_size fa) \<and> 4 dvd unat (fa_size fa))"
    and "\<not> rel \<and> (\<exists>m\<le>unat (fa_size fa). fl = image_prefix m (unat (fa_size fa)) bs)
      \<or> flash_call_failed dv E d (fa_id fa) bs fl"
  shows "copy_stopped rel dv E f bs fa d w"
  using assms unfolding copy_stopped_def Let_def by blast

lemma copy_state_reading:
  "copy_state rel dv E f bs fa d pos n w \<Longrightarrow>
   reading rel dv E f bs (set_flash (fa_id fa) (image_prefix n (unat (fa_size fa)) bs) d) pos w"
  by (auto simp: copy_state_def reading_def Let_def)

lemma copy_state_read:
  assumes "copy_state rel dv E f bs fa d pos n w" and "fs_read E f k w = ((rc, data), w')"
  shows "rc = int (length data) \<and> data = bytes_at pos k bs
           \<and> copy_state rel dv E f bs fa d (pos + length data) n w'
         \<or> rc < 0 \<and> copy_stopped rel dv E f bs fa d w'"
  using reading_read [OF copy_state_reading [OF assms(1)] assms(2)]
proof (elim disjE conjE)
  assume "\<not> rel" and "rc < 0"
    and "reading rel dv E f bs (set_flash (fa_id fa) (image_prefix n (unat (fa_size fa)) bs) d) pos w'"
  then show ?thesis
    using assms(1) by (auto simp: reading_def copy_state_def Let_def length_image_prefix intro!: copy_stoppedI)
qed (use assms(1) in \<open>auto simp: copy_state_def reading_def Let_def\<close>)

lemma cb_img_write_chunk:
  assumes st: "copy_state rel dv E f bs fa d pos n w" and n: "n < length bs" "256 dvd n"
    and ch: "chunk = bytes_at n TMP_BUF_SIZE (pad4 bs)"
    and wr: "cb_img_write E fa (int n) chunk w = (ok, w')"
  shows "if ok then copy_state rel dv E f bs fa d pos (n + length chunk) w'
         else copy_stopped rel dv E f bs fa d w'"
proof -
  define N where "N = unat (fa_size fa)"
  define fl where "fl = image_prefix n N bs"
  from st have s: "flash_write_spec rel dv E" "d_area (dv w) (fa_id fa) = Some fa"
      "d_flash (dv w) (fa_id fa) = fl" "dv w = set_pos f pos (set_flash (fa_id fa) fl d)"
      "n \<le> N" "n \<le> length (pad4 bs)" "length fl = N" "length (d_flash d (fa_id fa)) = N"
    by (auto simp: copy_state_def Let_def fl_def N_def image_prefix_def flash_spec_def)
  obtain rc where rc: "flash_area_write E fa (int n) chunk w = (rc, w')" "ok \<longleftrightarrow> rc = 0"
    using wr by (auto simp: cb_img_write_def split: prod.splits if_splits)
  have al: "4 dvd n" "4 dvd length chunk"
    using n(2) pad4_aligned [of bs] by (auto simp: ch TMP_BUF_SIZE_def min_def elim!: dvdE)
  have len: "n + length chunk \<le> length (pad4 bs)"
    using s(6) by (simp add: ch)
  have "rc = 0 \<and> n + length chunk \<le> N \<and> (\<exists>r. length r = length chunk
             \<and> (bytes_at n (length chunk) fl = replicate (length chunk) 0xFF \<longrightarrow> r = chunk)
             \<and> dv w' = set_flash (fa_id fa) (patch n r fl) (dv w))
         \<or> rc \<noteq> 0 \<and> (\<exists>fl'. length fl' = N \<and> dv w' = set_flash (fa_id fa) fl' (dv w))
             \<and> \<not> (rel \<and> n + length chunk \<le> N)"
    using s(1) rc(1) al unfolding flash_write_spec_def
    by (metis (no_types, lifting) s(2,3,7) nat_int of_nat_0_le_iff)
  then show ?thesis
  proof (elim disjE conjE exE)
    fix r
    assume r: "rc = 0" "n + length chunk \<le> N" "length r = length chunk"
      "bytes_at n (length chunk) fl = replicate (length chunk) 0xFF \<longrightarrow> r = chunk"
      "dv w' = set_flash (fa_id fa) (patch n r fl) (dv w)"
    have "bytes_at n (length chunk) fl = replicate (length chunk) 0xFF"
      using r(2) s(6) by (simp add: bytes_at_def fl_def image_prefix_def)
    with r(4) have "r = chunk" by simp
    moreover have "patch n chunk fl = image_prefix (n + length chunk) N bs"
      using r(2) s(6) take_append_bytes_at [of n "pad4 bs" TMP_BUF_SIZE] len
      by (auto simp: patch_def fl_def image_prefix_def ch diff_diff_eq min_def)
    ultimately show ?thesis
      using st r len rc(2) s(4) by (auto simp: copy_state_def Let_def N_def set_pos_set_flash)
  next
    fix fl'
    assume a: "rc \<noteq> 0" "length fl' = N" "dv w' = set_flash (fa_id fa) fl' (dv w)"
      "\<not> (rel \<and> n + length chunk \<le> N)"
    have dv': "dv w' = set_pos f pos (set_flash (fa_id fa) fl' d)"
      using a(3) s(4) by (simp add: set_pos_set_flash)
    have "flash_call_failed dv E d (fa_id fa) bs fl'"
      unfolding flash_call_failed_def
    proof (intro exI conjI disjI2)
      show "d_area (dv w) (fa_id fa) = Some fa" and "rc \<noteq> 0" and "256 dvd n" and "n < length bs"
        by (fact s(2) a(1) n)+
      show "flash_area_write E fa (int n) (bytes_at n TMP_BUF_SIZE (pad4 bs)) w = (rc, w')"
        using rc(1) ch by simp
      show "d_flash (dv w) (fa_id fa) = image_prefix n (length (d_flash d (fa_id fa))) bs"
        using s(3,8) by (simp add: fl_def)
    qed (use a(3) in simp)
    then have "copy_stopped rel dv E f bs fa d w'"
      using a(2,4) dv' len length_pad4_le [of bs N] by (intro copy_stoppedI) (auto simp: N_def)
    then show ?thesis
      using rc(2) a(1) by simp
  qed
qed

interpretation img_write: img_callback E f bs "cb_img_write E" fa
    "copy_state rel dv E f bs fa d" "copy_stopped rel dv E f bs fa d"
  for E f bs fa rel dv d
  by unfold_locales (fact copy_state_read, fact cb_img_write_chunk)

definition cmp_state ::
  "bool \<Rightarrow> ('w \<Rightarrow> dev) \<Rightarrow> 'w os \<Rightarrow> fs_file_t \<Rightarrow> byte list \<Rightarrow> flash_area \<Rightarrow> dev \<Rightarrow> nat \<Rightarrow> nat \<Rightarrow> 'w \<Rightarrow> bool"
where
  "cmp_state rel dv E f bs fa d pos n w \<longleftrightarrow>
     reading rel dv E f bs d pos w \<and> flash_spec rel dv E \<and> d_area d (fa_id fa) = Some fa
     \<and> n \<le> length (pad4 bs) \<and> take n (d_flash d (fa_id fa)) = take n (pad4 bs)"

definition cmp_stopped ::
  "bool \<Rightarrow> ('w \<Rightarrow> dev) \<Rightarrow> fs_file_t \<Rightarrow> byte list \<Rightarrow> flash_area \<Rightarrow> dev \<Rightarrow> 'w \<Rightarrow> bool"
where
  "cmp_stopped rel dv f bs fa d w \<longleftrightarrow>
     (\<exists>pos. dv w = set_pos f pos d)
     \<and> \<not> (rel \<and> take (length (pad4 bs)) (d_flash d (fa_id fa)) = pad4 bs)"

lemma cmp_state_read:
  assumes "cmp_state rel dv E f bs fa d pos n w" and "fs_read E f k w = ((rc, data), w')"
  shows "rc = int (length data) \<and> data = bytes_at pos k bs
           \<and> cmp_state rel dv E f bs fa d (pos + length data) n w'
         \<or> rc < 0 \<and> cmp_stopped rel dv f bs fa d w'"
proof -
  have "reading rel dv E f bs d pos w"
    using assms(1) by (simp add: cmp_state_def)
  from reading_read [OF this assms(2)] show ?thesis
  proof (elim disjE conjE)
    assume "\<not> rel" and "rc < 0" and "reading rel dv E f bs d pos w'"
    then show ?thesis
      by (auto simp: cmp_stopped_def reading_def)
  qed (use assms(1) in \<open>auto simp: cmp_state_def\<close>)
qed

lemma cb_img_cmp_chunk:
  assumes st: "cmp_state rel dv E f bs fa d pos n w" and n: "n < length bs" "256 dvd n"
    and ch: "chunk = bytes_at n TMP_BUF_SIZE (pad4 bs)"
    and cm: "cb_img_cmp E fa (int n) chunk w = (ok, w')"
  shows "if ok then cmp_state rel dv E f bs fa d pos (n + length chunk) w'
         else cmp_stopped rel dv f bs fa d w'"
proof -
  define fl where "fl = d_flash d (fa_id fa)"
  from st have s: "flash_read_spec rel dv E" "d_area (dv w) (fa_id fa) = Some fa"
      "d_flash (dv w) (fa_id fa) = fl" "dv w = set_pos f pos d" "take n fl = take n (pad4 bs)"
    by (auto simp: cmp_state_def reading_def fl_def flash_spec_def)
  obtain rc buf where rd: "flash_area_read E fa (int n) (length chunk) w = ((rc, buf), w')"
      and ok: "ok \<longleftrightarrow> rc = 0 \<and> chunk = take (length chunk) buf"
    using cm by (auto simp: cb_img_cmp_def Let_def split: prod.splits if_splits)
  have r: "dv w' = dv w" "rc = 0 \<Longrightarrow> n + length chunk \<le> length fl \<and> buf = bytes_at n (length chunk) fl"
      "rel \<Longrightarrow> n + length chunk \<le> length fl \<Longrightarrow> rc = 0"
    using s(1) rd unfolding flash_read_spec_def Let_def
    by (metis (no_types, lifting) s(2,3) nat_int of_nat_0_le_iff)+
  have len: "n + length chunk \<le> length (pad4 bs)"
    using n(1) by (simp add: ch length_pad4)
  have chunk: "chunk = bytes_at n (length chunk) (pad4 bs)"
    by (simp add: ch bytes_at_def min_def)
  show ?thesis
  proof (cases ok)
    case True
    then have "bytes_at n (length chunk) fl = bytes_at n (length chunk) (pad4 bs)"
      using ok r(2) chunk by simp
    then have "take (n + length chunk) fl = take (n + length chunk) (pad4 bs)"
      using s(5) by (simp add: take_append_bytes_at [symmetric])
    then show ?thesis
      using True st r(1) len by (simp add: cmp_state_def reading_def fl_def)
  next
    case False
    have "take (length (pad4 bs)) fl \<noteq> pad4 bs" if rel
    proof
      assume eq: "take (length (pad4 bs)) fl = pad4 bs"
      then have "length (pad4 bs) \<le> length fl"
        by (metis length_take min.cobounded1)
      then have "rc = 0" and "buf = bytes_at n (length chunk) fl"
        using r(2,3) that len by auto
      moreover have "bytes_at n (length chunk) fl = bytes_at n (length chunk) (pad4 bs)"
        using bytes_at_take [OF len, of fl] eq by simp
      ultimately show False
        using False ok chunk by simp
    qed
    then show ?thesis
      using False s(4) r(1) by (auto simp: cmp_stopped_def fl_def)
  qed
qed

interpretation img_cmp: img_callback E f bs "cb_img_cmp E" fa
    "cmp_state rel dv E f bs fa d" "cmp_stopped rel dv f bs fa d"
  for E f bs fa rel dv d
  by unfold_locales (fact cmp_state_read, fact cb_img_cmp_chunk)

subsection \<open>What the operations do to the device\<close>

text \<open>
  Either the common preamble (opening the area, taking the file's size, comparing it with the
  area) fails and has only moved the file position, or it hands over to the erase and the loop.
\<close>

lemma img_process_preamble_at:
  assumes fs: "fs_spec rel dv E" and fl: "flash_spec rel dv E"
    and at: "file_at (dv w) f = Some (bs, p)"
    and run: "img_process E i f flag cb w = (ok, w')"
  defines "w1 \<equiv> snd (fs_seek E f 0 FS_SEEK_SET (snd (fs_seek E f 0 FS_SEEK_END (snd (flash_area_open E i w)))))"
  shows "(\<not> ok \<and> (\<exists>pos. dv w' = set_pos f pos (dv w))
           \<and> \<not> (rel \<and> (\<exists>fa. d_area (dv w) i = Some fa \<and> length bs \<le> unat (fa_size fa))))
    \<or> (\<exists>fa. d_area (dv w) i = Some fa \<and> length bs \<le> unat (fa_size fa)
           \<and> reading rel dv E f bs (dv w) 0 w1
           \<and> (case (if flag then flash_area_erase E fa 0 (unat (fa_size fa)) w1 else (0, w1)) of (rc, w2) \<Rightarrow>
               if flag \<and> rc \<noteq> 0 then (False, w2)
               else (case img_process_loop E f cb fa (length bs) 0 w2 of (ok, w3) \<Rightarrow>
                      (ok, flash_area_close E fa w3))) = (ok, w'))"
proof -
  obtain rc fa v1 where o: "flash_area_open E i w = ((rc, fa), v1)"
    by (metis prod.exhaust)
  have o': "dv v1 = dv w" "rc = 0 \<Longrightarrow> d_area (dv w) i = Some fa"
      "rel \<Longrightarrow> d_area (dv w) i \<noteq> None \<Longrightarrow> rc = 0"
    using flash_specD(1) [OF fl] o unfolding flash_open_spec_def by blast+
  have r1: "reading rel dv E f bs (dv w) p v1"
    using readingI [OF fs at] o'(1) by (simp add: reading_def)
  obtain rc2 v2 where s2: "fs_seek E f 0 FS_SEEK_END v1 = (rc2, v2)"
    by (metis prod.exhaust)
  obtain rc3 v3 where s3: "fs_seek E f 0 FS_SEEK_SET v2 = (rc3, v3)"
    by (metis prod.exhaust)
  show ?thesis
  proof (cases "rc = 0 \<and> rc2 = 0 \<and> rc3 = 0")
    case True
    have w1: "w1 = v3"
      by (simp add: w1_def o s2 s3)
    from True have r2: "reading rel dv E f bs (dv w) (length bs) v2"
      using reading_seek [OF r1 s2] by (auto simp: fs_seek_target_def)
    then have r3: "reading rel dv E f bs (dv w) 0 v3"
      using reading_seek [OF r2 s3] True by (auto simp: fs_seek_target_def)
    have tell: "fs_tell E f v2 = int (length bs)"
      by (rule reading_tell [OF r2])
    have len: "unat (u32_of_int (int (length bs))) = length bs"
      using reading_length [OF r1] by (simp add: unat_u32_of_int)
    have eq: "img_process E i f flag cb w =
        (if fa_size fa < u32_of_int (int (length bs)) then (False, v3)
         else (case (if flag then flash_area_erase E fa 0 (unat (fa_size fa)) v3 else (0, v3)) of (rc, w) \<Rightarrow>
               if flag \<and> rc \<noteq> 0 then (False, w)
               else (case img_process_loop E f cb fa (length bs) 0 w of (ok, w) \<Rightarrow>
                      (ok, flash_area_close E fa w))))"
      using True by (simp add: img_process_def Let_def o s2 s3 tell len cong: if_cong)
    have lt: "fa_size fa < u32_of_int (int (length bs)) \<longleftrightarrow> \<not> length bs \<le> unat (fa_size fa)"
      by (simp add: word_less_nat_alt len not_le)
    show ?thesis
    proof (cases "length bs \<le> unat (fa_size fa)")
      case True
      with r3 run show ?thesis
        unfolding eq lt w1 using o'(2) \<open>rc = 0 \<and> rc2 = 0 \<and> rc3 = 0\<close> by auto
    next
      case False
      with r3 run show ?thesis
        unfolding eq lt w1 using o'(2) \<open>rc = 0 \<and> rc2 = 0 \<and> rc3 = 0\<close> by (auto simp: reading_def)
    qed
  next
    case False
    then have "\<not> ok" and "(rc \<noteq> 0 \<and> w' = v1) \<or> (rc = 0 \<and> rc2 \<noteq> 0 \<and> w' = v2) \<or> (rc = 0 \<and> rc2 = 0 \<and> rc3 \<noteq> 0 \<and> w' = v3)"
      using run o s2 s3 by (auto simp: img_process_def Let_def split: if_splits)
    then show ?thesis
      using o' r1 reading_seek [OF r1 s2] reading_seek [OF _ s3]
      by (fastforce simp: reading_def fs_seek_target_def)
  qed
qed

lemma img_process_preamble:
  assumes fs: "fs_spec rel dv E" and fl: "flash_spec rel dv E"
    and at: "file_at (dv w) f = Some (bs, p)"
    and run: "img_process E i f flag cb w = (ok, w')"
  shows "(\<not> ok \<and> (\<exists>pos. dv w' = set_pos f pos (dv w))
           \<and> \<not> (rel \<and> (\<exists>fa. d_area (dv w) i = Some fa \<and> length bs \<le> unat (fa_size fa))))
    \<or> (\<exists>fa w1. d_area (dv w) i = Some fa \<and> length bs \<le> unat (fa_size fa)
           \<and> reading rel dv E f bs (dv w) 0 w1
           \<and> (case (if flag then flash_area_erase E fa 0 (unat (fa_size fa)) w1 else (0, w1)) of (rc, w2) \<Rightarrow>
               if flag \<and> rc \<noteq> 0 then (False, w2)
               else (case img_process_loop E f cb fa (length bs) 0 w2 of (ok, w3) \<Rightarrow>
                      (ok, flash_area_close E fa w3))) = (ok, w'))"
  using img_process_preamble_at [OF assms] by blast

lemma copy_outcome:
  assumes fs: "fs_spec rel dv E" and fl: "flash_spec rel dv E"
    and at: "file_at (dv w) f = Some (bs, p)"
    and run: "mcuboot_img_op_copy E i f w = (ok, w')"
  defines "N \<equiv> length (d_flash (dv w) i)"
  shows "(\<exists>pos fl. length fl = N \<and> dv w' = set_pos f pos (set_flash i fl (dv w)) \<and>
            (d_area (dv w) i \<noteq> None \<longrightarrow> copied rel dv E (dv w) i bs fl) \<and>
            (ok \<longrightarrow> length (pad4 bs) \<le> N \<and> fl = pad4 bs @ replicate (N - length (pad4 bs)) 0xFF))
         \<and> (rel \<and> d_area (dv w) i \<noteq> None \<and> length bs \<le> N \<and> 4 dvd N \<longrightarrow> ok)"
proof -
  have wf: "fa_id fa = i \<and> unat (fa_size fa) = N" if "d_area (dv w) i = Some fa" for fa
    using that flash_specD(2) [OF fl] by (auto simp: flash_area_wf_def N_def)
  have run': "img_process E i f True (cb_img_write E) w = (ok, w')"
    using run by (simp add: mcuboot_img_op_copy_def)
  from img_process_preamble [OF fs fl at run'] show ?thesis
  proof (elim disjE exE conjE)
    fix pos
    assume a: "\<not> ok" "dv w' = set_pos f pos (dv w)"
      "\<not> (rel \<and> (\<exists>fa. d_area (dv w) i = Some fa \<and> length bs \<le> unat (fa_size fa)))"
    have fit: "\<not> (rel \<and> d_area (dv w) i \<noteq> None \<and> length bs \<le> N)"
      using a(3) wf by auto
    then have "d_area (dv w) i \<noteq> None \<longrightarrow> copied rel dv E (dv w) i bs (d_flash (dv w) i)"
      by (auto simp: copied_def Let_def N_def)
    moreover have "dv w' = set_pos f pos (set_flash i (d_flash (dv w) i) (dv w))"
      using a(2) by simp
    ultimately show ?thesis
      using a(1) fit N_def by blast
  next
    fix fa w1
    assume area: "d_area (dv w) i = Some fa" and fits: "length bs \<le> unat (fa_size fa)"
      and r: "reading rel dv E f bs (dv w) 0 w1"
      and rest: "(case (if True then flash_area_erase E fa 0 (unat (fa_size fa)) w1 else (0, w1)) of (rc, w2) \<Rightarrow>
               if True \<and> rc \<noteq> 0 then (False, w2)
               else (case img_process_loop E f (cb_img_write E) fa (length bs) 0 w2 of (ok, w3) \<Rightarrow>
                      (ok, flash_area_close E fa w3))) = (ok, w')"
    note [simp] = wf [OF area, THEN conjunct1] wf [OF area, THEN conjunct2]
    obtain rc w2 where er: "flash_area_erase E fa 0 N w1 = (rc, w2)"
      by (metis prod.exhaust)
    obtain ok3 w3 where lp: "img_process_loop E f (cb_img_write E) fa (length bs) 0 w2 = (ok3, w3)"
      by (metis prod.exhaust)
    have dv1: "dv w1 = set_pos f 0 (dv w)" and N: "length (d_flash (dv w1) i) = N"
      using r by (auto simp: reading_def N_def)
    have "rc = 0 \<and> dv w2 = set_flash i (replicate N 0xFF) (dv w1)
        \<or> rc \<noteq> 0 \<and> (\<exists>fl'. length fl' = N \<and> dv w2 = set_flash i fl' (dv w1)) \<and> \<not> rel"
      using flash_specD(6) [OF fl, unfolded flash_erase_spec_def, rule_format, OF er] area N dv1
      by (auto simp: Let_def patch_def)
    then show ?thesis
    proof (elim disjE conjE exE)
      assume "rc = 0" and dv2: "dv w2 = set_flash i (replicate N 0xFF) (dv w1)"
      then have w': "ok3 = ok" "dv w' = dv w3"
        using rest er lp flash_specD(3) [OF fl] by (auto simp: flash_close_spec_def)
      have "copy_state rel dv E f bs fa (dv w) 0 0 w2"
        using fs fl area at dv1 dv2 by (simp add: copy_state_def set_pos_set_flash image_prefix_def N_def)
      from img_write.loop_processes_image [OF this, of ok w3] lp w'(1)
      have st: "if ok then copy_state rel dv E f bs fa (dv w) (length bs) (length (pad4 bs)) w3
            else copy_stopped rel dv E f bs fa (dv w) w3"
        by simp
      show ?thesis
      proof (cases ok)
        case True
        then have "dv w' = set_pos f (length bs) (set_flash i (image_prefix (length (pad4 bs)) N bs) (dv w))"
          and "length (pad4 bs) \<le> N"
          using st w'(2) by (simp_all add: copy_state_def)
        then show ?thesis
          using True fits by (intro conjI exI [of _ "length bs"] exI [of _ "image_prefix (length (pad4 bs)) N bs"])
            (simp_all add: copied_def Let_def N_def [symmetric] image_prefix_def)
      next
        case False
        then obtain pos fl where fl: "length fl = N" "dv w' = set_pos f pos (set_flash i fl (dv w))"
            "\<not> rel \<and> (\<exists>m\<le>N. fl = image_prefix m N bs) \<or> flash_call_failed dv E (dv w) i bs fl"
          and not: "\<not> (rel \<and> length bs \<le> N \<and> 4 dvd N)"
          using st w'(2) by (auto simp: copy_stopped_def)
        have "copied rel dv E (dv w) i bs fl"
          using fl(1,3) not fits unfolding copied_def Let_def N_def [symmetric] by auto
        then show ?thesis
          using False fl(1,2) not by blast
      qed
    next
      fix fl'
      assume a: "rc \<noteq> 0" "length fl' = N" "dv w2 = set_flash i fl' (dv w1)" "\<not> rel"
      have "flash_call_failed dv E (dv w) i bs fl'"
        unfolding flash_call_failed_def
        by (rule exI [of _ fa], rule exI [of _ w1], rule exI [of _ rc], rule exI [of _ w2])
          (use a er dv1 area in simp)
      then have "copied rel dv E (dv w) i bs fl'"
        using a(2,4) fits unfolding copied_def Let_def N_def [symmetric] by auto
      moreover have "\<not> ok" and "w' = w2"
        using rest er a(1) by auto
      moreover have "dv w' = set_pos f 0 (set_flash i fl' (dv w))"
        using a(3) dv1 \<open>w' = w2\<close> by (simp add: set_pos_set_flash)
      ultimately show ?thesis
        using a(2,4) by blast
    qed
  qed
qed

lemma cmp_outcome:
  assumes fs: "fs_spec rel dv E" and fl: "flash_spec rel dv E"
    and at: "file_at (dv w) f = Some (bs, p)"
    and run: "mcuboot_img_op_cmp E i f w = (ok, w')"
  defines "fl \<equiv> d_flash (dv w) i"
  shows "(\<exists>pos. dv w' = set_pos f pos (dv w))
         \<and> (ok \<longrightarrow> take (length (pad4 bs)) fl = pad4 bs)
         \<and> (rel \<and> d_area (dv w) i \<noteq> None \<and> take (length (pad4 bs)) fl = pad4 bs \<longrightarrow> ok)"
proof -
  have wf: "fa_id fa = i \<and> unat (fa_size fa) = length fl" if "d_area (dv w) i = Some fa" for fa
    using that flash_specD(2) [OF assms(2)] by (auto simp: flash_area_wf_def fl_def)
  have le: "length bs \<le> length fl" if "take (length (pad4 bs)) fl = pad4 bs"
    using arg_cong [OF that, of length] by (simp add: length_pad4)
  have run': "img_process E i f False (cb_img_cmp E) w = (ok, w')"
    using run by (simp add: mcuboot_img_op_cmp_def)
  from img_process_preamble [OF fs assms(2) at run'] show ?thesis
  proof (elim disjE exE conjE)
    fix pos
    assume "\<not> ok" "dv w' = set_pos f pos (dv w)"
      "\<not> (rel \<and> (\<exists>fa. d_area (dv w) i = Some fa \<and> length bs \<le> unat (fa_size fa)))"
    then show ?thesis
      using wf le by fastforce
  next
    fix fa w1
    assume area: "d_area (dv w) i = Some fa" and fits: "length bs \<le> unat (fa_size fa)"
      and r: "reading rel dv E f bs (dv w) 0 w1"
      and rest: "(case (if False then flash_area_erase E fa 0 (unat (fa_size fa)) w1 else (0, w1)) of (rc, w2) \<Rightarrow>
               if False \<and> rc \<noteq> 0 then (False, w2)
               else (case img_process_loop E f (cb_img_cmp E) fa (length bs) 0 w2 of (ok, w3) \<Rightarrow>
                      (ok, flash_area_close E fa w3))) = (ok, w')"
    obtain w3 where lp: "img_process_loop E f (cb_img_cmp E) fa (length bs) 0 w1 = (ok, w3)"
      and w': "dv w' = dv w3"
      using rest flash_specD(3) [OF assms(2)]
      by (auto simp: flash_close_spec_def split: prod.splits)
    have "cmp_state rel dv E f bs fa (dv w) 0 0 w1"
      using assms(2) area r wf by (simp add: cmp_state_def)
    from img_cmp.loop_processes_image [OF this, of ok w3] lp
    have "if ok then cmp_state rel dv E f bs fa (dv w) (length bs) (length (pad4 bs)) w3
          else cmp_stopped rel dv f bs fa (dv w) w3"
      by simp
    then show ?thesis
      using w' wf [OF area] by (cases ok) (auto simp: cmp_state_def cmp_stopped_def reading_def fl_def)
  qed
qed

subsection \<open>Properties\<close>

definition copy_demo :: ram where
  "copy_demo =
     \<lparr>r_dev = \<lparr>d_files = [''/m/ap'' \<mapsto> [1, 2, 3, 4, 5]], d_fds = [0 \<mapsto> (''/m/ap'', 3)],
               d_area = [3 \<mapsto> \<lparr>fa_id = 3, fa_off = 0x40, fa_size = 12\<rparr>],
               d_flash = (\<lambda>_. [])(3 := replicate 12 0)\<rparr>,
      r_next = 1\<rparr>"

lemmas img_op_eval =
  mcuboot_img_op_copy_def mcuboot_img_op_cmp_def img_process_def img_process_loop.simps
  TMP_BUF_SIZE_def cb_img_write_def cb_img_cmp_def chunk_padding_def copy_demo_def ram_eval

lemma copy_demo_at:
  "file_at (ram_view copy_demo) \<lparr>filep = Some 0\<rparr> = Some ([1, 2, 3, 4, 5], 3)"
  by (simp add: copy_demo_def ram_view_def file_at_def)

lemma replicate_3_4_12:
  "replicate 3 x = [x, x, x]" "replicate 4 x = [x, x, x, x]"
  "replicate 12 x = [x, x, x, x, x, x, x, x, x, x, x, x]"
  by (simp_all add: numeral_eq_Suc)

lemma pad4_demo: "pad4 [1, 2, 3, 4, 5] = [1, 2, 3, 4, 5, 255, 255, 255]"
proof -
  have "length [1, 2, 3, 4, 5 :: byte] = 5" and "chunk_padding 5 = 3"
    by (simp_all add: chunk_padding_def)
  then show ?thesis
    by (simp only: pad4_def replicate_3_4_12 append.simps)
qed

lemma copy_demo_flash: "d_flash (ram_view copy_demo) 3 = [0, 0, 0, 0, 0, 0, 0, 0, 0, 0, 0, 0]"
  by (simp add: copy_demo_def replicate_3_4_12)

text \<open>
  C11. A copy that reports success has replaced the contents of the destination area by the whole
  file, filled up with \<open>0xFF\<close> (the padding to a multiple of four bytes, and the erased rest of
  the area), whatever calls failed or read short on the way, and has changed nothing else on the
  device but the position of the file it read.
\<close>

theorem mcuboot_img_op_copy_content:
  assumes "fs_spec rel dv E" and "flash_spec rel dv E"
    and "file_at (dv w) f = Some (bs, p)"
    and "mcuboot_img_op_copy E i f w = (True, w')"
  shows "length (pad4 bs) \<le> length (d_flash (dv w) i) \<and>
    (\<exists>pos. dv w' = set_pos f pos (set_flash i
        (pad4 bs @ replicate (length (d_flash (dv w) i) - length (pad4 bs)) 0xFF) (dv w)))"
  using copy_outcome [OF assms] by blast

theorem mcuboot_img_op_copy_content_witness:
  "\<exists>w'. mcuboot_img_op_copy (ram_os demo_abi demo_config) 3 \<lparr>filep = Some 0\<rparr> copy_demo = (True, w')
        \<and> d_flash (ram_view w') 3 = [1, 2, 3, 4, 5, 255, 255, 255, 255, 255, 255, 255]"
proof -
  have ok: "fst (mcuboot_img_op_copy (ram_os demo_abi demo_config) 3 \<lparr>filep = Some 0\<rparr> copy_demo)"
    by (simp add: img_op_eval)
  then obtain w' where run:
    "mcuboot_img_op_copy (ram_os demo_abi demo_config) 3 \<lparr>filep = Some 0\<rparr> copy_demo = (True, w')"
    by (metis prod.collapse)
  from mcuboot_img_op_copy_content [OF ram_fs_spec ram_flash_spec copy_demo_at run]
  have "d_flash (ram_view w') 3 = [1, 2, 3, 4, 5, 255, 255, 255, 255, 255, 255, 255]"
    by (auto simp: pad4_demo copy_demo_flash replicate_3_4_12 simp del: ram_view_frame)
  with run show ?thesis
    by blast
qed

text \<open>
  C12. On a platform whose calls succeed when their arguments are in range, the copy of every file
  that fits into the destination area succeeds, provided the size of the area is a multiple of
  the write block: the offsets and lengths the loop passes to \<open>flash_area_write\<close> are aligned, and
  the destination is erased before it is written.
\<close>

theorem mcuboot_img_op_copy_succeeds:
  assumes "fs_spec True dv E" and "flash_spec True dv E"
    and "file_at (dv w) f = Some (bs, p)" and "d_area (dv w) i \<noteq> None"
    and "length bs \<le> length (d_flash (dv w) i)" and "4 dvd length (d_flash (dv w) i)"
  shows "fst (mcuboot_img_op_copy E i f w)"
  using copy_outcome [OF assms(1-3)] assms(4-6) by (metis prod.collapse)

theorem mcuboot_img_op_copy_succeeds_witness:
  "fst (mcuboot_img_op_copy (ram_os demo_abi demo_config) 3 \<lparr>filep = Some 0\<rparr> copy_demo)"
  by (rule mcuboot_img_op_copy_succeeds [OF ram_fs_spec ram_flash_spec copy_demo_at])
     (simp_all add: copy_demo_def ram_view_def)

text \<open>
  C29. Comparing a file with an area decides, on a reliable platform, whether the area starts with
  the padded file, and leaves the device as it was; in particular a file compares equal right
  after it has been copied.
\<close>

theorem mcuboot_img_op_cmp_decides:
  assumes "fs_spec True dv E" and "flash_spec True dv E"
    and "file_at (dv w) f = Some (bs, p)" and "d_area (dv w) i \<noteq> None"
    and "mcuboot_img_op_cmp E i f w = (ok, w')"
  shows "(ok \<longleftrightarrow> take (length (pad4 bs)) (d_flash (dv w) i) = pad4 bs)
         \<and> (\<exists>pos. dv w' = set_pos f pos (dv w))
         \<and> (\<forall>w0 p0. mcuboot_img_op_copy E i f w0 = (True, w) \<and> file_at (dv w0) f = Some (bs, p0) \<longrightarrow> ok)"
proof -
  have iff: "ok \<longleftrightarrow> take (length (pad4 bs)) (d_flash (dv w) i) = pad4 bs"
    and dev: "\<exists>pos. dv w' = set_pos f pos (dv w)"
    using cmp_outcome [OF assms(1-3,5)] assms(4) by auto
  have ok if "mcuboot_img_op_copy E i f w0 = (True, w)" "file_at (dv w0) f = Some (bs, p0)" for w0 p0
    unfolding iff using copy_outcome [OF assms(1,2) that(2,1)] by auto
  then show ?thesis
    using iff dev by blast
qed

theorem mcuboot_img_op_cmp_decides_witness:
  "\<not> fst (mcuboot_img_op_cmp (ram_os demo_abi demo_config) 3 \<lparr>filep = Some 0\<rparr> copy_demo)"
proof -
  obtain ok w' where run:
    "mcuboot_img_op_cmp (ram_os demo_abi demo_config) 3 \<lparr>filep = Some 0\<rparr> copy_demo = (ok, w')"
    by (metis prod.exhaust)
  have "d_area (ram_view copy_demo) 3 \<noteq> None"
    by (simp add: copy_demo_def ram_view_def)
  from mcuboot_img_op_cmp_decides [OF ram_fs_spec ram_flash_spec copy_demo_at this run]
  have "\<not> ok"
    by (simp add: pad4_demo copy_demo_flash del: ram_view_frame)
  then show ?thesis
    using run by simp
qed

end
