(* ===== verification/File_Tlv.thy ===== *)
theory File_Tlv
  imports Ram_Device
begin

section \<open>Iterating over the TLVs of an image file (\<open>file_tlv.c\<close>, \<open>file_tlv_priv.h\<close>)\<close>

text \<open>
  Reading image data at an offset (\<open>load_image_data\<close>), the overflow-checked additions of
  \<open>file_tlv_priv.h\<close>, and the TLV iterator: \<open>file_tlv_iter_begin\<close> locates the TLV area behind the
  image, \<open>file_tlv_iter_next\<close> advances to the next entry of the wanted type,
  \<open>file_tlv_iter_is_prot\<close> classifies an entry. Pointers that the code compares with \<open>NULL\<close> are
  options; the iterator itself is passed by value and returned. The loop of
  \<open>file_tlv_iter_next\<close> works on 32 bit offsets that wrap, so nothing but the file system bounds
  it: it is a partial function, and that it returns is a theorem.

  The specification is \<open>tlv_find\<close>, the same search on natural numbers over the bytes of the file.
\<close>

subsection \<open>Checked additions\<close>

definition boot_u32_safe_add :: "u32 \<Rightarrow> u32 \<Rightarrow> u32 option" where
  "boot_u32_safe_add a b = (if a > 0xFFFFFFFF - b then None else Some (a + b))"

definition boot_u16_safe_add :: "u16 \<Rightarrow> u16 \<Rightarrow> u16 option" where
  "boot_u16_safe_add a b =
     (let tmp = (ucast a :: u32) + ucast b in
      if tmp > 0xFFFF then None else Some (ucast tmp))"

subsection \<open>Reading image data\<close>

text \<open>The return code and the bytes stored into the output buffer.\<close>

definition load_image_data ::
  "'w os \<Rightarrow> fs_file_t \<Rightarrow> u32 \<Rightarrow> u32 \<Rightarrow> 'w \<Rightarrow> (int \<times> byte list) \<times> 'w"
where
  "load_image_data E p_file start len w =
     (case fs_seek E p_file (off_of_u32 start) FS_SEEK_SET w of (rc, w) \<Rightarrow>
      if rc < 0 then ((rc, []), w)
      else (case fs_read E p_file (unat len) w of ((rc, out), w) \<Rightarrow>
        if u32_of_int rc \<noteq> len then ((- 1, out), w) else ((0, out), w)))"

definition BOOT_TLV_OFF :: "image_header \<Rightarrow> u32" where
  "BOOT_TLV_OFF h = ucast (ih_hdr_size h) + ih_img_size h"

subsection \<open>The iterator\<close>

record file_tlv_iter_t =
  iter_hdr :: "image_header option"
  iter_file :: "fs_file_t option"
  iter_type :: u16
  iter_prot :: bool
  iter_prot_end :: u32
  iter_tlv_off :: u32
  iter_tlv_end :: u32

definition iter_zero :: file_tlv_iter_t where
  "iter_zero = \<lparr>iter_hdr = None, iter_file = None, iter_type = 0, iter_prot = False,
     iter_prot_end = 0, iter_tlv_off = 0, iter_tlv_end = 0\<rparr>"

definition file_tlv_iter_begin ::
  "image_abi \<Rightarrow> 'w os \<Rightarrow> file_tlv_iter_t \<Rightarrow> image_header option \<Rightarrow> fs_file_t option \<Rightarrow> u16 \<Rightarrow> bool \<Rightarrow> 'w
   \<Rightarrow> (int \<times> file_tlv_iter_t) \<times> 'w"
where
  "file_tlv_iter_begin A E it hdr p_file ty prot w =
     (case (hdr, p_file) of
        (Some h, Some f) \<Rightarrow>
          let offset = BOOT_TLV_OFF h; sz = of_nat (sizeof_image_tlv_info A);
              finish = (\<lambda>info w.
                if IMAGE_TLV_INFO_MAGIC A \<noteq> it_magic info then ((- 1, it), w)
                else ((0, it\<lparr>iter_hdr := Some h, iter_file := Some f, iter_type := ty,
                             iter_prot := prot,
                             iter_prot_end := offset + ucast (ih_protect_tlv_size h),
                             iter_tlv_end := offset + ucast (ih_protect_tlv_size h) + ucast (it_tlv_tot info),
                             iter_tlv_off := offset + sz\<rparr>), w))
          in
          (case load_image_data E f offset sz w of ((rc, buf), w) \<Rightarrow>
            if rc \<noteq> 0 then ((- 1, it), w)
            else
              let info = image_tlv_info_of A buf in
              if IMAGE_TLV_PROT_INFO_MAGIC A = it_magic info then
                if ih_protect_tlv_size h \<noteq> it_tlv_tot info then ((- 1, it), w)
                else (case load_image_data E f (offset + ucast (it_tlv_tot info)) sz w of ((rc, buf), w) \<Rightarrow>
                  if rc \<noteq> 0 then ((- 1, it), w)
                  else finish (image_tlv_info_of A buf) w)
              else if 0 \<noteq> ih_protect_tlv_size h then ((- 1, it), w)
              else finish info w)
      | _ \<Rightarrow> ((- 1, it), w))"

partial_function (option) file_tlv_iter_loop ::
  "image_abi \<Rightarrow> 'w os \<Rightarrow> image_header \<Rightarrow> fs_file_t \<Rightarrow> file_tlv_iter_t \<Rightarrow> 'w
   \<Rightarrow> ((int \<times> u32 \<times> u16 \<times> u16) \<times> file_tlv_iter_t \<times> 'w) option"
where
  "file_tlv_iter_loop A E h f it w =
     (if iter_tlv_off it < iter_tlv_end it then
        let it = (if ih_protect_tlv_size h > 0 \<and> iter_tlv_off it = iter_prot_end it
                  then it\<lparr>iter_tlv_off := iter_tlv_off it + of_nat (sizeof_image_tlv_info A)\<rparr> else it);
            r = load_image_data E f (iter_tlv_off it) (of_nat (sizeof_image_tlv A)) w;
            rc = fst (fst r); tlv = image_tlv_of A (snd (fst r)); w = snd r
        in
        if rc \<noteq> 0 then Some ((- 1, 0, 0, 0), it, w)
        else if iter_prot it \<and> iter_tlv_off it \<ge> iter_prot_end it then Some ((1, 0, 0, 0), it, w)
        else
          let next = it\<lparr>iter_tlv_off := iter_tlv_off it + (of_nat (sizeof_image_tlv A) + ucast (it_len tlv))\<rparr> in
          if IMAGE_TLV_ANY A = iter_type it \<or> it_type tlv = iter_type it
          then Some ((0, iter_tlv_off it + of_nat (sizeof_image_tlv A), it_len tlv, it_type tlv), next, w)
          else file_tlv_iter_loop A E h f next w
      else Some ((1, 0, 0, 0), it, w))"

text \<open>
  The return code and what is stored through \<open>off\<close>, \<open>len\<close> and \<open>type\<close>; the callers initialise
  these to 0, so 0 stands for ``not stored''.
\<close>

definition file_tlv_iter_next ::
  "image_abi \<Rightarrow> 'w os \<Rightarrow> file_tlv_iter_t \<Rightarrow> 'w
   \<Rightarrow> ((int \<times> u32 \<times> u16 \<times> u16) \<times> file_tlv_iter_t \<times> 'w) option"
where
  "file_tlv_iter_next A E it w =
     (case (iter_hdr it, iter_file it) of
        (Some h, Some f) \<Rightarrow> file_tlv_iter_loop A E h f it w
      | _ \<Rightarrow> Some ((- 1, 0, 0, 0), it, w))"

definition file_tlv_iter_is_prot :: "file_tlv_iter_t \<Rightarrow> u32 \<Rightarrow> int" where
  "file_tlv_iter_is_prot it off =
     (case (iter_hdr it, iter_file it) of
        (Some _, Some _) \<Rightarrow> (if off < iter_prot_end it then 1 else 0)
      | _ \<Rightarrow> - 1)"

subsection \<open>Checked additions: facts\<close>

lemma boot_u32_safe_add_Some:
  "boot_u32_safe_add a b = Some c \<longleftrightarrow> unat c = unat a + unat b"
proof -
  have e: "(0xFFFFFFFF :: u32) = - 1"
    by simp
  have f: "unat (- 1 :: u32) = 2 ^ 32 - 1"
    by (simp add: unsigned_minus_1_eq_mask mask_eq_exp_minus_1)
  have m: "unat (0xFFFFFFFF - b) = 2 ^ 32 - 1 - unat b"
    unfolding e using unat_sub [of b "- 1"] f by (simp only: word_order.extremum)
  show ?thesis
  proof (cases "unat a + unat b < 2 ^ 32")
    case True
    then have "\<not> a > 0xFFFFFFFF - b"
      by (simp add: word_less_nat_alt m)
    then show ?thesis
      using unat_plus_small [OF True]
      by (auto simp: boot_u32_safe_add_def word_unat_eq_iff)
  next
    case False
    then have "a > 0xFFFFFFFF - b"
      using unat_u32_bound [of b] by (simp add: word_less_nat_alt m)
    then show ?thesis
      using False unat_u32_bound [of c] by (auto simp: boot_u32_safe_add_def)
  qed
qed

lemma boot_u16_safe_add_Some:
  "boot_u16_safe_add a b = Some c \<longleftrightarrow> unat c = unat a + unat b"
proof -
  let ?t = "(ucast a :: u32) + ucast b"
  have t: "unat ?t = unat a + unat b"
    using unat_u16_bound [of a] unat_u16_bound [of b] by (subst unat_plus_small) simp_all
  have u: "unat (ucast ?t :: u16) = (unat a + unat b) mod 65536"
    by (simp add: unsigned_ucast_eq take_bit_eq_mod t del: unat_plus_simple)
  show ?thesis
    using unat_u16_bound [of c] u
    by (auto simp: boot_u16_safe_add_def Let_def word_less_nat_alt t word_unat_eq_iff)
qed

subsection \<open>What the iterator searches: the specification\<close>

text \<open>
  The search on natural numbers: \<open>hp\<close> says whether the image has a protected area, \<open>pe\<close> and \<open>te\<close>
  are the ends of the protected area and of the TLV area, \<open>off\<close> is where the search stands. A
  found entry is given by the offset of its payload.
\<close>

datatype tlv_found = Tlv_Entry nat image_tlv | Tlv_None | Tlv_Truncated

definition tlv_skip :: "image_abi \<Rightarrow> bool \<Rightarrow> nat \<Rightarrow> nat \<Rightarrow> nat" where
  "tlv_skip A hp pe off = (if hp \<and> off = pe then off + sizeof_image_tlv_info A else off)"

definition tlv_entry_at :: "image_abi \<Rightarrow> byte list \<Rightarrow> nat \<Rightarrow> image_tlv" where
  "tlv_entry_at A bs off = image_tlv_of A (bytes_at off (sizeof_image_tlv A) bs)"

function tlv_find ::
  "image_abi \<Rightarrow> byte list \<Rightarrow> u16 \<Rightarrow> bool \<Rightarrow> bool \<Rightarrow> nat \<Rightarrow> nat \<Rightarrow> nat \<Rightarrow> tlv_found"
where
  "tlv_find A bs ty prot hp pe te off =
     (let o' = tlv_skip A hp pe off; t = tlv_entry_at A bs o'; pay = o' + sizeof_image_tlv A in
      if te \<le> off then Tlv_None
      else if pay = o' \<or> length bs < pay then Tlv_Truncated
      else if prot \<and> pe \<le> o' then Tlv_None
      else if ty = IMAGE_TLV_ANY A \<or> it_type t = ty then Tlv_Entry pay t
      else tlv_find A bs ty prot hp pe te (pay + unat (it_len t)))"
  by pat_completeness auto
termination
  by (relation "measure (\<lambda>(A, bs, ty, prot, hp, pe, te, off). length bs - off)")
     (auto simp: tlv_skip_def split: if_splits)

declare tlv_find.simps [simp del]

text \<open>
  The TLV area behind the image: the ends of the protected part and of the whole. \<open>None\<close> where
  the image has no well-formed TLV area.
\<close>

definition tlv_info_at :: "image_abi \<Rightarrow> byte list \<Rightarrow> nat \<Rightarrow> image_tlv_info option" where
  "tlv_info_at A bs off =
     (if off + sizeof_image_tlv_info A \<le> length bs
      then Some (image_tlv_info_of A (bytes_at off (sizeof_image_tlv_info A) bs)) else None)"

definition tlv_region :: "image_abi \<Rightarrow> byte list \<Rightarrow> image_header \<Rightarrow> (nat \<times> nat) option" where
  "tlv_region A bs h = do {
     let off = unat (BOOT_TLV_OFF h);
     let pe = off + unat (ih_protect_tlv_size h);
     info \<leftarrow> tlv_info_at A bs off;
     info \<leftarrow> (if it_magic info = IMAGE_TLV_PROT_INFO_MAGIC A
             then if ih_protect_tlv_size h = it_tlv_tot info then tlv_info_at A bs pe else None
             else if ih_protect_tlv_size h = 0 then Some info else None);
     if it_magic info = IMAGE_TLV_INFO_MAGIC A then Some (pe, pe + unat (it_tlv_tot info)) else None
   }"

lemma tlv_region_bounds:
  assumes "tlv_region A bs h = Some (pe, te)"
  shows "pe = unat (BOOT_TLV_OFF h) + unat (ih_protect_tlv_size h)" and "pe \<le> length bs"
    and "pe \<le> te"
  using assms
  by (auto simp: tlv_region_def tlv_info_at_def bind_eq_Some_conv Let_def split: if_splits)

text \<open>A result of a protected search lies in the protected area.\<close>

lemma tlv_find_prot:
  "tlv_find A bs ty True hp pe te off = Tlv_Entry pay t \<Longrightarrow> pay - sizeof_image_tlv A < pe"
  by (induction A bs ty True hp pe te off rule: tlv_find.induct)
     (subst (asm) tlv_find.simps, auto simp: Let_def split: if_splits)

lemma tlv_find_entry:
  "tlv_find A bs ty prot hp pe te off = Tlv_Entry pay t \<Longrightarrow>
   pay \<le> length bs \<and> off \<le> pay - sizeof_image_tlv A \<and> sizeof_image_tlv A \<le> pay
   \<and> t = tlv_entry_at A bs (pay - sizeof_image_tlv A)
   \<and> (ty = IMAGE_TLV_ANY A \<or> it_type t = ty)"
proof (induction A bs ty prot hp pe te off rule: tlv_find.induct)
  case (1 A bs ty prot hp pe te off)
  have "off \<le> tlv_skip A hp pe off"
    by (simp add: tlv_skip_def)
  with 1(1) [OF refl refl refl] 1(2) show ?case
    by (subst (asm) (2) tlv_find.simps) (auto simp: Let_def split: if_splits)
qed

subsection \<open>Sources of image data\<close>

text \<open>
  What the clients of \<open>load_image_data\<close> rely on: a successful load has stored the bytes of the
  image, a failed one reports a negative code, and with \<open>rel\<close> a load inside the image succeeds.
\<close>

locale image_source =
  fixes rel :: bool and E :: "'w os" and f :: fs_file_t and bs :: "byte list"
    and good :: "'w \<Rightarrow> bool"
  assumes image_length: "good w \<Longrightarrow> length bs < 2 ^ 31"
    and load: "good w \<Longrightarrow> load_image_data E f s n w = ((rc, data), w') \<Longrightarrow> unat n < 2 ^ 31 \<Longrightarrow>
      good w' \<and> length data \<le> unat n
      \<and> (rc = 0 \<longrightarrow> length data = unat n \<and> data = bytes_at (unat s) (unat n) bs)
      \<and> (rc \<noteq> 0 \<longrightarrow> rc < 0 \<and> \<not> (rel \<and> unat s + unat n \<le> length bs))"
begin

lemma load_ok:
  assumes "good w" and "load_image_data E f s n w = ((0, data), w')"
    and "0 < unat n" and "unat n < 2 ^ 31"
  shows "good w'" "data = bytes_at (unat s) (unat n) bs" "unat s + unat n \<le> length bs"
  using load [OF assms(1,2,4)] assms(3) by auto

lemma load_fail:
  assumes "good w" and "load_image_data E f s n w = ((rc, data), w')" and "rc \<noteq> 0"
    and "unat n < 2 ^ 31"
  shows "good w'" "rc < 0" "rel \<Longrightarrow> length bs < unat s + unat n"
  using load [OF assms(1,2,4)] assms(3) by auto

end

lemma seek_u32:
  assumes "reading rel dv E f bs d pos w"
    and "fs_seek E f (off_of_u32 s) FS_SEEK_SET w = (rc, w')"
  shows "rc = 0 \<and> unat s < 2 ^ 31 \<and> reading rel dv E f bs d (unat s) w'
    \<or> rc < 0 \<and> reading rel dv E f bs d pos w' \<and> \<not> (rel \<and> unat s \<le> length bs)"
proof (cases "unat s < 2 ^ 31")
  case True
  then have t: "fs_seek_target bs (off_of_u32 s) FS_SEEK_SET = int (unat s)"
    by (simp add: fs_seek_target_def off_of_u32_small)
  have "0 \<le> int (unat s)"
    by (rule of_nat_0_le_iff)
  then show ?thesis
    using reading_seek [OF assms] True unfolding t nat_int of_nat_le_iff by blast
next
  case False
  then have "\<not> 0 \<le> fs_seek_target bs (off_of_u32 s) FS_SEEK_SET"
    using off_of_u32_nonneg(2) [of s] by (auto simp: fs_seek_target_def)
  moreover have "\<not> unat s \<le> length bs"
    using False reading_length [OF assms(1)] by simp
  ultimately show ?thesis
    using reading_seek [OF assms] by blast
qed

lemma load_image_data_reading:
  assumes "reading rel dv E f bs d pos w"
    and "load_image_data E f s n w = ((rc, data), w')" and "unat n < 2 ^ 31"
  shows "(\<exists>pos'. reading rel dv E f bs d pos' w') \<and> length data \<le> unat n
      \<and> (rc = 0 \<longrightarrow> length data = unat n \<and> data = bytes_at (unat s) (unat n) bs)
      \<and> (rc \<noteq> 0 \<longrightarrow> rc < 0 \<and> \<not> (rel \<and> unat s + unat n \<le> length bs))"
proof -
  obtain rc1 w1 where seek: "fs_seek E f (off_of_u32 s) FS_SEEK_SET w = (rc1, w1)"
    by (metis prod.exhaust)
  obtain rc2 out w2 where read: "fs_read E f (unat n) w1 = ((rc2, out), w2)"
    by (metis prod.exhaust)
  consider (fail) "rc1 < 0" "reading rel dv E f bs d pos w1" "\<not> (rel \<and> unat s \<le> length bs)"
    | (ok) "rc1 = 0" "reading rel dv E f bs d (unat s) w1"
    using seek_u32 [OF assms(1) seek] by blast
  then show ?thesis
  proof cases
    case fail
    then have "rc = rc1" "data = []" "w' = w1"
      using assms(2) by (simp_all add: load_image_data_def seek)
    then show ?thesis
      using fail reading_length [OF assms(1)] by fastforce
  next
    case ok
    have res: "data = out" "w' = w2" "rc = (if u32_of_int rc2 \<noteq> n then - 1 else 0)"
      using assms(2) ok(1) by (auto simp: load_image_data_def seek read split: if_splits)
    from reading_read [OF ok(2) read] show ?thesis
    proof
      assume r: "rc2 = int (length out) \<and> out = bytes_at (unat s) (unat n) bs \<and>
        reading rel dv E f bs d (unat s + length out) w2"
      have lens: "length out \<le> unat n" "unat s + unat n \<le> length bs \<Longrightarrow> length out = unat n"
        using r by auto
      have "u32_of_int rc2 = n \<longleftrightarrow> length out = unat n"
        using r lens(1) unat_u32_bound [of n] by (subst u32_of_int_eq_nat) auto
      then show ?thesis
        using r res lens by auto
    next
      assume r: "\<not> rel \<and> - (2 ^ 31) \<le> rc2 \<and> rc2 < 0 \<and> length out \<le> unat n
        \<and> reading rel dv E f bs d (unat s) w2"
      then have "unat (u32_of_int rc2) = nat (rc2 + 2 ^ 32)"
        by (simp add: u32_of_int_neg)
      then have "u32_of_int rc2 \<noteq> n"
        using r assms(3) by auto
      then show ?thesis
        using r res by auto
    qed
  qed
qed

subsection \<open>The iterator implements the search\<close>

definition iter_ok :: "image_header \<Rightarrow> fs_file_t \<Rightarrow> file_tlv_iter_t \<Rightarrow> bool" where
  "iter_ok h f it \<longleftrightarrow>
     iter_hdr it = Some h \<and> iter_file it = Some f \<and> unat (iter_tlv_off it) < 2 ^ 31 + 2 ^ 17
     \<and> unat (iter_prot_end it) < 2 ^ 31 + 2 ^ 16"

abbreviation iter_find :: "image_abi \<Rightarrow> byte list \<Rightarrow> image_header \<Rightarrow> file_tlv_iter_t \<Rightarrow> tlv_found" where
  "iter_find A bs h it \<equiv>
     tlv_find A bs (iter_type it) (iter_prot it) (0 < ih_protect_tlv_size h)
       (unat (iter_prot_end it)) (unat (iter_tlv_end it)) (unat (iter_tlv_off it))"

text \<open>What a call of \<open>file_tlv_iter_next\<close> answers to the outcome of the search.\<close>

definition iter_answer ::
  "bool \<Rightarrow> image_abi \<Rightarrow> byte list \<Rightarrow> image_header \<Rightarrow> fs_file_t \<Rightarrow> file_tlv_iter_t
   \<Rightarrow> (int \<times> u32 \<times> u16 \<times> u16) \<times> file_tlv_iter_t \<Rightarrow> bool"
where
  "iter_answer rel A bs h f it = (\<lambda>((rc, off, len, ty), it').
     iter_ok h f it' \<and> it' = it\<lparr>iter_tlv_off := iter_tlv_off it'\<rparr>
     \<and> (rc = - 1 \<and> (rel \<longrightarrow> iter_find A bs h it = Tlv_Truncated)
        \<or> rc = 1 \<and> iter_find A bs h it = Tlv_None
        \<or> rc = 0 \<and> (\<exists>t. iter_find A bs h it = Tlv_Entry (unat off) t \<and> len = it_len t \<and> ty = it_type t
            \<and> unat (iter_tlv_off it') = unat off + unat len)))"

text \<open>
  One round of the iterator: it steps over the header of the unprotected TLVs, loads the entry there,
  and goes on behind it. The search does the same.
\<close>

definition iter_skip :: "image_abi \<Rightarrow> image_header \<Rightarrow> file_tlv_iter_t \<Rightarrow> file_tlv_iter_t" where
  "iter_skip A h it =
     (if 0 < ih_protect_tlv_size h \<and> iter_tlv_off it = iter_prot_end it
      then it\<lparr>iter_tlv_off := iter_tlv_off it + of_nat (sizeof_image_tlv_info A)\<rparr> else it)"

definition iter_behind :: "image_abi \<Rightarrow> image_tlv \<Rightarrow> file_tlv_iter_t \<Rightarrow> file_tlv_iter_t" where
  "iter_behind A t it = it\<lparr>iter_tlv_off := iter_tlv_off it + (of_nat (sizeof_image_tlv A) + ucast (it_len t))\<rparr>"

lemma iter_skip_only: "iter_skip A h it = it\<lparr>iter_tlv_off := iter_tlv_off (iter_skip A h it)\<rparr>"
  by (simp add: iter_skip_def)

lemma iter_skip_same [simp]:
  "iter_prot (iter_skip A h it) = iter_prot it" "iter_prot_end (iter_skip A h it) = iter_prot_end it"
  "iter_type (iter_skip A h it) = iter_type it" "iter_tlv_end (iter_skip A h it) = iter_tlv_end it"
  "iter_hdr (iter_skip A h it) = iter_hdr it" "iter_file (iter_skip A h it) = iter_file it"
  by (simp_all add: iter_skip_def)

lemma iter_skip_off:
  assumes "iter_ok h f it" and "abi_ok A"
  shows "unat (iter_tlv_off (iter_skip A h it))
      = tlv_skip A (0 < ih_protect_tlv_size h) (unat (iter_prot_end it)) (unat (iter_tlv_off it))"
    and "iter_ok h f (iter_skip A h it)"
proof -
  have small: "sizeof_image_tlv_info A < 65536"
    using assms(2) by (simp add: abi_ok_def)
  then show *: "unat (iter_tlv_off (iter_skip A h it))
      = tlv_skip A (0 < ih_protect_tlv_size h) (unat (iter_prot_end it)) (unat (iter_tlv_off it))"
    using assms(1) by (auto simp: iter_ok_def iter_skip_def tlv_skip_def unat_plus_small word_unat_eq_iff)
  show "iter_ok h f (iter_skip A h it)"
    using assms(1) small by (auto simp: iter_ok_def * tlv_skip_def)
qed

lemma iter_behind_off:
  assumes "iter_ok h f it" and "abi_ok A" and "unat (iter_tlv_off it) + sizeof_image_tlv A < 2 ^ 31"
  shows "unat (iter_tlv_off (iter_behind A t it)) = unat (iter_tlv_off it) + sizeof_image_tlv A + unat (it_len t)"
    and "iter_ok h f (iter_behind A t it)"
    and "unat (iter_tlv_off it + of_nat (sizeof_image_tlv A)) = unat (iter_tlv_off it) + sizeof_image_tlv A"
proof -
  have st: "unat (of_nat (sizeof_image_tlv A) :: u32) = sizeof_image_tlv A" "sizeof_image_tlv A < 65536"
    using assms(2) by (simp_all add: abi_ok_def)
  have "unat (of_nat (sizeof_image_tlv A) + (ucast (it_len t) :: u32)) = sizeof_image_tlv A + unat (it_len t)"
    using st unat_u16_bound [of "it_len t"] by (subst unat_plus_small) simp_all
  then show off: "unat (iter_tlv_off (iter_behind A t it))
      = unat (iter_tlv_off it) + sizeof_image_tlv A + unat (it_len t)"
    using assms(3) unat_u16_bound [of "it_len t"] by (simp add: iter_behind_def unat_plus_small)
  show "iter_ok h f (iter_behind A t it)"
    using assms(1,3) off unat_u16_bound [of "it_len t"] by (simp add: iter_ok_def iter_behind_def)
  show "unat (iter_tlv_off it + of_nat (sizeof_image_tlv A)) = unat (iter_tlv_off it) + sizeof_image_tlv A"
    using assms(3) st by (subst unat_plus_small) simp_all
qed

lemma file_tlv_iter_loop_round:
  assumes "load_image_data E f (iter_tlv_off (iter_skip A h it)) (of_nat (sizeof_image_tlv A)) w = ((rc, data), w1)"
  defines "it1 \<equiv> iter_skip A h it" and "t \<equiv> image_tlv_of A data"
  shows "file_tlv_iter_loop A E h f it w =
     (if iter_tlv_off it < iter_tlv_end it then
        if rc \<noteq> 0 then Some ((- 1, 0, 0, 0), it1, w1)
        else if iter_prot it \<and> iter_prot_end it \<le> iter_tlv_off it1 then Some ((1, 0, 0, 0), it1, w1)
        else if IMAGE_TLV_ANY A = iter_type it \<or> it_type t = iter_type it
        then Some ((0, iter_tlv_off it1 + of_nat (sizeof_image_tlv A), it_len t, it_type t), iter_behind A t it1, w1)
        else file_tlv_iter_loop A E h f (iter_behind A t it1) w1
      else Some ((1, 0, 0, 0), it, w))"
  unfolding it1_def t_def
  by (subst file_tlv_iter_loop.simps)
     (simp only: iter_skip_def [symmetric] Let_def assms(1) fst_conv snd_conv iter_behind_def [symmetric] iter_skip_same)

lemma iter_find_round:
  fixes bs :: "byte list"
  assumes "iter_ok h f it" and "abi_ok A"
  defines "o1 \<equiv> iter_tlv_off (iter_skip A h it)"
  defines "t \<equiv> tlv_entry_at A bs (unat o1)"
  shows "iter_find A bs h it =
      (if \<not> iter_tlv_off it < iter_tlv_end it then Tlv_None
       else if length bs < unat o1 + sizeof_image_tlv A then Tlv_Truncated
       else if iter_prot it \<and> iter_prot_end it \<le> o1 then Tlv_None
       else if iter_type it = IMAGE_TLV_ANY A \<or> it_type t = iter_type it
       then Tlv_Entry (unat o1 + sizeof_image_tlv A) t
       else tlv_find A bs (iter_type it) (iter_prot it) (0 < ih_protect_tlv_size h) (unat (iter_prot_end it))
              (unat (iter_tlv_end it)) (unat o1 + sizeof_image_tlv A + unat (it_len t)))"
proof -
  have st: "0 < sizeof_image_tlv A"
    using assms(2) by (simp add: abi_ok_def)
  note o1 = iter_skip_off(1) [OF assms(1,2), folded o1_def]
  show ?thesis
    unfolding t_def using st
    by (subst tlv_find.simps) (simp add: Let_def not_less word_less_nat_alt [of "iter_tlv_off it"]
          word_le_nat_alt [of "iter_prot_end it"] flip: o1)
qed

context image_source
begin

text \<open>A round that found the entry in the image leaves the loop with the answer, or goes on behind the entry.\<close>

lemma iter_round:
  assumes "good w" and "iter_ok h f it" and "abi_ok A"
  shows "(\<exists>r it' w'. file_tlv_iter_loop A E h f it w = Some (r, it', w') \<and> good w'
            \<and> iter_answer rel A bs h f it (r, it'))
    \<or> (\<exists>t w'. file_tlv_iter_loop A E h f it w = file_tlv_iter_loop A E h f (iter_behind A t (iter_skip A h it)) w'
         \<and> good w' \<and> iter_ok h f (iter_behind A t (iter_skip A h it))
         \<and> unat (iter_tlv_off it) < unat (iter_tlv_off (iter_behind A t (iter_skip A h it)))
         \<and> unat (iter_tlv_off it) < length bs
         \<and> iter_find A bs h it = iter_find A bs h (iter_behind A t (iter_skip A h it)))"
proof -
  let ?st = "sizeof_image_tlv A"
  define it1 where "it1 = iter_skip A h it"
  define o1 where "o1 = iter_tlv_off it1"
  have st: "0 < ?st" "?st < 2 ^ 31" "unat (of_nat ?st :: u32) = ?st"
    using assms(3) by (simp_all add: abi_ok_def)
  note ok1 = iter_skip_off(2) [OF assms(2,3), folded it1_def]
  have le1: "unat (iter_tlv_off it) \<le> unat o1"
    using iter_skip_off(1) [OF assms(2,3)] by (simp add: o1_def it1_def tlv_skip_def)
  have it1: "it1 = it\<lparr>iter_tlv_off := o1\<rparr>"
    unfolding o1_def it1_def by (rule iter_skip_only)
  obtain rc data w1 where ld: "load_image_data E f o1 (of_nat ?st) w = ((rc, data), w1)"
    by (metis prod.exhaust)
  note run = file_tlv_iter_loop_round [OF ld [unfolded o1_def it1_def], folded it1_def, folded o1_def]
  note find = iter_find_round [OF assms(2,3), of bs, folded it1_def, folded o1_def]
  let ?t = "image_tlv_of A data"
  consider (stop) "\<not> iter_tlv_off it < iter_tlv_end it" | (fail) "iter_tlv_off it < iter_tlv_end it" "rc \<noteq> 0"
    | (ok) "iter_tlv_off it < iter_tlv_end it" "rc = 0"
    by blast
  then show ?thesis
  proof cases
    case stop
    then show ?thesis
      using assms(1,2) by (intro disjI1) (simp add: run iter_answer_def find)
  next
    case fail
    then show ?thesis
      using load_fail [OF assms(1) ld fail(2)] ok1 st by (intro disjI1) (auto simp: run iter_answer_def find it1)
  next
    case ok
    note L = load_ok [OF assms(1) ld [unfolded ok(2)], unfolded st(3), OF st(1,2)]
    have t: "tlv_entry_at A bs (unat o1) = ?t"
      using L(2) by (simp add: tlv_entry_at_def)
    have o1: "unat o1 + ?st < 2 ^ 31"
      using L(3) image_length [OF assms(1)] by simp
    note behind = iter_behind_off(1,2) [OF ok1 assms(3), folded o1_def, OF o1, of ?t]
      iter_behind_off(3) [OF ok1 assms(3), folded o1_def, OF o1]
    have find_ok: "iter_find A bs h it = (if iter_prot it \<and> iter_prot_end it \<le> o1 then Tlv_None
       else if IMAGE_TLV_ANY A = iter_type it \<or> it_type ?t = iter_type it then Tlv_Entry (unat o1 + ?st) ?t
       else iter_find A bs h (iter_behind A ?t it1))"
      unfolding find t using ok(1) L(3) behind(1) by (auto simp: iter_behind_def it1_def)
    have run_ok: "file_tlv_iter_loop A E h f it w = (if iter_prot it \<and> iter_prot_end it \<le> o1 then Some ((1, 0, 0, 0), it1, w1)
        else if IMAGE_TLV_ANY A = iter_type it \<or> it_type ?t = iter_type it
        then Some ((0, o1 + of_nat ?st, it_len ?t, it_type ?t), iter_behind A ?t it1, w1)
        else file_tlv_iter_loop A E h f (iter_behind A ?t it1) w1)"
      unfolding run using ok by simp
    have same: "iter_behind A ?t it1 = it\<lparr>iter_tlv_off := iter_tlv_off (iter_behind A ?t it1)\<rparr>"
      by (simp add: iter_behind_def it1)
    show ?thesis
    proof (cases "iter_prot it \<and> iter_prot_end it \<le> o1 \<or> IMAGE_TLV_ANY A = iter_type it \<or> it_type ?t = iter_type it")
      case True
      then show ?thesis
        using L(1) ok1 behind same unfolding run_ok
        by (intro disjI1) (auto simp: iter_answer_def find_ok it1)
    next
      case False
      then show ?thesis
        using L(1,3) behind(1,2) le1 st(1) unfolding run_ok find_ok it1_def [symmetric]
        by (intro disjI2 exI [of _ ?t] exI [of _ w1]) auto
    qed
  qed
qed

lemma iter_loop_answer:
  assumes "good w" and "iter_ok h f it" and "abi_ok A"
  shows "\<exists>r it' w'. file_tlv_iter_loop A E h f it w = Some (r, it', w') \<and> good w'
           \<and> iter_answer rel A bs h f it (r, it')"
  using assms(1,2)
proof (induction "length bs - unat (iter_tlv_off it)" arbitrary: it w rule: less_induct)
  case less
  from iter_round [OF less.prems assms(3)] show ?case
  proof (elim disjE)
    assume "\<exists>t w'. file_tlv_iter_loop A E h f it w = file_tlv_iter_loop A E h f (iter_behind A t (iter_skip A h it)) w'
         \<and> good w' \<and> iter_ok h f (iter_behind A t (iter_skip A h it))
         \<and> unat (iter_tlv_off it) < unat (iter_tlv_off (iter_behind A t (iter_skip A h it)))
         \<and> unat (iter_tlv_off it) < length bs
         \<and> iter_find A bs h it = iter_find A bs h (iter_behind A t (iter_skip A h it))"
    then obtain t w' where run: "file_tlv_iter_loop A E h f it w = file_tlv_iter_loop A E h f (iter_behind A t (iter_skip A h it)) w'"
      and next_ok: "good w'" "iter_ok h f (iter_behind A t (iter_skip A h it))"
      and less': "length bs - unat (iter_tlv_off (iter_behind A t (iter_skip A h it))) < length bs - unat (iter_tlv_off it)"
      and find: "iter_find A bs h it = iter_find A bs h (iter_behind A t (iter_skip A h it))"
      by (metis diff_less_mono2)
    have upd: "(iter_behind A t (iter_skip A h it))\<lparr>iter_tlv_off := x\<rparr> = it\<lparr>iter_tlv_off := x\<rparr>" for x
      by (subst iter_skip_only) (simp add: iter_behind_def)
    have "iter_answer rel A bs h f (iter_behind A t (iter_skip A h it)) r \<Longrightarrow> iter_answer rel A bs h f it r" for r
      unfolding iter_answer_def upd find by blast
    then show ?thesis
      using less.hyps [OF less' next_ok] run by auto
  qed
qed


lemma iter_next_answer:
  assumes "good w" and "iter_ok h f it" and "abi_ok A"
  obtains r it' w' where "file_tlv_iter_next A E it w = Some (r, it', w')" and "good w'"
    and "iter_answer rel A bs h f it (r, it')"
  using iter_loop_answer [OF assms] assms(2) by (auto simp: file_tlv_iter_next_def iter_ok_def)

text \<open>Where a successful \<open>file_tlv_iter_begin\<close> has put the iterator.\<close>

lemma iter_begin_answer:
  assumes "good w" and "abi_ok A"
    and "file_tlv_iter_begin A E it (Some h) (Some f) ty prot w = ((rc, it'), w')"
  shows "good w' \<and> (rc = 0 \<or> rc = - 1 \<and> it' = it) \<and> (rc = 0 \<longrightarrow> iter_ok h f it'
           \<and> tlv_region A bs h = Some (unat (iter_prot_end it'), unat (iter_tlv_end it'))
           \<and> unat (iter_tlv_off it') = unat (BOOT_TLV_OFF h) + sizeof_image_tlv_info A
           \<and> iter_type it' = ty \<and> iter_prot it' = prot)
         \<and> (rc \<noteq> 0 \<and> rel \<longrightarrow> tlv_region A bs h = None)"
proof -
  let ?o = "BOOT_TLV_OFF h"
  let ?p = "?o + ucast (ih_protect_tlv_size h)"
  let ?si = "sizeof_image_tlv_info A"
  let ?sz = "of_nat ?si :: u32"
  have sz: "unat ?sz = ?si" "0 < unat ?sz" "unat ?sz < 2 ^ 31" "?si < 65536"
    using assms(2) by (simp_all add: abi_ok_def)
  obtain rc1 b1 w1 where l1: "load_image_data E f ?o ?sz w = ((rc1, b1), w1)"
    by (metis prod.exhaust)
  show ?thesis
  proof (cases "rc1 = 0")
    case False
    with load_fail [OF assms(1) l1 this sz(3)] show ?thesis
      using assms(3) by (auto simp: file_tlv_iter_begin_def l1 tlv_region_def tlv_info_at_def sz(1))
  next
    case True
    note l1' = load_ok [OF assms(1) l1 [unfolded True] sz(2,3), unfolded sz(1)]
    have short: "length bs < 2 ^ 31"
      by (rule image_length [OF assms(1)])
    have p: "unat ?p = unat ?o + unat (ih_protect_tlv_size h)"
      using l1'(3) short unat_u16_bound [of "ih_protect_tlv_size h"]
      by (subst unat_plus_small) simp_all
    have e: "unat (?p + ucast l) = unat ?o + unat (ih_protect_tlv_size h) + unat l" for l :: u16
      using l1'(3) short unat_u16_bound [of "ih_protect_tlv_size h"] unat_u16_bound [of l] p
      by (subst unat_plus_small) simp_all
    have q: "unat (?o + ?sz) = unat ?o + ?si"
      using l1'(3) short sz by (subst unat_plus_small) simp_all
    obtain rc2 b2 w2 where l2: "load_image_data E f ?p ?sz w1 = ((rc2, b2), w2)"
      by (metis prod.exhaust)
    have i1: "tlv_info_at A bs (unat ?o) = Some (image_tlv_info_of A b1)"
      using l1' by (simp add: tlv_info_at_def)
    show ?thesis
    proof (cases "it_magic (image_tlv_info_of A b1) = IMAGE_TLV_PROT_INFO_MAGIC A")
      case prot: True
      show ?thesis
      proof (cases "ih_protect_tlv_size h = it_tlv_tot (image_tlv_info_of A b1) \<and> rc2 = 0")
        case True
        note l2' = load_ok [OF l1'(1) l2 [unfolded conjunct2 [OF True]] sz(2,3), unfolded sz(1) p]
        then have "tlv_info_at A bs (unat ?o + unat (ih_protect_tlv_size h)) = Some (image_tlv_info_of A b2)"
          by (simp add: tlv_info_at_def)
        then show ?thesis
          using assms(3) \<open>rc1 = 0\<close> prot True l2' l1'(3) l2 i1 p q e short sz(4)
            unat_u16_bound [of "ih_protect_tlv_size h"]
          by (auto simp: file_tlv_iter_begin_def l1 tlv_region_def Let_def iter_ok_def split: if_splits)
      next
        case False
        have "rc2 \<noteq> 0 \<Longrightarrow> good w2 \<and> (rel \<longrightarrow>
            tlv_info_at A bs (unat ?o + unat (ih_protect_tlv_size h)) = None)"
          using load_fail [OF l1'(1) l2 _ sz(3)] by (auto simp: tlv_info_at_def sz(1) p)
        then show ?thesis
          using assms(3) \<open>rc1 = 0\<close> prot False l2 i1 l1'(1)
          by (auto simp: file_tlv_iter_begin_def l1 tlv_region_def Let_def split: if_splits)
      qed
    next
      case False
      then show ?thesis
        using assms(3) \<open>rc1 = 0\<close> l1' i1 q p e short sz(4)
        by (auto simp: file_tlv_iter_begin_def l1 tlv_region_def Let_def iter_ok_def split: if_splits)
    qed
  qed
qed

end

text \<open>An open file is such a source.\<close>

interpretation file_source: image_source rel E f bs "\<lambda>w. \<exists>pos. reading rel dv E f bs d pos w"
  for rel dv E f bs d
  by unfold_locales (blast intro: reading_length, blast dest: load_image_data_reading)

subsection \<open>Runs on the device in memory\<close>

lemmas file_tlv_eval =
  file_tlv_iter_begin_def file_tlv_iter_next_def file_tlv_iter_loop.simps load_image_data_def
  BOOT_TLV_OFF_def iter_zero_def demo_abi_def demo_header_def demo_ram_def demo_image_def
  byte_n_def ram_eval

text \<open>The iterator on the demo image, where \<open>file_tlv_iter_begin\<close> leaves it.\<close>

definition demo_iter :: "u16 \<Rightarrow> bool \<Rightarrow> file_tlv_iter_t" where
  "demo_iter ty prot = \<lparr>iter_hdr = Some demo_header, iter_file = Some demo_file, iter_type = ty,
     iter_prot = prot, iter_prot_end = 18, iter_tlv_off = 12, iter_tlv_end = 33\<rparr>"

lemma demo_iter_begin:
  "\<exists>w'. file_tlv_iter_begin demo_abi (ram_os demo_abi demo_config) iter_zero (Some demo_header)
     (Some demo_file) ty prot demo_ram = ((0, demo_iter ty prot), w')"
  by (simp add: file_tlv_eval demo_iter_def)

lemma demo_iter_ok: "iter_ok demo_header demo_file (demo_iter ty prot)"
  by (simp add: iter_ok_def demo_iter_def)

text \<open>
  The checked additions are exact: they give the mathematical sum where it fits the width,
  and report an overflow exactly where it does not.
\<close>

lemma boot_safe_add_exact:
  "(boot_u32_safe_add a b = Some c \<longleftrightarrow> unat c = unat a + unat b)
   \<and> (boot_u32_safe_add a b = None \<longleftrightarrow> 2 ^ 32 \<le> unat a + unat b)
   \<and> (boot_u16_safe_add i j = Some k \<longleftrightarrow> unat k = unat i + unat j)
   \<and> (boot_u16_safe_add i j = None \<longleftrightarrow> 2 ^ 16 \<le> unat i + unat j)"
proof -
  have "boot_u32_safe_add a b = None \<longleftrightarrow> \<not> (\<exists>c :: u32. unat c = unat a + unat b)"
    unfolding boot_u32_safe_add_Some [symmetric] by (cases "boot_u32_safe_add a b") auto
  moreover have "boot_u16_safe_add i j = None \<longleftrightarrow> \<not> (\<exists>c :: u16. unat c = unat i + unat j)"
    unfolding boot_u16_safe_add_Some [symmetric] by (cases "boot_u16_safe_add i j") auto
  ultimately show ?thesis
    by (simp only: boot_u32_safe_add_Some boot_u16_safe_add_Some ex_unat_u32 ex_unat_u16 not_less
        simp_thms)
qed

subsection \<open>Properties\<close>

text \<open>
  C13. On an open file the search for the next TLV returns, whatever the file contains and whatever
  reads fail on the way, and its answer is that of the search over the bytes of the file with
  unbounded arithmetic: no offset wraps. It reports -1 otherwise, on a reliable file system only
  where an entry is cut off by the end of the file.
\<close>

theorem file_tlv_iter_next_finds:
  assumes "reading rel dv E f bs d pos w" and "iter_ok h f it" and "abi_ok A"
  shows "\<exists>r it' w' pos'. file_tlv_iter_next A E it w = Some (r, it', w')
           \<and> reading rel dv E f bs d pos' w' \<and> iter_answer rel A bs h f it (r, it')"
proof -
  have "\<exists>pos. reading rel dv E f bs d pos w"
    using assms(1) by blast
  from file_source.iter_next_answer [OF this assms(2,3)] show ?thesis
    by metis
qed

theorem file_tlv_iter_next_finds_witness:
  "\<exists>it' w'. file_tlv_iter_next demo_abi (ram_os demo_abi demo_config) (demo_iter 0x22 False) demo_ram
       = Some ((0, 30, 3, 0x22), it', w')
     \<and> iter_answer True demo_abi demo_image demo_header demo_file (demo_iter 0x22 False)
         ((0, 30, 3, 0x22), it')"
proof -
  have run: "\<exists>it' w'. file_tlv_iter_next demo_abi (ram_os demo_abi demo_config) (demo_iter 0x22 False) demo_ram
     = Some ((0, 30, 3, 0x22), it', w')"
    by (simp add: file_tlv_eval demo_iter_def)
  from file_tlv_iter_next_finds [OF demo_reading [of demo_abi demo_config]
      demo_iter_ok [of "0x22" False] demo_abi_ok] run
  show ?thesis
    by auto
qed

text \<open>
  C24. Starting an iteration succeeds only on a well-formed TLV area, on a reliable file system
  exactly there; it then stands on the first entry, its ends are those of the protected part and
  of the area, all below \<open>2^32\<close>; and the file is left open and unchanged.
\<close>

theorem file_tlv_iter_begin_locates:
  assumes "reading rel dv E f bs d pos w" and "abi_ok A"
    and "file_tlv_iter_begin A E it (Some h) (Some f) ty prot w = ((rc, it'), w')"
  shows "(\<exists>pos'. reading rel dv E f bs d pos' w') \<and> (rc = 0 \<or> rc = - 1 \<and> it' = it)
         \<and> (rc = 0 \<longrightarrow> iter_ok h f it' \<and> iter_type it' = ty \<and> iter_prot it' = prot
              \<and> tlv_region A bs h = Some (unat (iter_prot_end it'), unat (iter_tlv_end it'))
              \<and> unat (iter_tlv_off it') = unat (BOOT_TLV_OFF h) + sizeof_image_tlv_info A)
         \<and> (rc \<noteq> 0 \<and> rel \<longrightarrow> tlv_region A bs h = None)"
proof -
  have "\<exists>pos. reading rel dv E f bs d pos w"
    using assms(1) by blast
  from file_source.iter_begin_answer [OF this assms(2,3)] show ?thesis
    by blast
qed

theorem file_tlv_iter_begin_locates_witness:
  "tlv_region demo_abi demo_image demo_header = Some (18, 33)"
proof -
  obtain w' where "file_tlv_iter_begin demo_abi (ram_os demo_abi demo_config) iter_zero (Some demo_header)
     (Some demo_file) 0x50 True demo_ram = ((0, demo_iter 0x50 True), w')"
    using demo_iter_begin by blast
  from file_tlv_iter_begin_locates [OF demo_reading demo_abi_ok this] show ?thesis
    by (simp add: demo_iter_def)
qed

text \<open>
  C25. The header of an entry that a search of the protected area returns lies in the protected
  area, which is the part of the TLVs that the image hash covers, and its payload starts inside
  the file.
\<close>

theorem file_tlv_protected_search:
  assumes "reading rel dv E f bs d pos w" and "abi_ok A"
    and "file_tlv_iter_begin A E it0 (Some h) (Some f) ty True w = ((0, it), w1)"
    and "file_tlv_iter_next A E it w1 = Some ((0, off, len, ty'), it', w2)"
  shows "unat (BOOT_TLV_OFF h) + sizeof_image_tlv_info A \<le> unat off - sizeof_image_tlv A
         \<and> unat off - sizeof_image_tlv A < unat (BOOT_TLV_OFF h) + unat (ih_protect_tlv_size h)
         \<and> unat off \<le> length bs \<and> (ty = IMAGE_TLV_ANY A \<or> ty' = ty)"
proof -
  have "\<exists>pos. reading rel dv E f bs d pos w"
    using assms(1) by blast
  from file_source.iter_begin_answer [OF this assms(2,3)]
  have w1: "\<exists>pos. reading rel dv E f bs d pos w1" and ok: "iter_ok h f it"
    and reg: "tlv_region A bs h = Some (unat (iter_prot_end it), unat (iter_tlv_end it))"
    and off: "unat (iter_tlv_off it) = unat (BOOT_TLV_OFF h) + sizeof_image_tlv_info A"
    and ty: "iter_type it = ty" "iter_prot it"
    by simp_all
  have pe: "unat (iter_prot_end it) = unat (BOOT_TLV_OFF h) + unat (ih_protect_tlv_size h)"
    by (rule tlv_region_bounds [OF reg])
  have "iter_answer rel A bs h f it ((0, off, len, ty'), it')"
    by (rule file_source.iter_next_answer [OF w1 ok assms(2)]) (use assms(4) in simp)
  then obtain t where "iter_find A bs h it = Tlv_Entry (unat off) t" and "ty' = it_type t"
    by (auto simp: iter_answer_def)
  then have f: "tlv_find A bs ty True (0 < ih_protect_tlv_size h) (unat (iter_prot_end it))
      (unat (iter_tlv_end it)) (unat (iter_tlv_off it)) = Tlv_Entry (unat off) t" and t: "ty' = it_type t"
    using ty by simp_all
  from tlv_find_entry [OF f] tlv_find_prot [OF f] t show ?thesis
    unfolding off pe by auto
qed

theorem file_tlv_protected_search_witness:
  "\<exists>it' w1 w2. file_tlv_iter_begin demo_abi (ram_os demo_abi demo_config) iter_zero (Some demo_header)
       (Some demo_file) 0x50 True demo_ram = ((0, demo_iter 0x50 True), w1)
     \<and> file_tlv_iter_next demo_abi (ram_os demo_abi demo_config) (demo_iter 0x50 True) w1
       = Some ((0, 14, 4, 0x50), it', w2)
     \<and> unat (14 :: u32) - sizeof_image_tlv demo_abi
         < unat (BOOT_TLV_OFF demo_header) + unat (ih_protect_tlv_size demo_header)"
proof -
  obtain w1 it' w2 where b: "file_tlv_iter_begin demo_abi (ram_os demo_abi demo_config) iter_zero
      (Some demo_header) (Some demo_file) 0x50 True demo_ram = ((0, demo_iter 0x50 True), w1)"
    and n: "file_tlv_iter_next demo_abi (ram_os demo_abi demo_config) (demo_iter 0x50 True) w1
       = Some ((0, 14, 4, 0x50), it', w2)"
    by (simp add: file_tlv_eval demo_iter_def)
  from file_tlv_protected_search [OF demo_reading demo_abi_ok b n] b n show ?thesis
    by blast
qed

end
