(* ===== verification/File_Img_Validate.thy ===== *)
theory File_Img_Validate
  imports File_Tlv
begin

section \<open>Validating an image file (\<open>file_img_validate.c\<close>)\<close>

text \<open>
  The digest over header, code and protected TLVs (\<open>file_img_hash\<close>), the search for the public
  key with a given hash (\<open>file_img_find_key\<close>), the security counter, the handlers of the TLV
  types, and the traversal \<open>file_img_validate\<close> that decides whether an image is authentic.

  Modelled is the build without \<open>MCUBOOT_SIGN_PURE\<close>, \<open>MCUBOOT_HW_KEY\<close>, \<open>MCUBOOT_BUILTIN_KEY\<close> and
  \<open>MCUBOOT_HW_ROLLBACK_PROT\<close> (the branches of the first two name variables that are not declared,
  so they do not compile); the signature type, \<open>CONFIG_BOOT_SIGNATURE_USING_KMU\<close> and
  \<open>ALLOW_ROGUE_TLVS\<close> are fields of the configuration. The buffer that the digest is computed
  through belongs to the caller and is passed in and out with its contents. Local buffers that a
  load has filled are the loaded bytes.

  The theorems say that an accepted image is authentic in the sense of \<open>image_authentic\<close>, that the
  digest of the chunks is the digest of the whole, that validation returns, and that a signature
  without a usable key makes the TLVs before it decide alone (\<open>tlvs_effect\<close>).
\<close>

subsection \<open>The digest\<close>

text \<open>
  The result is the return code, the digest stored through \<open>hash_result\<close> (empty where nothing is
  stored), and the contents of the buffer.
\<close>

partial_function (option) file_img_hash_loop ::
  "'c crypto \<Rightarrow> 'w os \<Rightarrow> fs_file_t \<Rightarrow> u32 \<Rightarrow> u32 \<Rightarrow> u32 \<Rightarrow> 'c \<Rightarrow> byte list \<Rightarrow> 'w
   \<Rightarrow> ((int \<times> byte list \<times> byte list) \<times> 'w) option"
where
  "file_img_hash_loop C E p_file tmp_buf_sz sz off sha_ctx tmp_buf w =
     (if off < sz then
        let blk_sz = (if sz - off > tmp_buf_sz then tmp_buf_sz else sz - off);
            r = load_image_data E p_file off blk_sz w;
            rc = fst (fst r); tmp_buf = overlay (snd (fst r)) tmp_buf; w = snd r
        in
        if rc \<noteq> 0 then Some ((rc, [], tmp_buf), w)
        else file_img_hash_loop C E p_file tmp_buf_sz sz (off + blk_sz)
               (bootutil_sha_update C sha_ctx (take (unat blk_sz) tmp_buf)) tmp_buf w
      else Some ((0, bootutil_sha_finish C sha_ctx, tmp_buf), w))"

definition file_img_hash ::
  "'c crypto \<Rightarrow> 'w os \<Rightarrow> image_header \<Rightarrow> fs_file_t \<Rightarrow> byte list \<Rightarrow> u32 \<Rightarrow> byte list option \<Rightarrow> int \<Rightarrow> 'w
   \<Rightarrow> ((int \<times> byte list \<times> byte list) \<times> 'w) option"
where
  "file_img_hash C E hdr p_file tmp_buf tmp_buf_sz seed seed_len w =
     (let sha_ctx = bootutil_sha_init C;
          sha_ctx = (case seed of
              Some s \<Rightarrow> if seed_len > 0 then bootutil_sha_update C sha_ctx (take (nat seed_len) s) else sha_ctx
            | None \<Rightarrow> sha_ctx);
          sz = ucast (ih_hdr_size hdr) + ih_img_size hdr;
          sz = sz + ucast (ih_protect_tlv_size hdr)
      in file_img_hash_loop C E p_file tmp_buf_sz sz 0 sha_ctx tmp_buf w)"

subsection \<open>What is expected of keys and signatures\<close>

definition EXPECTED_SIG_TLV :: "image_abi \<Rightarrow> config \<Rightarrow> u16" where
  "EXPECTED_SIG_TLV A K =
     (case mcuboot_sign K of
        MCUBOOT_SIGN_RSA_2048 \<Rightarrow> IMAGE_TLV_RSA2048_PSS A
      | MCUBOOT_SIGN_RSA_3072 \<Rightarrow> IMAGE_TLV_RSA3072_PSS A
      | MCUBOOT_SIGN_EC \<Rightarrow> IMAGE_TLV_ECDSA_SIG A
      | MCUBOOT_SIGN_ED25519 \<Rightarrow> IMAGE_TLV_ED25519 A)"

definition SIG_BUF_SIZE :: "config \<Rightarrow> nat" where
  "SIG_BUF_SIZE K =
     (case mcuboot_sign K of
        MCUBOOT_SIGN_RSA_2048 \<Rightarrow> 2048 div 8
      | MCUBOOT_SIGN_RSA_3072 \<Rightarrow> 3072 div 8
      | MCUBOOT_SIGN_EC \<Rightarrow> 128
      | MCUBOOT_SIGN_ED25519 \<Rightarrow> 64)"

definition EXPECTED_SIG_LEN :: "config \<Rightarrow> u16 \<Rightarrow> bool" where
  "EXPECTED_SIG_LEN K x =
     (case mcuboot_sign K of MCUBOOT_SIGN_EC \<Rightarrow> True | _ \<Rightarrow> unat x = SIG_BUF_SIZE K)"

definition EXPECTED_KEY_TLV :: "image_abi \<Rightarrow> u16" where
  "EXPECTED_KEY_TLV A = IMAGE_TLV_KEYHASH A"

definition KEY_BUF_SIZE :: "image_abi \<Rightarrow> nat" where
  "KEY_BUF_SIZE A = IMAGE_HASH_SIZE A"

definition sha_of :: "'c crypto \<Rightarrow> byte list \<Rightarrow> byte list" where
  "sha_of C bs = bootutil_sha_finish C (bootutil_sha_update C (bootutil_sha_init C) bs)"

fun file_img_find_key_loop :: "'c crypto \<Rightarrow> byte list \<Rightarrow> nat \<Rightarrow> int \<Rightarrow> byte list list \<Rightarrow> int" where
  "file_img_find_key_loop C keyhash keyhash_len i [] = - 1"
| "file_img_find_key_loop C keyhash keyhash_len i (key # keys) =
     (let sha_ctx = bootutil_sha_init C;
          sha_ctx = bootutil_sha_update C sha_ctx key;
          hash = bootutil_sha_finish C sha_ctx
      in if take keyhash_len hash = take keyhash_len keyhash then i
         else file_img_find_key_loop C keyhash keyhash_len (i + 1) keys)"

definition file_img_find_key :: "image_abi \<Rightarrow> 'c crypto \<Rightarrow> byte list \<Rightarrow> u8 \<Rightarrow> int" where
  "file_img_find_key A C keyhash keyhash_len =
     (if unat keyhash_len > IMAGE_HASH_SIZE A then - 1
      else file_img_find_key_loop C keyhash (unat keyhash_len) 0 (bootutil_keys C))"

subsection \<open>The security counter\<close>

text \<open>
  \<open>img_security_cnt\<close> points at the four bytes of the counter; the result has the bytes after the
  call.
\<close>

definition file_img_get_security_cnt ::
  "image_abi \<Rightarrow> 'w os \<Rightarrow> image_header option \<Rightarrow> fs_file_t option \<Rightarrow> byte list option \<Rightarrow> 'w
   \<Rightarrow> ((int \<times> byte list option) \<times> 'w) option"
where
  "file_img_get_security_cnt A E hdr p_file img_security_cnt w =
     (case (hdr, p_file, img_security_cnt) of
        (Some h, Some f, Some cnt) \<Rightarrow>
          if ih_protect_tlv_size h = 0 then Some ((BOOT_EBADIMAGE A, Some cnt), w)
          else (case file_tlv_iter_begin A E iter_zero (Some h) (Some f) (IMAGE_TLV_SEC_CNT A) True w of
            ((rc, it), w) \<Rightarrow>
              if rc \<noteq> 0 then Some ((rc, Some cnt), w)
              else do {
                ((rc, off, len, _), it, w) \<leftarrow> file_tlv_iter_next A E it w;
                if rc \<noteq> 0 then Some ((- 1, Some cnt), w)
                else if len \<noteq> 4 then Some ((BOOT_EBADIMAGE A, Some cnt), w)
                else (case load_image_data E f off (ucast len) w of ((rc, data), w) \<Rightarrow>
                  if rc \<noteq> 0 then Some ((BOOT_EFLASH A, Some (overlay data cnt)), w)
                  else Some ((0, Some (overlay data cnt)), w))
              })
      | _ \<Rightarrow> Some ((BOOT_EBADARGS A, img_security_cnt), w))"

subsection \<open>The handlers of the TLV types\<close>

definition allowed_unprot_tlvs :: "image_abi \<Rightarrow> u16 list" where
  "allowed_unprot_tlvs A =
     [IMAGE_TLV_KEYHASH A, IMAGE_TLV_PUBKEY A, IMAGE_TLV_SHA256 A, IMAGE_TLV_SHA384 A,
      IMAGE_TLV_SHA512 A, IMAGE_TLV_RSA2048_PSS A, IMAGE_TLV_ECDSA224 A, IMAGE_TLV_ECDSA_SIG A,
      IMAGE_TLV_RSA3072_PSS A, IMAGE_TLV_ED25519 A, IMAGE_TLV_ENC_RSA2048 A, IMAGE_TLV_ENC_KW A,
      IMAGE_TLV_ENC_EC256 A, IMAGE_TLV_ENC_X25519 A, IMAGE_TLV_ANY A]"

definition file_image_validate_tlv_expected_hash ::
  "image_abi \<Rightarrow> 'c crypto \<Rightarrow> 'w os \<Rightarrow> fs_file_t \<Rightarrow> u32 \<Rightarrow> u16 \<Rightarrow> byte list \<Rightarrow> bool \<Rightarrow> 'w \<Rightarrow> (bool \<times> bool) \<times> 'w"
where
  "file_image_validate_tlv_expected_hash A C E p_file off len hash image_hash_valid w =
     (if IMAGE_HASH_SIZE A \<noteq> unat len then ((False, image_hash_valid), w)
      else (case load_image_data E p_file off (of_nat (IMAGE_HASH_SIZE A)) w of ((rc, buf), w) \<Rightarrow>
        if rc \<noteq> 0 then ((False, image_hash_valid), w)
        else if boot_fih_memequal C (take (IMAGE_HASH_SIZE A) hash) (take (IMAGE_HASH_SIZE A) buf) \<noteq> FIH_SUCCESS
        then ((False, image_hash_valid), w)
        else ((True, True), w)))"

definition file_image_validate_tlv_expected_key ::
  "image_abi \<Rightarrow> 'c crypto \<Rightarrow> 'w os \<Rightarrow> fs_file_t \<Rightarrow> u32 \<Rightarrow> u16 \<Rightarrow> int \<Rightarrow> 'w \<Rightarrow> (bool \<times> int) \<times> 'w"
where
  "file_image_validate_tlv_expected_key A C E p_file off len key_id w =
     (if unat len > KEY_BUF_SIZE A then ((False, key_id), w)
      else (case load_image_data E p_file off (ucast len) w of ((rc, buf), w) \<Rightarrow>
        if rc \<noteq> 0 then ((False, key_id), w)
        else ((True, file_img_find_key A C buf (ucast len)), w)))"

definition file_image_validate_tlv_expected_sig ::
  "image_abi \<Rightarrow> 'c crypto \<Rightarrow> config \<Rightarrow> 'w os \<Rightarrow> fs_file_t \<Rightarrow> u32 \<Rightarrow> u16 \<Rightarrow> byte list \<Rightarrow> fih_ret \<Rightarrow> int \<Rightarrow> 'w
   \<Rightarrow> (bool \<times> fih_ret \<times> int) \<times> 'w"
where
  "file_image_validate_tlv_expected_sig A C K E p_file off len hash valid_signature key_id w =
     (if \<not> EXPECTED_SIG_LEN K len \<or> unat len > SIG_BUF_SIZE K then ((False, valid_signature, key_id), w)
      else (case load_image_data E p_file off (ucast len) w of ((rc, buf), w) \<Rightarrow>
        if rc \<noteq> 0 then ((False, valid_signature, key_id), w)
        else ((True, bootutil_verify_sig C (take (IMAGE_HASH_SIZE A) hash) (take (unat len) buf)
                       (word_of_int key_id), - 1), w)))"

text \<open>The variables of \<open>file_img_validate\<close> that the handlers update through pointers.\<close>

record validation =
  v_it :: file_tlv_iter_t
  v_key_id :: int
  v_image_hash_valid :: bool
  v_valid_signature :: fih_ret

definition tlv_type_allowed :: "image_abi \<Rightarrow> u16 \<Rightarrow> bool" where
  "tlv_type_allowed A ty \<longleftrightarrow>
     ty \<in> set (takeWhile (\<lambda>p. p \<noteq> IMAGE_TLV_ANY A) (allowed_unprot_tlvs A))"

definition file_image_validate_tlv ::
  "image_abi \<Rightarrow> 'c crypto \<Rightarrow> config \<Rightarrow> 'w os \<Rightarrow> fs_file_t \<Rightarrow> byte list \<Rightarrow> validation \<Rightarrow> 'w
   \<Rightarrow> (int \<times> validation \<times> 'w) option"
where
  "file_image_validate_tlv A C K E p_file hash v w = do {
     ((rc, off, len, ty), it, w) \<leftarrow> file_tlv_iter_next A E (v_it v) w;
     let v = v\<lparr>v_it := it\<rparr>;
     if rc \<noteq> 0 then Some (rc, v, w)
     else if \<not> allow_rogue_tlvs K \<and> file_tlv_iter_is_prot it off = 0 \<and> \<not> tlv_type_allowed A ty
     then Some (- 1, v, w)
     else if ty = EXPECTED_HASH_TLV A then
       (case file_image_validate_tlv_expected_hash A C E p_file off len hash (v_image_hash_valid v) w of
          ((ok, valid), w) \<Rightarrow> Some (if ok then 0 else - 1, v\<lparr>v_image_hash_valid := valid\<rparr>, w))
     else if \<not> boot_signature_using_kmu K \<and> ty = EXPECTED_KEY_TLV A then
       (case file_image_validate_tlv_expected_key A C E p_file off len (v_key_id v) w of
          ((ok, key_id), w) \<Rightarrow> Some (if ok then 0 else - 1, v\<lparr>v_key_id := key_id\<rparr>, w))
     else if ty = EXPECTED_SIG_TLV A K then
       if \<not> boot_signature_using_kmu K
          \<and> (v_key_id v < 0 \<or> v_key_id v \<ge> int (length (bootutil_keys C)))
       then Some (1, v\<lparr>v_key_id := - 1\<rparr>, w)
       else (case file_image_validate_tlv_expected_sig A C K E p_file off len hash
                   (v_valid_signature v) (v_key_id v) w of
          ((ok, valid, key_id), w) \<Rightarrow>
            Some (if ok then 0 else - 1, v\<lparr>v_valid_signature := valid, v_key_id := key_id\<rparr>, w))
     else Some (0, v, w)
   }"

subsection \<open>The traversal\<close>

partial_function (option) file_img_validate_loop ::
  "image_abi \<Rightarrow> 'c crypto \<Rightarrow> config \<Rightarrow> 'w os \<Rightarrow> fs_file_t \<Rightarrow> byte list \<Rightarrow> validation \<Rightarrow> 'w
   \<Rightarrow> (int \<times> validation \<times> 'w) option"
where
  "file_img_validate_loop A C K E p_file hash v w =
     Option.bind (file_image_validate_tlv A C K E p_file hash v w) (\<lambda>(rc, v, w).
       if rc < 0 then Some (rc, v, w)
       else if rc > 0 then Some (rc, v, w)
       else file_img_validate_loop A C K E p_file hash v w)"

text \<open>The verdict and the contents of \<open>tmp_buf\<close>.\<close>

definition file_img_validate ::
  "image_abi \<Rightarrow> 'c crypto \<Rightarrow> config \<Rightarrow> 'w os \<Rightarrow> image_header \<Rightarrow> fs_file_t \<Rightarrow> u32 \<Rightarrow> byte list \<Rightarrow> u32
   \<Rightarrow> byte list option \<Rightarrow> int \<Rightarrow> 'w \<Rightarrow> ((fih_ret \<times> byte list) \<times> 'w) option"
where
  "file_img_validate A C K E hdr p_file fa_sz tmp_buf tmp_buf_sz seed seed_len w = do {
     ((rc, hash, tmp_buf), w) \<leftarrow> file_img_hash C E hdr p_file tmp_buf tmp_buf_sz seed seed_len w;
     if rc \<noteq> 0 then Some ((FIH_FAILURE, tmp_buf), w)
     else (case file_tlv_iter_begin A E iter_zero (Some hdr) (Some p_file) (IMAGE_TLV_ANY A) False w of
       ((rc, it), w) \<Rightarrow>
         if rc \<noteq> 0 then Some ((FIH_FAILURE, tmp_buf), w)
         else if iter_tlv_end it > fa_sz then Some ((FIH_FAILURE, tmp_buf), w)
         else do {
           (rc, v, w) \<leftarrow> file_img_validate_loop A C K E p_file hash
             \<lparr>v_it = it, v_key_id = - 1, v_image_hash_valid = False, v_valid_signature = FIH_FAILURE\<rparr> w;
           if rc < 0 then Some ((FIH_FAILURE, tmp_buf), w)
           else if \<not> v_image_hash_valid v then Some ((FIH_FAILURE, tmp_buf), w)
           else Some ((v_valid_signature v, tmp_buf), w)
         })
   }"

subsection \<open>The digest of the chunks is the digest of the whole\<close>

text \<open>What a hash context documents: updates concatenate.\<close>

definition sha_streams :: "'c crypto \<Rightarrow> bool" where
  "sha_streams C \<longleftrightarrow>
     (\<forall>c. bootutil_sha_update C c [] = c)
     \<and> (\<forall>c xs ys. bootutil_sha_update C (bootutil_sha_update C c xs) ys = bootutil_sha_update C c (xs @ ys))"

text \<open>The prefix of an image that is hashed: header, code and protected TLVs.\<close>

definition hashed_size :: "image_header \<Rightarrow> u32" where
  "hashed_size h = BOOT_TLV_OFF h + ucast (ih_protect_tlv_size h)"

context image_source
begin

lemma hash_loop:
  assumes "good w" and "sha_streams C" and "0 < unat bsz" and "unat bsz < 2 ^ 31"
    and "unat bsz \<le> length buf" and "unat off \<le> unat sz" and "off = 0 \<or> unat off \<le> length bs"
  shows "\<exists>rc h buf' w'. file_img_hash_loop C E f bsz sz off ctx buf w = Some ((rc, h, buf'), w')
           \<and> good w' \<and> length buf' = length buf \<and> rc \<le> 0
           \<and> (rc = 0 \<longrightarrow> (unat off < unat sz \<longrightarrow> unat sz \<le> length bs)
               \<and> h = bootutil_sha_finish C (bootutil_sha_update C ctx (bytes_at (unat off) (unat sz - unat off) bs)))
           \<and> (rc \<noteq> 0 \<and> rel \<longrightarrow> length bs < unat sz)"
  using assms(1,5,6,7)
proof (induction "unat sz - unat off" arbitrary: off ctx buf w rule: less_induct)
  case less
  define blk where "blk = (if sz - off > bsz then bsz else sz - off)"
  obtain rc1 data w1 where ld: "load_image_data E f off blk w = ((rc1, data), w1)"
    by (metis prod.exhaust)
  have step: "file_img_hash_loop C E f bsz sz off ctx buf w =
    (if off < sz then
       if rc1 \<noteq> 0 then Some ((rc1, [], overlay data buf), w1)
       else file_img_hash_loop C E f bsz sz (off + blk)
              (bootutil_sha_update C ctx (take (unat blk) (overlay data buf))) (overlay data buf) w1
     else Some ((0, bootutil_sha_finish C ctx, buf), w))"
    by (subst file_img_hash_loop.simps) (simp only: blk_def [symmetric] Let_def ld fst_conv snd_conv)
  show ?case
  proof (cases "off < sz")
    case False
    then have "unat off = unat sz"
      using less.prems(3) by (simp add: word_less_nat_alt)
    then show ?thesis
      using False less.prems assms(2) by (simp add: step sha_streams_def)
  next
    case True
    have sub: "unat (sz - off) = unat sz - unat off"
      using less.prems(3) by (simp add: unat_sub word_le_nat_alt)
    have blk: "unat blk = min (unat bsz) (unat sz - unat off)"
      by (simp add: blk_def sub word_less_nat_alt min_def)
    have le: "unat off + unat blk \<le> unat sz"
      using blk True by (simp add: word_less_nat_alt)
    have blk_pos: "0 < unat blk" "unat blk < 2 ^ 31"
      using True assms(3,4) by (simp_all add: blk word_less_nat_alt)
    have data: "length data \<le> unat blk"
      using load [OF less.prems(1) ld blk_pos(2)] by simp
    then have buf: "length (overlay data buf) = length buf"
      using less.prems(2) blk by simp
    show ?thesis
    proof (cases "rc1 = 0")
      case False
      with load_fail [OF less.prems(1) ld this blk_pos(2)] True buf le show ?thesis
        by (auto simp: step)
    next
      case ok: True
      note l = load_ok [OF less.prems(1) ld [unfolded ok] blk_pos]
      have off2: "unat (off + blk) = unat off + unat blk"
        using l(3) image_length [OF less.prems(1)] by (intro unat_plus_small) simp
      have data: "take (unat blk) (overlay data buf) = bytes_at (unat off) (unat blk) bs"
        using l by (simp add: take_overlay)
      let ?ctx = "bootutil_sha_update C ctx (bytes_at (unat off) (unat blk) bs)"
      have dec: "unat sz - unat (off + blk) < unat sz - unat off"
        using True blk_pos off2 by (simp add: word_less_nat_alt)
      have cat: "bytes_at (unat off) (unat blk) bs @ bytes_at (unat (off + blk)) (unat sz - unat (off + blk)) bs
          = bytes_at (unat off) (unat sz - unat off) bs"
        unfolding off2 bytes_at_append_bytes_at using le by simp
      from less.hyps [OF dec l(1), of "overlay data buf" ?ctx]
      obtain rc h buf' w' where run: "file_img_hash_loop C E f bsz sz (off + blk) ?ctx (overlay data buf) w1
            = Some ((rc, h, buf'), w')"
        and res: "good w'" "length buf' = length buf" "rc \<le> 0"
          "rc = 0 \<Longrightarrow> unat (off + blk) < unat sz \<Longrightarrow> unat sz \<le> length bs"
          "rc = 0 \<Longrightarrow> h = bootutil_sha_finish C (bootutil_sha_update C ?ctx
             (bytes_at (unat (off + blk)) (unat sz - unat (off + blk)) bs))"
          "rc \<noteq> 0 \<Longrightarrow> rel \<Longrightarrow> length bs < unat sz"
        using less.prems(2) buf le l(3) off2 by auto
      have "rc = 0 \<Longrightarrow> unat sz \<le> length bs"
        using res(4) l(3) off2 by linarith
      then show ?thesis
        using run res True ok assms(2) cat by (simp add: step data sha_streams_def)
    qed
  qed
qed

end

subsection \<open>What an accepted image contains: the specification\<close>

text \<open>All entries of a TLV area, each with the offset of its payload.\<close>

function tlv_entries :: "image_abi \<Rightarrow> byte list \<Rightarrow> bool \<Rightarrow> nat \<Rightarrow> nat \<Rightarrow> nat \<Rightarrow> (nat \<times> image_tlv) list" where
  "tlv_entries A bs hp pe te off =
     (case tlv_find A bs (IMAGE_TLV_ANY A) False hp pe te off of
        Tlv_Entry pay t \<Rightarrow>
          (pay, t) # (if pay \<le> off then [] else tlv_entries A bs hp pe te (pay + unat (it_len t)))
      | _ \<Rightarrow> [])"
  by pat_completeness auto
termination
proof (relation "measure (\<lambda>(A, bs, hp, pe, te, off). length bs - off)", goal_cases)
  case (2 A bs hp pe te off pay t)
  then show ?case
    using tlv_find_entry [OF 2(1)] by auto
qed simp

declare tlv_entries.simps [simp del]

text \<open>The TLV entries of an image with a well-formed TLV area.\<close>

definition image_tlvs :: "image_abi \<Rightarrow> byte list \<Rightarrow> image_header \<Rightarrow> (nat \<times> image_tlv) list" where
  "image_tlvs A bs h =
     (case tlv_region A bs h of None \<Rightarrow> []
      | Some (pe, te) \<Rightarrow> tlv_entries A bs (0 < ih_protect_tlv_size h) pe te
                           (unat (BOOT_TLV_OFF h) + sizeof_image_tlv_info A))"

abbreviation tlv_payload :: "byte list \<Rightarrow> nat \<Rightarrow> image_tlv \<Rightarrow> byte list" where
  "tlv_payload bs pay t \<equiv> bytes_at pay (unat (it_len t)) bs"

definition hash_listed :: "image_abi \<Rightarrow> 'c crypto \<Rightarrow> byte list \<Rightarrow> byte list \<Rightarrow> (nat \<times> image_tlv) list \<Rightarrow> bool" where
  "hash_listed A C bs H es \<longleftrightarrow>
     (\<exists>(pay, t) \<in> set es. it_type t = EXPECTED_HASH_TLV A \<and> unat (it_len t) = IMAGE_HASH_SIZE A
        \<and> boot_fih_memequal C (take (IMAGE_HASH_SIZE A) H) (tlv_payload bs pay t) = FIH_SUCCESS)"

definition key_listed :: "image_abi \<Rightarrow> 'c crypto \<Rightarrow> byte list \<Rightarrow> (nat \<times> image_tlv) list \<Rightarrow> nat \<Rightarrow> bool" where
  "key_listed A C bs es k \<longleftrightarrow> k < length (bootutil_keys C) \<and>
     (\<exists>(pay, t) \<in> set es. it_type t = EXPECTED_KEY_TLV A \<and> unat (it_len t) \<le> IMAGE_HASH_SIZE A
        \<and> take (unat (it_len t)) (sha_of C (bootutil_keys C ! k)) = tlv_payload bs pay t)"

text \<open>
  A signature over the digest that verifies under a built-in key whose hash is listed before it;
  with the keys in the key management unit the verification gets the invalid index -1.
\<close>

definition signature_listed ::
  "image_abi \<Rightarrow> 'c crypto \<Rightarrow> config \<Rightarrow> byte list \<Rightarrow> byte list \<Rightarrow> (nat \<times> image_tlv) list \<Rightarrow> bool"
where
  "signature_listed A C K bs H es \<longleftrightarrow>
     (\<exists>es1 pay t es2 k. es = es1 @ (pay, t) # es2 \<and> it_type t = EXPECTED_SIG_TLV A K
        \<and> EXPECTED_SIG_LEN K (it_len t) \<and> unat (it_len t) \<le> SIG_BUF_SIZE K
        \<and> bootutil_verify_sig C (take (IMAGE_HASH_SIZE A) H) (tlv_payload bs pay t) (word_of_int k) = FIH_SUCCESS
        \<and> (if boot_signature_using_kmu K then k = - 1 else 0 \<le> k \<and> key_listed A C bs es1 (nat k)))"

definition entry_allowed :: "image_abi \<Rightarrow> config \<Rightarrow> nat \<Rightarrow> nat \<times> image_tlv \<Rightarrow> bool" where
  "entry_allowed A K pe e \<longleftrightarrow> allow_rogue_tlvs K \<or> fst e < pe \<or> tlv_type_allowed A (it_type (snd e))"

text \<open>
  What validation establishes: the TLV area is well-formed and ends inside the destination, and a
  prefix \<open>es\<close> of its entries, all of them permitted where they stand, lists the digest of the
  hashed part of the image and a valid signature over it.
\<close>

definition image_authentic ::
  "image_abi \<Rightarrow> 'c crypto \<Rightarrow> config \<Rightarrow> byte list \<Rightarrow> image_header \<Rightarrow> nat \<Rightarrow> bool"
where
  "image_authentic A C K bs h fa_sz \<longleftrightarrow>
     (\<exists>pe te es es'. tlv_region A bs h = Some (pe, te) \<and> pe \<le> length bs \<and> te \<le> fa_sz
        \<and> image_tlvs A bs h = es @ es' \<and> list_all (entry_allowed A K pe) es
        \<and> hash_listed A C bs (sha_of C (take pe bs)) es
        \<and> signature_listed A C K bs (sha_of C (take pe bs)) es)"

lemma hash_listed_append: "hash_listed A C bs H es \<Longrightarrow> hash_listed A C bs H (es @ es')"
  by (auto simp: hash_listed_def)

lemma key_listed_append: "key_listed A C bs es k \<Longrightarrow> key_listed A C bs (es @ es') k"
  by (auto simp: key_listed_def)

lemma signature_listed_append:
  "signature_listed A C K bs H es \<Longrightarrow> signature_listed A C K bs H (es @ es')"
  unfolding signature_listed_def by (metis append.assoc append_Cons)

lemmas listed_append = hash_listed_append key_listed_append signature_listed_append

lemma tlv_entries_Cons:
  assumes "tlv_find A bs (IMAGE_TLV_ANY A) False hp pe te off = Tlv_Entry pay t"
    and "0 < sizeof_image_tlv A"
  shows "tlv_entries A bs hp pe te off = (pay, t) # tlv_entries A bs hp pe te (pay + unat (it_len t))"
    and "off < length bs" and "off < pay"
proof -
  show "off < length bs" and "off < pay"
    using tlv_find_entry [OF assms(1)] assms(2) by auto
  then show "tlv_entries A bs hp pe te off = (pay, t) # tlv_entries A bs hp pe te (pay + unat (it_len t))"
    by (subst tlv_entries.simps) (simp add: assms(1))
qed

lemma find_key_loop:
  "file_img_find_key_loop C kh n i keys = r \<Longrightarrow>
   r = - 1 \<or> i \<le> r \<and> nat (r - i) < length keys \<and> take n (sha_of C (keys ! nat (r - i))) = take n kh"
proof (induction keys arbitrary: i)
  case Nil
  then show ?case
    by simp
next
  case (Cons key keys)
  show ?case
  proof (cases "r = i")
    case True
    with Cons show ?thesis
      by (fastforce simp: Let_def sha_of_def split: if_splits)
  next
    case False
    with Cons.prems have "file_img_find_key_loop C kh n (i + 1) keys = r"
      by (auto simp: Let_def split: if_splits)
    from Cons.IH [OF this] have "r = - 1 \<or> i < r \<and> nat (r - i) = Suc (nat (r - (i + 1)))
        \<and> nat (r - (i + 1)) < length keys \<and> take n (sha_of C (keys ! nat (r - (i + 1)))) = take n kh"
      by auto
    then show ?thesis
      by auto
  qed
qed

lemma find_key_answer:
  assumes "file_img_find_key A C kh n = r"
  shows "r = - 1 \<or> 0 \<le> r \<and> nat r < length (bootutil_keys C)
    \<and> take (unat n) (sha_of C (bootutil_keys C ! nat r)) = take (unat n) kh"
  using find_key_loop [of C kh "unat n" 0 "bootutil_keys C" r] assms
  by (auto simp: file_img_find_key_def split: if_splits)

subsection \<open>The traversal keeps to the specification\<close>

text \<open>
  The invariant of the traversal: \<open>es\<close> are the entries handled so far, and the iterator stands
  before the remaining ones.
\<close>

definition validation_acc ::
  "image_abi \<Rightarrow> 'c crypto \<Rightarrow> config \<Rightarrow> byte list \<Rightarrow> byte list \<Rightarrow> nat \<Rightarrow> (nat \<times> image_tlv) list
   \<Rightarrow> validation \<Rightarrow> bool"
where
  "validation_acc A C K bs H pe es v \<longleftrightarrow>
     list_all (entry_allowed A K pe) es
     \<and> (v_image_hash_valid v \<longrightarrow> hash_listed A C bs H es)
     \<and> (v_valid_signature v = FIH_SUCCESS \<longrightarrow> signature_listed A C K bs H es)
     \<and> - 1 \<le> v_key_id v \<and> (0 \<le> v_key_id v \<longrightarrow> key_listed A C bs es (nat (v_key_id v)))
     \<and> (boot_signature_using_kmu K \<longrightarrow> v_key_id v = - 1)"

definition validation_inv ::
  "image_abi \<Rightarrow> 'c crypto \<Rightarrow> config \<Rightarrow> byte list \<Rightarrow> image_header \<Rightarrow> fs_file_t \<Rightarrow> byte list \<Rightarrow> nat \<Rightarrow> nat
   \<Rightarrow> (nat \<times> image_tlv) list \<Rightarrow> validation \<Rightarrow> bool"
where
  "validation_inv A C K bs h f H pe te es v \<longleftrightarrow>
     iter_ok h f (v_it v) \<and> iter_type (v_it v) = IMAGE_TLV_ANY A \<and> \<not> iter_prot (v_it v)
     \<and> unat (iter_prot_end (v_it v)) = pe \<and> unat (iter_tlv_end (v_it v)) = te
     \<and> image_tlvs A bs h = es @ tlv_entries A bs (0 < ih_protect_tlv_size h) pe te
                                   (unat (iter_tlv_off (v_it v)))
     \<and> validation_acc A C K bs H pe es v"

lemma validation_acc_snoc:
  assumes "validation_acc A C K bs H pe es v" and "entry_allowed A K pe e"
  shows "validation_acc A C K bs H pe (es @ [e]) (v\<lparr>v_it := it\<rparr>)"
  using assms by (simp add: validation_acc_def listed_append)

text \<open>What is done about an entry that may stand where it does.\<close>

definition handle_tlv ::
  "image_abi \<Rightarrow> 'c crypto \<Rightarrow> config \<Rightarrow> 'w os \<Rightarrow> fs_file_t \<Rightarrow> byte list \<Rightarrow> u32 \<Rightarrow> u16 \<Rightarrow> u16 \<Rightarrow> validation \<Rightarrow> 'w
   \<Rightarrow> int \<times> validation \<times> 'w"
where
  "handle_tlv A C K E f H off len ty v w =
     (if ty = EXPECTED_HASH_TLV A then
       (case file_image_validate_tlv_expected_hash A C E f off len H (v_image_hash_valid v) w of
          ((ok, valid), w) \<Rightarrow> (if ok then 0 else - 1, v\<lparr>v_image_hash_valid := valid\<rparr>, w))
      else if \<not> boot_signature_using_kmu K \<and> ty = EXPECTED_KEY_TLV A then
       (case file_image_validate_tlv_expected_key A C E f off len (v_key_id v) w of
          ((ok, key_id), w) \<Rightarrow> (if ok then 0 else - 1, v\<lparr>v_key_id := key_id\<rparr>, w))
      else if ty = EXPECTED_SIG_TLV A K then
       if \<not> boot_signature_using_kmu K
          \<and> (v_key_id v < 0 \<or> v_key_id v \<ge> int (length (bootutil_keys C)))
       then (1, v\<lparr>v_key_id := - 1\<rparr>, w)
       else (case file_image_validate_tlv_expected_sig A C K E f off len H
                   (v_valid_signature v) (v_key_id v) w of
          ((ok, valid, key_id), w) \<Rightarrow>
            (if ok then 0 else - 1, v\<lparr>v_valid_signature := valid, v_key_id := key_id\<rparr>, w))
      else (0, v, w))"

lemma file_image_validate_tlv_handles:
  "file_image_validate_tlv A C K E f H v w = do {
     ((rc, off, len, ty), it, w) \<leftarrow> file_tlv_iter_next A E (v_it v) w;
     let v = v\<lparr>v_it := it\<rparr>;
     if rc \<noteq> 0 then Some (rc, v, w)
     else if \<not> allow_rogue_tlvs K \<and> file_tlv_iter_is_prot it off = 0 \<and> \<not> tlv_type_allowed A ty
     then Some (- 1, v, w)
     else Some (handle_tlv A C K E f H off len ty v w)
   }"
  by (simp add: file_image_validate_tlv_def handle_tlv_def Let_def if_distrib [where f = Some] prod.case_distrib [where h = Some]
      cong: if_cong)

context image_source
begin

lemma expected_hash:
  assumes "good w" and "abi_ok A"
    and "file_image_validate_tlv_expected_hash A C E f off len H valid w = ((ok, valid'), w')"
  shows "good w' \<and> (ok \<longrightarrow> valid' \<and> unat len = IMAGE_HASH_SIZE A
     \<and> boot_fih_memequal C (take (IMAGE_HASH_SIZE A) H) (bytes_at (unat off) (unat len) bs) = FIH_SUCCESS)"
proof -
  obtain rc buf w1 where ld: "load_image_data E f off (of_nat (IMAGE_HASH_SIZE A)) w = ((rc, buf), w1)"
    by (metis prod.exhaust)
  have n: "unat (of_nat (IMAGE_HASH_SIZE A) :: u32) = IMAGE_HASH_SIZE A"
    and n31: "unat (of_nat (IMAGE_HASH_SIZE A) :: u32) < 2 ^ 31"
    using assms(2) by (simp_all add: abi_ok_def)
  have run: "file_image_validate_tlv_expected_hash A C E f off len H valid w =
    (if IMAGE_HASH_SIZE A \<noteq> unat len then ((False, valid), w)
     else if rc \<noteq> 0 then ((False, valid), w1)
     else if boot_fih_memequal C (take (IMAGE_HASH_SIZE A) H) (take (IMAGE_HASH_SIZE A) buf) \<noteq> FIH_SUCCESS
     then ((False, valid), w1) else ((True, True), w1))"
    by (simp only: file_image_validate_tlv_expected_hash_def ld prod.case)
  show ?thesis
    using assms(1,3) load [OF assms(1) ld n31, unfolded n] unfolding run
    by (auto split: if_splits)
qed

lemma expected_key:
  assumes "good w" and "abi_ok A"
    and "file_image_validate_tlv_expected_key A C E f off len k w = ((ok, k'), w')"
  shows "good w' \<and> (ok \<longrightarrow> - 1 \<le> k' \<and> (0 \<le> k' \<longrightarrow> nat k' < length (bootutil_keys C)
     \<and> unat len \<le> IMAGE_HASH_SIZE A
     \<and> take (unat len) (sha_of C (bootutil_keys C ! nat k')) = bytes_at (unat off) (unat len) bs))"
proof -
  obtain rc buf w1 where ld: "load_image_data E f off (ucast len) w = ((rc, buf), w1)"
    by (metis prod.exhaust)
  have n31: "unat (ucast len :: u32) < 2 ^ 31"
    using unat_u16_bound [of len] by simp
  have n: "unat (ucast len :: u8) = unat len" if "unat len \<le> IMAGE_HASH_SIZE A"
    using that assms(2) by (simp add: abi_ok_def unsigned_ucast_eq take_bit_nat_eq_self)
  show ?thesis
    using assms(1,3) load [OF assms(1) ld n31] find_key_answer [of A C buf "ucast len" k'] n
    by (auto simp: file_image_validate_tlv_expected_key_def ld KEY_BUF_SIZE_def split: if_splits)
qed

lemma expected_sig:
  assumes "good w"
    and "file_image_validate_tlv_expected_sig A C K E f off len H s k w = ((ok, s', k'), w')"
  shows "good w' \<and> (ok \<longrightarrow> k' = - 1 \<and> EXPECTED_SIG_LEN K len \<and> unat len \<le> SIG_BUF_SIZE K
     \<and> s' = bootutil_verify_sig C (take (IMAGE_HASH_SIZE A) H) (bytes_at (unat off) (unat len) bs)
              (word_of_int k))"
proof -
  obtain rc buf w1 where ld: "load_image_data E f off (ucast len) w = ((rc, buf), w1)"
    by (metis prod.exhaust)
  have n31: "unat (ucast len :: u32) < 2 ^ 31"
    using unat_u16_bound [of len] by simp
  show ?thesis
    using assms load [OF assms(1) ld n31]
    by (auto simp: file_image_validate_tlv_expected_sig_def ld split: if_splits)
qed

lemma handle_tlv_acc:
  assumes w: "good w" and A: "abi_ok A" and acc: "validation_acc A C K bs H pe es v"
    and allowed: "entry_allowed A K pe (unat off, t)" and t: "len = it_len t" "ty = it_type t"
    and run: "handle_tlv A C K E f H off len ty (v\<lparr>v_it := it\<rparr>) w = (rc, v', w')"
  shows "good w' \<and> (0 \<le> rc \<longrightarrow> v_it v' = it \<and> validation_acc A C K bs H pe (es @ [(unat off, t)]) v')"
proof -
  let ?v = "v\<lparr>v_it := it\<rparr>" and ?es = "es @ [(unat off, t)]"
  let ?key = "\<not> boot_signature_using_kmu K \<and> ty = EXPECTED_KEY_TLV A"
  let ?unknown = "\<not> boot_signature_using_kmu K \<and> (v_key_id v < 0 \<or> v_key_id v \<ge> int (length (bootutil_keys C)))"
  note acc1 = validation_acc_snoc [OF acc allowed, of it]
  consider (hash) "ty = EXPECTED_HASH_TLV A" | (key) "ty \<noteq> EXPECTED_HASH_TLV A" ?key
    | (skip) "ty \<noteq> EXPECTED_HASH_TLV A" "\<not> ?key" "ty = EXPECTED_SIG_TLV A K" ?unknown
    | (sig) "ty \<noteq> EXPECTED_HASH_TLV A" "\<not> ?key" "ty = EXPECTED_SIG_TLV A K" "\<not> ?unknown"
    | (other) "ty \<noteq> EXPECTED_HASH_TLV A" "\<not> ?key" "ty \<noteq> EXPECTED_SIG_TLV A K"
    by blast
  then show ?thesis
  proof cases
    case hash
    obtain ok valid w2 where r: "file_image_validate_tlv_expected_hash A C E f off len H (v_image_hash_valid v) w
        = ((ok, valid), w2)"
      by (metis prod.exhaust)
    note e = expected_hash [OF w A r]
    have "ok \<Longrightarrow> hash_listed A C bs H ?es"
      using e hash t by (auto simp: hash_listed_def)
    then show ?thesis
      using run hash r e acc1 by (cases ok) (auto simp: handle_tlv_def validation_acc_def)
  next
    case key
    obtain ok k w2 where r: "file_image_validate_tlv_expected_key A C E f off len (v_key_id v) w = ((ok, k), w2)"
      by (metis prod.exhaust)
    note e = expected_key [OF w A r]
    have "ok \<Longrightarrow> 0 \<le> k \<Longrightarrow> key_listed A C bs ?es (nat k)"
      using e key t by (auto simp: key_listed_def)
    then show ?thesis
      using run key r e acc1 by (cases ok) (auto simp: handle_tlv_def validation_acc_def)
  next
    case skip
    then show ?thesis
      using run acc1 w by (auto simp: handle_tlv_def validation_acc_def)
  next
    case sig
    obtain ok s k w2 where r: "file_image_validate_tlv_expected_sig A C K E f off len H
        (v_valid_signature v) (v_key_id v) w = ((ok, s, k), w2)"
      by (metis prod.exhaust)
    note e = expected_sig [OF w r]
    have res: "(rc, v', w') = (if ok then 0 else - 1, ?v\<lparr>v_valid_signature := s, v_key_id := k\<rparr>, w2)"
      unfolding run [symmetric] handle_tlv_def using sig r by auto
    have "if boot_signature_using_kmu K then v_key_id v = - 1
        else 0 \<le> v_key_id v \<and> key_listed A C bs es (nat (v_key_id v))"
      using acc sig(4) by (auto simp: validation_acc_def)
    then have "signature_listed A C K bs H ?es" if "ok" "s = FIH_SUCCESS"
      unfolding signature_listed_def
      by (intro exI [of _ es] exI [of _ "unat off"] exI [of _ t] exI [of _ "[]"]
          exI [of _ "v_key_id v"]) (use e that sig(3) t in simp)
    then show ?thesis
      using res e acc1 by (cases ok) (auto simp: validation_acc_def)
  next
    case other
    then have "(rc, v', w') = (0, ?v, w)"
      unfolding run [symmetric] handle_tlv_def by auto
    then show ?thesis
      using w acc1 by simp
  qed
qed

lemma validate_tlv_step:
  assumes "good w" and "abi_ok A" and inv: "validation_inv A C K bs h f H pe te es v"
  shows "\<exists>rc v' w' es'. file_image_validate_tlv A C K E f H v w = Some (rc, v', w') \<and> good w'
    \<and> (0 \<le> rc \<longrightarrow> (\<exists>r. image_tlvs A bs h = es' @ r) \<and> validation_acc A C K bs H pe es' v')
    \<and> (rc = 0 \<longrightarrow> validation_inv A C K bs h f H pe te es' v'
         \<and> length bs - unat (iter_tlv_off (v_it v')) < length bs - unat (iter_tlv_off (v_it v)))"
proof -
  let ?it = "v_it v"
  have ok: "iter_ok h f ?it" and acc: "validation_acc A C K bs H pe es v"
    using inv by (simp_all add: validation_inv_def)
  obtain rc off len ty it w1 where nx: "file_tlv_iter_next A E ?it w = Some ((rc, off, len, ty), it, w1)"
    and w1: "good w1" and ans: "iter_answer rel A bs h f ?it ((rc, off, len, ty), it)"
    using iter_next_answer [OF assms(1) ok assms(2)] by (metis prod.exhaust)
  have it: "iter_ok h f it" "it = ?it\<lparr>iter_tlv_off := iter_tlv_off it\<rparr>"
    using ans by (auto simp: iter_answer_def)
  have it_f: "iter_type it = iter_type ?it" "iter_prot it = iter_prot ?it"
      "iter_prot_end it = iter_prot_end ?it" "iter_tlv_end it = iter_tlv_end ?it"
    by (subst it(2), simp)+
  show ?thesis
  proof (cases "rc = 0")
    case False
    then have "rc = - 1 \<or> rc = 1"
      using ans by (auto simp: iter_answer_def)
    moreover have "file_image_validate_tlv A C K E f H v w = Some (rc, v\<lparr>v_it := it\<rparr>, w1)"
      using False by (simp add: file_image_validate_tlv_def nx)
    moreover have "validation_acc A C K bs H pe es (v\<lparr>v_it := it\<rparr>)"
      using acc by (simp add: validation_acc_def)
    moreover have "\<exists>r. image_tlvs A bs h = es @ r"
      using inv by (auto simp: validation_inv_def)
    ultimately show ?thesis
      using w1 False by blast
  next
    case True
    then obtain t where find: "iter_find A bs h ?it = Tlv_Entry (unat off) t"
      and t: "len = it_len t" "ty = it_type t" and off': "unat (iter_tlv_off it) = unat off + unat len"
      using ans by (auto simp: iter_answer_def)
    have st: "0 < sizeof_image_tlv A"
      using assms(2) by (simp add: abi_ok_def)
    let ?v = "v\<lparr>v_it := it\<rparr>" and ?es = "es @ [(unat off, t)]"
    have "tlv_find A bs (IMAGE_TLV_ANY A) False (0 < ih_protect_tlv_size h) pe te
        (unat (iter_tlv_off ?it)) = Tlv_Entry (unat off) t"
      using find inv by (simp add: validation_inv_def)
    note es = tlv_entries_Cons [OF this st]
    have dec: "length bs - unat (iter_tlv_off it) < length bs - unat (iter_tlv_off ?it)"
      using es(2,3) off' by linarith
    have img: "image_tlvs A bs h = ?es @ tlv_entries A bs (0 < ih_protect_tlv_size h) pe te
                                   (unat (iter_tlv_off it))"
      using inv es(1) off' t by (simp add: validation_inv_def)
    have inv': "validation_inv A C K bs h f H pe te ?es v'"
      if "v_it v' = it" "validation_acc A C K bs H pe ?es v'" for v'
      using that inv img it(1) it_f by (simp add: validation_inv_def)
    define bad where "bad \<longleftrightarrow> \<not> allow_rogue_tlvs K \<and> file_tlv_iter_is_prot it off = 0 \<and> \<not> tlv_type_allowed A ty"
    obtain rc' v' w' where hd: "handle_tlv A C K E f H off len ty ?v w1 = (rc', v', w')"
      by (metis prod.exhaust)
    have run: "file_image_validate_tlv A C K E f H v w = (if bad then Some (- 1, ?v, w1) else Some (rc', v', w'))"
      by (simp add: file_image_validate_tlv_handles nx True Let_def bad_def hd)
    show ?thesis
    proof (cases bad)
      case False
      have "entry_allowed A K pe (unat off, t)"
        using False inv it(1) it_f t
        by (auto simp: bad_def entry_allowed_def file_tlv_iter_is_prot_def iter_ok_def
            validation_inv_def word_less_nat_alt split: if_splits)
      from handle_tlv_acc [OF w1 assms(2) acc this t hd]
      show ?thesis
        using run False img dec inv' by (intro exI [of _ rc'] exI [of _ v'] exI [of _ w'] exI [of _ ?es]) auto
    qed (use run w1 in auto)
  qed
qed

lemma validate_loop:
  assumes "good w" and "abi_ok A" and "validation_inv A C K bs h f H pe te es v"
  shows "\<exists>rc v' w' es'. file_img_validate_loop A C K E f H v w = Some (rc, v', w') \<and> good w'
    \<and> (0 \<le> rc \<longrightarrow> (\<exists>r. image_tlvs A bs h = es' @ r) \<and> validation_acc A C K bs H pe es' v')"
  using assms(1,3)
proof (induction "length bs - unat (iter_tlv_off (v_it v))" arbitrary: v w es rule: less_induct)
  case less
  obtain rc v1 w1 es1 where step: "file_image_validate_tlv A C K E f H v w = Some (rc, v1, w1)"
    and w1: "good w1"
    and res: "0 \<le> rc \<Longrightarrow> (\<exists>r. image_tlvs A bs h = es1 @ r) \<and> validation_acc A C K bs H pe es1 v1"
      "rc = 0 \<Longrightarrow> validation_inv A C K bs h f H pe te es1 v1"
      "rc = 0 \<Longrightarrow> length bs - unat (iter_tlv_off (v_it v1)) < length bs - unat (iter_tlv_off (v_it v))"
    using validate_tlv_step [OF less.prems(1) assms(2) less.prems(2)] by blast
  have run: "file_img_validate_loop A C K E f H v w
      = (if rc = 0 then file_img_validate_loop A C K E f H v1 w1 else Some (rc, v1, w1))"
    by (subst file_img_validate_loop.simps) (simp add: step)
  show ?case
  proof (cases "rc = 0")
    case True
    from less.hyps [OF res(3) [OF this] w1 res(2) [OF this]] show ?thesis
      by (simp add: run True)
  next
    case False
    then show ?thesis
      using run w1 res(1) by auto
  qed
qed

lemma file_img_validate_answer:
  assumes "good w" and "abi_ok A" and "sha_streams C"
    and "0 < unat bsz" and "unat bsz < 2 ^ 31" and "unat bsz \<le> length buf"
  shows "\<exists>r buf' w'. file_img_validate A C K E h f fa_sz buf bsz None 0 w = Some ((r, buf'), w')
    \<and> good w' \<and> length buf' = length buf
    \<and> (r = FIH_SUCCESS \<longrightarrow> image_authentic A C K bs h (unat fa_sz))"
proof -
  let ?sz = "hashed_size h"
  obtain rc H buf1 w1 where hash: "file_img_hash C E h f buf bsz None 0 w = Some ((rc, H, buf1), w1)"
    and w1: "good w1" and buf1: "length buf1 = length buf"
    and H: "rc = 0 \<Longrightarrow> H = bootutil_sha_finish C (bootutil_sha_update C (bootutil_sha_init C)
         (bytes_at 0 (unat ?sz) bs))"
    using hash_loop [OF assms(1,3,4,5,6), of 0 ?sz "bootutil_sha_init C"]
    by (auto simp: file_img_hash_def hashed_size_def BOOT_TLV_OFF_def)
  obtain rc2 it w2 where bg: "file_tlv_iter_begin A E iter_zero (Some h) (Some f)
      (IMAGE_TLV_ANY A) False w1 = ((rc2, it), w2)"
    by (metis prod.exhaust)
  note b = iter_begin_answer [OF w1 assms(2) bg]
  show ?thesis
  proof (cases "rc = 0 \<and> rc2 = 0 \<and> \<not> iter_tlv_end it > fa_sz")
    case False
    then have "file_img_validate A C K E h f fa_sz buf bsz None 0 w
        = Some ((FIH_FAILURE, buf1), if rc = 0 then w2 else w1)"
      by (auto simp: file_img_validate_def hash bg)
    then show ?thesis
      using w1 b buf1 by simp
  next
    case True
    let ?v = "\<lparr>v_it = it, v_key_id = - 1, v_image_hash_valid = False, v_valid_signature = FIH_FAILURE\<rparr>"
    define pe where "pe = unat (iter_prot_end it)"
    define te where "te = unat (iter_tlv_end it)"
    have region: "tlv_region A bs h = Some (pe, te)"
      using b True by (simp add: pe_def te_def)
    note reg = tlv_region_bounds [OF region]
    have "unat ?sz = pe"
      unfolding hashed_size_def using reg(1) image_length [OF w1] reg(2) by (subst unat_plus_small) simp_all
    then have H: "H = sha_of C (take pe bs)"
      using H True by (simp add: sha_of_def bytes_at_def)
    have "validation_inv A C K bs h f H pe te [] ?v"
      using b True region
      by (simp add: validation_inv_def validation_acc_def image_tlvs_def pe_def te_def)
    from validate_loop [OF conjunct1 [OF b] assms(2) this]
    obtain rc3 v w3 es where run: "file_img_validate_loop A C K E f H ?v w2 = Some (rc3, v, w3)"
      and w3: "good w3" and acc: "0 \<le> rc3 \<Longrightarrow> (\<exists>r. image_tlvs A bs h = es @ r)"
        "0 \<le> rc3 \<Longrightarrow> validation_acc A C K bs H pe es v"
      by blast
    have "file_img_validate A C K E h f fa_sz buf bsz None 0 w
      = Some ((if rc3 < 0 \<or> \<not> v_image_hash_valid v then FIH_FAILURE else v_valid_signature v, buf1), w3)"
      using True by (simp add: file_img_validate_def hash bg run)
    moreover have "image_authentic A C K bs h (unat fa_sz)"
      if "\<not> (rc3 < 0 \<or> \<not> v_image_hash_valid v)" "v_valid_signature v = FIH_SUCCESS"
    proof -
      have "te \<le> unat fa_sz"
        using True by (simp add: te_def word_less_nat_alt not_less)
      then show ?thesis
        unfolding image_authentic_def using region reg(2) acc that H
        by (auto simp: validation_acc_def)
    qed
    ultimately show ?thesis
      using w3 buf1 by auto
  qed
qed

end

subsection \<open>The traversal as a function of the entries\<close>

text \<open>
  What an entry does to the key, the digest flag and the signature verdict: None where the entry
  is refused, and for a signature without a key, which ends the traversal.
\<close>

type_synonym tlvs_verdict = "int \<times> bool \<times> fih_ret"

definition tlv_effect ::
  "image_abi \<Rightarrow> 'c crypto \<Rightarrow> config \<Rightarrow> byte list \<Rightarrow> byte list \<Rightarrow> nat \<Rightarrow> nat \<times> image_tlv \<Rightarrow> tlvs_verdict
   \<Rightarrow> tlvs_verdict option"
where
  "tlv_effect A C K bs H pe = (\<lambda>(pay, t) (k, hash_ok, sig).
     if \<not> entry_allowed A K pe (pay, t) then None
     else if it_type t = EXPECTED_HASH_TLV A then
       if unat (it_len t) = IMAGE_HASH_SIZE A \<and> pay + unat (it_len t) \<le> length bs
          \<and> boot_fih_memequal C (take (IMAGE_HASH_SIZE A) H) (tlv_payload bs pay t) = FIH_SUCCESS
       then Some (k, True, sig) else None
     else if \<not> boot_signature_using_kmu K \<and> it_type t = EXPECTED_KEY_TLV A then
       if unat (it_len t) \<le> KEY_BUF_SIZE A \<and> pay + unat (it_len t) \<le> length bs
       then Some (file_img_find_key A C (tlv_payload bs pay t) (ucast (it_len t)), hash_ok, sig) else None
     else if it_type t = EXPECTED_SIG_TLV A K then
       if (boot_signature_using_kmu K \<or> 0 \<le> k \<and> k < int (length (bootutil_keys C)))
          \<and> EXPECTED_SIG_LEN K (it_len t) \<and> unat (it_len t) \<le> SIG_BUF_SIZE K
          \<and> pay + unat (it_len t) \<le> length bs
       then Some (- 1, hash_ok, bootutil_verify_sig C (take (IMAGE_HASH_SIZE A) H) (tlv_payload bs pay t)
                                  (word_of_int k)) else None
     else Some (k, hash_ok, sig))"

primrec tlvs_effect ::
  "image_abi \<Rightarrow> 'c crypto \<Rightarrow> config \<Rightarrow> byte list \<Rightarrow> byte list \<Rightarrow> nat \<Rightarrow> (nat \<times> image_tlv) list \<Rightarrow> tlvs_verdict
   \<Rightarrow> tlvs_verdict option"
where
  "tlvs_effect A C K bs H pe [] s = Some s"
| "tlvs_effect A C K bs H pe (e # es) s = Option.bind (tlv_effect A C K bs H pe e s) (tlvs_effect A C K bs H pe es)"

abbreviation verdict_of :: "validation \<Rightarrow> tlvs_verdict" where
  "verdict_of v \<equiv> (v_key_id v, v_image_hash_valid v, v_valid_signature v)"

text \<open>The iterator stands before the entries \<open>es\<close>, the last of the TLV area.\<close>

definition tlvs_ahead ::
  "image_abi \<Rightarrow> byte list \<Rightarrow> image_header \<Rightarrow> fs_file_t \<Rightarrow> nat \<Rightarrow> nat \<Rightarrow> file_tlv_iter_t
   \<Rightarrow> (nat \<times> image_tlv) list \<Rightarrow> bool"
where
  "tlvs_ahead A bs h f pe te it es \<longleftrightarrow>
     iter_ok h f it \<and> iter_type it = IMAGE_TLV_ANY A \<and> \<not> iter_prot it
     \<and> unat (iter_prot_end it) = pe \<and> unat (iter_tlv_end it) = te
     \<and> es = tlv_entries A bs (0 < ih_protect_tlv_size h) pe te (unat (iter_tlv_off it))"

context image_source
begin

lemma tlvs_ahead_next:
  assumes "good w" and "abi_ok A" and ahead: "tlvs_ahead A bs h f pe te it (e # es)"
  obtains rc off len ty it' w1 where "file_tlv_iter_next A E it w = Some ((rc, off, len, ty), it', w1)"
    and "good w1"
    and "rc = - 1 \<and> \<not> rel \<or> rc = 0 \<and> fst e = unat off \<and> len = it_len (snd e) \<and> ty = it_type (snd e)
           \<and> tlvs_ahead A bs h f pe te it' es"
proof -
  have ok: "iter_ok h f it"
    using ahead by (simp add: tlvs_ahead_def)
  have st: "0 < sizeof_image_tlv A"
    using assms(2) by (simp add: abi_ok_def)
  obtain rc off len ty it' w1 where nx: "file_tlv_iter_next A E it w = Some ((rc, off, len, ty), it', w1)"
    and w1: "good w1" and ans: "iter_answer rel A bs h f it ((rc, off, len, ty), it')"
    using iter_next_answer [OF assms(1) ok assms(2)] by (metis prod.exhaust)
  obtain pay t where find: "iter_find A bs h it = Tlv_Entry pay t"
    using ahead by (subst (asm) tlvs_ahead_def, subst (asm) tlv_entries.simps) (auto split: tlv_found.splits)
  then have "tlv_find A bs (IMAGE_TLV_ANY A) False (0 < ih_protect_tlv_size h) pe te
      (unat (iter_tlv_off it)) = Tlv_Entry pay t"
    using ahead by (simp add: tlvs_ahead_def)
  note es = tlv_entries_Cons(1) [OF this st]
  have it': "iter_ok h f it'" "it' = it\<lparr>iter_tlv_off := iter_tlv_off it'\<rparr>"
    using ans by (auto simp: iter_answer_def)
  have it_f: "iter_type it' = iter_type it" "iter_prot it' = iter_prot it"
      "iter_prot_end it' = iter_prot_end it" "iter_tlv_end it' = iter_tlv_end it"
    by (subst it'(2), simp)+
  have "rc = - 1 \<and> \<not> rel \<or> rc = 0 \<and> fst e = unat off \<and> len = it_len (snd e) \<and> ty = it_type (snd e)
      \<and> tlvs_ahead A bs h f pe te it' es"
    using ans find ahead es it'(1) it_f by (auto simp: iter_answer_def tlvs_ahead_def)
  with nx w1 show thesis
    by (rule that)
qed

lemma handle_tlv_effect:
  assumes w: "good w" and A: "abi_ok A"
    and eff: "tlv_effect A C K bs H pe (unat off, t) (verdict_of v) = Some s"
    and run: "handle_tlv A C K E f H off (it_len t) (it_type t) v w = (rc, v', w')"
  shows "good w' \<and> (rc = - 1 \<and> \<not> rel \<or> rc = 0 \<and> v_it v' = v_it v \<and> verdict_of v' = s)"
proof -
  let ?len = "it_len t" and ?ty = "it_type t"
  let ?key = "\<not> boot_signature_using_kmu K \<and> ?ty = EXPECTED_KEY_TLV A"
  have n: "unat (ucast ?len :: u32) = unat ?len" "unat (ucast ?len :: u32) < 2 ^ 31"
    using unat_u16_bound [of ?len] by simp_all
  have h: "unat (of_nat (IMAGE_HASH_SIZE A) :: u32) = IMAGE_HASH_SIZE A"
      "unat (of_nat (IMAGE_HASH_SIZE A) :: u32) < 2 ^ 31"
    using A by (simp_all add: abi_ok_def)
  consider (hash) "?ty = EXPECTED_HASH_TLV A" | (key) "?ty \<noteq> EXPECTED_HASH_TLV A" ?key
    | (sig) "?ty \<noteq> EXPECTED_HASH_TLV A" "\<not> ?key" "?ty = EXPECTED_SIG_TLV A K"
    | (other) "?ty \<noteq> EXPECTED_HASH_TLV A" "\<not> ?key" "?ty \<noteq> EXPECTED_SIG_TLV A K"
    by blast
  then show ?thesis
  proof cases
    case hash
    obtain rc1 buf w1 where ld: "load_image_data E f off (of_nat (IMAGE_HASH_SIZE A)) w = ((rc1, buf), w1)"
      by (metis prod.exhaust)
    have step: "file_image_validate_tlv_expected_hash A C E f off (it_len t) H valid w =
      (if IMAGE_HASH_SIZE A \<noteq> unat (it_len t) then ((False, valid), w)
       else if rc1 \<noteq> 0 then ((False, valid), w1)
       else if boot_fih_memequal C (take (IMAGE_HASH_SIZE A) H) (take (IMAGE_HASH_SIZE A) buf) \<noteq> FIH_SUCCESS
       then ((False, valid), w1) else ((True, True), w1))" for valid
      by (simp only: file_image_validate_tlv_expected_hash_def ld prod.case)
    show ?thesis
      using eff run hash load [OF w ld h(2), unfolded h(1)]
      by (auto simp: handle_tlv_def tlv_effect_def step split: if_splits)
  next
    case key
    obtain rc1 buf w1 where ld: "load_image_data E f off (ucast ?len) w = ((rc1, buf), w1)"
      by (metis prod.exhaust)
    show ?thesis
      using eff run key load [OF w ld n(2), unfolded n(1)]
      by (auto simp: handle_tlv_def tlv_effect_def file_image_validate_tlv_expected_key_def ld
          split: if_splits)
  next
    case sig
    obtain rc1 buf w1 where ld: "load_image_data E f off (ucast ?len) w = ((rc1, buf), w1)"
      by (metis prod.exhaust)
    show ?thesis
      using eff run sig load [OF w ld n(2), unfolded n(1)]
      by (auto simp: handle_tlv_def tlv_effect_def file_image_validate_tlv_expected_sig_def ld
          split: if_splits)
  next
    case other
    then show ?thesis
      using eff run w by (auto simp: handle_tlv_def tlv_effect_def split: if_splits)
  qed
qed

text \<open>An entry that may stand where it does is handed to the handlers.\<close>

lemma validate_tlv_ahead:
  assumes "good w" and "abi_ok A" and "tlvs_ahead A bs h f pe te (v_it v) (e # es)"
    and allowed: "entry_allowed A K pe e"
  obtains (failed) v' w' where "file_image_validate_tlv A C K E f H v w = Some (- 1, v', w')" and "good w'"
      and "\<not> rel"
  | (handled) off it w' where "file_image_validate_tlv A C K E f H v w
        = Some (handle_tlv A C K E f H off (it_len (snd e)) (it_type (snd e)) (v\<lparr>v_it := it\<rparr>) w')"
      and "good w'" and "e = (unat off, snd e)" and "tlvs_ahead A bs h f pe te it es"
proof -
  obtain rc off len ty it w1 where nx: "file_tlv_iter_next A E (v_it v) w = Some ((rc, off, len, ty), it, w1)"
    and w1: "good w1"
    and ans: "rc = - 1 \<and> \<not> rel \<or> rc = 0 \<and> fst e = unat off \<and> len = it_len (snd e) \<and> ty = it_type (snd e)
           \<and> tlvs_ahead A bs h f pe te it es"
    by (rule tlvs_ahead_next [OF assms(1-3)])
  show thesis
  proof (cases "rc = 0")
    case False
    then have "file_image_validate_tlv A C K E f H v w = Some (- 1, v\<lparr>v_it := it\<rparr>, w1)" "\<not> rel"
      using ans by (simp_all add: file_image_validate_tlv_def nx)
    then show thesis
      using w1 failed by blast
  next
    case True
    then have e: "e = (unat off, snd e)" "len = it_len (snd e)" "ty = it_type (snd e)"
      and ahead: "tlvs_ahead A bs h f pe te it es"
      using ans by (auto simp: prod_eq_iff)
    have "allow_rogue_tlvs K \<or> file_tlv_iter_is_prot it off \<noteq> 0 \<or> tlv_type_allowed A ty"
      using allowed ahead e
      by (cases e) (auto simp: entry_allowed_def tlvs_ahead_def file_tlv_iter_is_prot_def iter_ok_def
          word_less_nat_alt)
    then have "file_image_validate_tlv A C K E f H v w
        = Some (handle_tlv A C K E f H off (it_len (snd e)) (it_type (snd e)) (v\<lparr>v_it := it\<rparr>) w1)"
      using True e by (auto simp: file_image_validate_tlv_handles nx Let_def)
    then show thesis
      using w1 e(1) ahead handled by blast
  qed
qed

text \<open>
  The loop handles entries that are not refused one after the other, unless a read fails, and ends
  at a signature without a key, with what the entries before it left.
\<close>

lemma loop_ends_at_unknown_key:
  assumes "good w" and "abi_ok A" and "tlvs_ahead A bs h f pe te (v_it v) (es @ (pay, t) # es')"
    and "tlvs_effect A C K bs H pe es (verdict_of v) = Some (k, hash_ok, sig)"
    and "\<not> boot_signature_using_kmu K" and "it_type t = EXPECTED_SIG_TLV A K"
    and "EXPECTED_SIG_TLV A K \<noteq> EXPECTED_HASH_TLV A" and "EXPECTED_SIG_TLV A K \<noteq> EXPECTED_KEY_TLV A"
    and "entry_allowed A K pe (pay, t)" and "k < 0 \<or> int (length (bootutil_keys C)) \<le> k"
  shows "\<exists>rc v' w'. file_img_validate_loop A C K E f H v w = Some (rc, v', w') \<and> good w'
    \<and> (rc < 0 \<and> \<not> rel \<or> rc = 1 \<and> v_image_hash_valid v' = hash_ok \<and> v_valid_signature v' = sig)"
  using assms(1,3,4)
proof (induction es arbitrary: v w)
  case Nil
  have ahead: "tlvs_ahead A bs h f pe te (v_it v) ((pay, t) # es')"
    using Nil by simp
  from Nil(1) assms(2) ahead assms(9) show ?case
  proof (cases rule: validate_tlv_ahead [where C = C and H = H])
    case (failed v' w')
    then show ?thesis
      by (subst file_img_validate_loop.simps) simp
  next
    case (handled off it w')
    have "handle_tlv A C K E f H off (it_len t) (it_type t) (v\<lparr>v_it := it\<rparr>) w'
        = (1, v\<lparr>v_it := it, v_key_id := - 1\<rparr>, w')"
      using assms(5-8,10) Nil(3) by (auto simp: handle_tlv_def)
    then show ?thesis
      using handled Nil(3) by (subst file_img_validate_loop.simps) simp
  qed
next
  case (Cons e es)
  obtain s where s: "tlv_effect A C K bs H pe e (verdict_of v) = Some s"
    and rest: "tlvs_effect A C K bs H pe es s = Some (k, hash_ok, sig)"
    using Cons.prems(3) by (auto simp: bind_eq_Some_conv)
  have allowed: "entry_allowed A K pe e"
    using s by (cases e) (auto simp: tlv_effect_def split: if_splits)
  have ahead: "tlvs_ahead A bs h f pe te (v_it v) (e # (es @ (pay, t) # es'))"
    using Cons.prems(2) by simp
  from Cons.prems(1) assms(2) ahead allowed show ?case
  proof (cases rule: validate_tlv_ahead [where C = C and H = H])
    case (failed v' w')
    then show ?thesis
      by (subst file_img_validate_loop.simps) simp
  next
    case (handled off it w1)
    obtain rc v' w' where hd: "handle_tlv A C K E f H off (it_len (snd e)) (it_type (snd e)) (v\<lparr>v_it := it\<rparr>) w1
        = (rc, v', w')"
      by (metis prod.exhaust)
    have "tlv_effect A C K bs H pe (unat off, snd e) (verdict_of (v\<lparr>v_it := it\<rparr>)) = Some s"
      using s handled(3) by simp
    from handle_tlv_effect [OF handled(2) assms(2) this hd]
    have w': "good w'" and ans: "rc = - 1 \<and> \<not> rel \<or> rc = 0 \<and> v_it v' = it \<and> verdict_of v' = s"
      by auto
    have run: "file_img_validate_loop A C K E f H v w
        = (if rc = 0 then file_img_validate_loop A C K E f H v' w' else Some (rc, v', w'))"
      by (subst file_img_validate_loop.simps) (simp add: handled(1) hd)
    from ans show ?thesis
    proof
      assume "rc = - 1 \<and> \<not> rel"
      then show ?thesis
        using run w' by simp
    next
      assume ok: "rc = 0 \<and> v_it v' = it \<and> verdict_of v' = s"
      have "tlvs_ahead A bs h f pe te (v_it v') (es @ (pay, t) # es')"
        and "tlvs_effect A C K bs H pe es (verdict_of v') = Some (k, hash_ok, sig)"
        using ok handled(4) rest by simp_all
      from Cons.IH [OF w' this] show ?thesis
        using run ok by simp
    qed
  qed
qed

text \<open>
  With a well-formed TLV area inside the destination, \<open>file_img_validate\<close> hashes the image and enters the
  traversal at the first entry.
\<close>

lemma validate_unknown_key:
  assumes "good w" and "abi_ok A" and "sha_streams C"
    and "0 < unat bsz" and "unat bsz < 2 ^ 31" and "unat bsz \<le> length buf"
    and region: "tlv_region A bs h = Some (pe, te)" and te: "te \<le> unat fa_sz"
    and tlvs: "image_tlvs A bs h = es @ (pay, t) # es'"
    and es: "tlvs_effect A C K bs (sha_of C (take pe bs)) pe es (- 1, False, FIH_FAILURE) = Some (k, hash_ok, sig)"
    and unknown: "\<not> boot_signature_using_kmu K" "it_type t = EXPECTED_SIG_TLV A K"
      "EXPECTED_SIG_TLV A K \<noteq> EXPECTED_HASH_TLV A" "EXPECTED_SIG_TLV A K \<noteq> EXPECTED_KEY_TLV A"
      "entry_allowed A K pe (pay, t)" "k < 0 \<or> int (length (bootutil_keys C)) \<le> k"
  shows "\<exists>r buf' w'. file_img_validate A C K E h f fa_sz buf bsz None 0 w = Some ((r, buf'), w') \<and> good w'
    \<and> (r = (if hash_ok then sig else FIH_FAILURE) \<or> \<not> rel \<and> r = FIH_FAILURE)"
proof -
  let ?sz = "hashed_size h"
  note reg = tlv_region_bounds [OF region]
  have sz: "unat ?sz = pe"
    unfolding hashed_size_def using reg(1) image_length [OF assms(1)] reg(2) by (subst unat_plus_small) simp_all
  obtain rc H buf1 w1 where hash: "file_img_hash C E h f buf bsz None 0 w = Some ((rc, H, buf1), w1)"
    and w1: "good w1" and rc: "rc \<noteq> 0 \<Longrightarrow> \<not> rel" and H: "rc = 0 \<Longrightarrow> H = sha_of C (take pe bs)"
    using hash_loop [OF assms(1,3-6), of 0 ?sz "bootutil_sha_init C"] sz reg(2)
    by (auto simp: file_img_hash_def hashed_size_def BOOT_TLV_OFF_def sha_of_def bytes_at_def)
  obtain rc2 it w2 where bg: "file_tlv_iter_begin A E iter_zero (Some h) (Some f)
      (IMAGE_TLV_ANY A) False w1 = ((rc2, it), w2)"
    by (metis prod.exhaust)
  note b = iter_begin_answer [OF w1 assms(2) bg]
  show ?thesis
  proof (cases "rc = 0 \<and> rc2 = 0")
    case False
    then have "file_img_validate A C K E h f fa_sz buf bsz None 0 w
        = Some ((FIH_FAILURE, buf1), if rc = 0 then w2 else w1)" "\<not> rel"
      using rc b region by (auto simp: file_img_validate_def hash bg)
    then show ?thesis
      using w1 b by simp
  next
    case True
    let ?v = "\<lparr>v_it = it, v_key_id = - 1, v_image_hash_valid = False, v_valid_signature = FIH_FAILURE\<rparr>"
    have in_area: "\<not> iter_tlv_end it > fa_sz"
      using b True region te by (simp add: word_less_nat_alt)
    have ahead: "tlvs_ahead A bs h f pe te (v_it ?v) (es @ (pay, t) # es')"
      using b True region tlvs by (simp add: tlvs_ahead_def image_tlvs_def)
    have start: "tlvs_effect A C K bs (sha_of C (take pe bs)) pe es (verdict_of ?v) = Some (k, hash_ok, sig)"
      using es by simp
    obtain rc3 v w3 where run: "file_img_validate_loop A C K E f H ?v w2 = Some (rc3, v, w3)" and w3: "good w3"
      and ans: "rc3 < 0 \<and> \<not> rel \<or> rc3 = 1 \<and> v_image_hash_valid v = hash_ok \<and> v_valid_signature v = sig"
      using loop_ends_at_unknown_key [OF conjunct1 [OF b] assms(2) ahead start unknown] H True by blast
    have "file_img_validate A C K E h f fa_sz buf bsz None 0 w
      = Some ((if rc3 < 0 \<or> \<not> v_image_hash_valid v then FIH_FAILURE else v_valid_signature v, buf1), w3)"
      using True in_area by (simp add: file_img_validate_def hash bg run)
    then show ?thesis
      using w3 ans by auto
  qed
qed

end

subsection \<open>The security counter\<close>

text \<open>
  A counter is taken from an entry whose header lies in the protected area, so that the digest of
  an accepted image covers it.
\<close>

definition sec_cnt_listed :: "image_abi \<Rightarrow> byte list \<Rightarrow> image_header \<Rightarrow> byte list \<Rightarrow> bool" where
  "sec_cnt_listed A bs h cnt \<longleftrightarrow>
     (\<exists>pe te pay t. tlv_region A bs h = Some (pe, te)
        \<and> tlv_find A bs (IMAGE_TLV_SEC_CNT A) True True pe te
            (unat (BOOT_TLV_OFF h) + sizeof_image_tlv_info A) = Tlv_Entry pay t
        \<and> pay - sizeof_image_tlv A < pe \<and> it_len t = 4 \<and> cnt = bytes_at pay 4 bs \<and> pay + 4 \<le> length bs)"

context image_source
begin

lemma get_security_cnt_answer:
  assumes "good w" and "abi_ok A" and "length cnt = 4"
  shows "\<exists>rc cnt' w'. file_img_get_security_cnt A E (Some h) (Some f) (Some cnt) w
      = Some ((rc, Some cnt'), w') \<and> good w' \<and> length cnt' = 4
      \<and> (rc = 0 \<and> BOOT_EBADIMAGE A \<noteq> 0 \<and> BOOT_EFLASH A \<noteq> 0 \<longrightarrow> sec_cnt_listed A bs h cnt')"
proof (cases "ih_protect_tlv_size h = 0")
  case True
  then show ?thesis
    using assms by (auto simp: file_img_get_security_cnt_def)
next
  case prot: False
  obtain rc1 it w1 where bg: "file_tlv_iter_begin A E iter_zero (Some h) (Some f)
      (IMAGE_TLV_SEC_CNT A) True w = ((rc1, it), w1)"
    by (metis prod.exhaust)
  note b = iter_begin_answer [OF assms(1,2) bg]
  show ?thesis
  proof (cases "rc1 = 0")
    case False
    then show ?thesis
      using prot b assms(3) by (simp add: file_img_get_security_cnt_def bg)
  next
    case True
    then have ok: "iter_ok h f it" and w1: "good w1"
      using b by simp_all
    obtain rc off len ty it2 w2 where nx: "file_tlv_iter_next A E it w1 = Some ((rc, off, len, ty), it2, w2)"
      and w2: "good w2" and ans: "iter_answer rel A bs h f it ((rc, off, len, ty), it2)"
      using iter_next_answer [OF w1 ok assms(2)] by (metis prod.exhaust)
    obtain rc3 data w3 where ld: "load_image_data E f off (ucast len) w2 = ((rc3, data), w3)"
      by (metis prod.exhaust)
    have n31: "unat (ucast len :: u32) < 2 ^ 31"
      using unat_u16_bound [of len] by simp
    note l = load [OF w2 ld n31]
    have run: "file_img_get_security_cnt A E (Some h) (Some f) (Some cnt) w =
      (if rc \<noteq> 0 then Some ((- 1, Some cnt), w2)
       else if len \<noteq> 4 then Some ((BOOT_EBADIMAGE A, Some cnt), w2)
       else if rc3 \<noteq> 0 then Some ((BOOT_EFLASH A, Some (overlay data cnt)), w3)
       else Some ((0, Some (overlay data cnt)), w3))"
      using prot True ld by (auto simp: file_img_get_security_cnt_def bg nx)
    have "sec_cnt_listed A bs h (overlay data cnt)" if zero: "rc = 0" "len = 4" "rc3 = 0"
    proof -
      obtain t where "iter_find A bs h it = Tlv_Entry (unat off) t" and t: "it_len t = 4"
        using ans zero by (auto simp: iter_answer_def)
      moreover have "0 < ih_protect_tlv_size h"
        using prot by (simp add: word_neq_0_conv)
      ultimately have "tlv_find A bs (IMAGE_TLV_SEC_CNT A) True True (unat (iter_prot_end it))
         (unat (iter_tlv_end it)) (unat (BOOT_TLV_OFF h) + sizeof_image_tlv_info A)
         = Tlv_Entry (unat off) t"
        using b True by simp
      moreover have "data = bytes_at (unat off) 4 bs" "length data = 4" "unat off + 4 \<le> length bs"
        using l zero by auto
      ultimately show ?thesis
        unfolding sec_cnt_listed_def using b True t tlv_find_prot assms(3) by auto
    qed
    moreover have "len = 4 \<Longrightarrow> length (overlay data cnt) = 4"
      using l assms(3) by simp
    ultimately show ?thesis
      using run w2 l assms(3) by auto
  qed
qed

end

subsection \<open>Runs on the device in memory\<close>

lemmas validate_eval =
  file_tlv_eval file_img_hash_def file_img_hash_loop.simps file_img_find_key_def
  file_image_validate_tlv_def file_image_validate_tlv_expected_hash_def
  file_image_validate_tlv_expected_key_def file_image_validate_tlv_expected_sig_def
  file_img_validate_def file_img_validate_loop.simps file_tlv_iter_is_prot_def
  tlv_type_allowed_def allowed_unprot_tlvs_def EXPECTED_SIG_TLV_def SIG_BUF_SIZE_def
  EXPECTED_SIG_LEN_def EXPECTED_KEY_TLV_def KEY_BUF_SIZE_def demo_crypto_def demo_config_def
  overlay_def

lemma demo_sha_streams: "sha_streams demo_crypto"
  by (simp add: sha_streams_def demo_crypto_def)

abbreviation demo_buf :: "byte list" where
  "demo_buf \<equiv> [0, 0, 0, 0, 0, 0, 0, 0, 0, 0]"

abbreviation demo_validate :: "ram \<Rightarrow> ((fih_ret \<times> byte list) \<times> ram) option" where
  "demo_validate w \<equiv> file_img_validate demo_abi demo_crypto demo_config (ram_os demo_abi demo_config)
     demo_header demo_file 64 demo_buf 10 None 0 w"

subsection \<open>Properties\<close>

text \<open>
  C18. The digest is computed over chunks of the size of the caller's buffer, but does not depend on
  that size: for every non-empty buffer the computation returns, and on success it has digested
  exactly the first \<open>hashed_size\<close> bytes of the file (header, code, protected TLVs), which the file
  contains. On a reliable file system it fails only where the file is shorter than that.
\<close>

theorem file_img_hash_digests:
  assumes "reading rel dv E f bs d pos w" and "sha_streams C"
    and "0 < unat bsz" and "unat bsz < 2 ^ 31" and "unat bsz \<le> length buf"
  shows "\<exists>rc H buf' w' pos'. file_img_hash C E h f buf bsz None 0 w = Some ((rc, H, buf'), w')
    \<and> reading rel dv E f bs d pos' w' \<and> rc \<le> 0
    \<and> (rc = 0 \<longrightarrow> (0 < hashed_size h \<longrightarrow> unat (hashed_size h) \<le> length bs)
        \<and> H = sha_of C (take (unat (hashed_size h)) bs))
    \<and> (rc \<noteq> 0 \<and> rel \<longrightarrow> length bs < unat (hashed_size h))"
proof -
  have "\<exists>pos. reading rel dv E f bs d pos w"
    using assms(1) by blast
  from file_source.hash_loop [OF this assms(2-5), of 0 "hashed_size h" "bootutil_sha_init C"]
  show ?thesis
    by (fastforce simp: file_img_hash_def hashed_size_def BOOT_TLV_OFF_def sha_of_def bytes_at_def
        word_less_nat_alt)
qed

theorem file_img_hash_digests_witness:
  "\<exists>buf' w'. file_img_hash demo_crypto (ram_os demo_abi demo_config) demo_header demo_file demo_buf 10
      None 0 demo_ram = Some ((0, [199, 18], buf'), w')
    \<and> sha_of demo_crypto (take (unat (hashed_size demo_header)) demo_image) = [199, 18]"
proof -
  have run: "\<exists>buf' w'. file_img_hash demo_crypto (ram_os demo_abi demo_config) demo_header demo_file
      demo_buf 10 None 0 demo_ram = Some ((0, [199, 18], buf'), w')"
    by (simp add: validate_eval)
  have n: "0 < unat (10 :: u32)" "unat (10 :: u32) < 2 ^ 31" "unat (10 :: u32) \<le> length demo_buf"
    by simp_all
  from file_img_hash_digests [OF demo_reading [of demo_abi demo_config] demo_sha_streams n,
      of demo_header] run
  show ?thesis
    by auto
qed

text \<open>
  C3. Validation of an open file returns, whatever the file contains and whatever reads fail on
  the way, and an accepted file is authentic: the TLV area is well-formed and ends inside the
  destination partition, and a prefix of the TLV entries, all permitted where they stand, lists
  the digest of header, code and protected TLVs, and a signature over that digest which verifies
  under a built-in key whose hash is listed before it.
\<close>

theorem file_img_validate_sound:
  assumes "reading rel dv E f bs d pos w" and "abi_ok A" and "sha_streams C"
    and "0 < unat bsz" and "unat bsz < 2 ^ 31" and "unat bsz \<le> length buf"
  shows "\<exists>r buf' w' pos'. file_img_validate A C K E h f fa_sz buf bsz None 0 w = Some ((r, buf'), w')
    \<and> reading rel dv E f bs d pos' w' \<and> length buf' = length buf
    \<and> (r = FIH_SUCCESS \<longrightarrow> image_authentic A C K bs h (unat fa_sz))"
proof -
  have "\<exists>pos. reading rel dv E f bs d pos w"
    using assms(1) by blast
  from file_source.file_img_validate_answer [OF this assms(2-6)] show ?thesis
    by fast
qed

theorem file_img_validate_sound_witness:
  "\<exists>buf' w'. demo_validate demo_ram = Some ((FIH_SUCCESS, buf'), w')
     \<and> image_authentic demo_abi demo_crypto demo_config demo_image demo_header 64"
proof -
  have run: "\<exists>buf' w'. demo_validate demo_ram = Some ((FIH_SUCCESS, buf'), w')"
    by (simp add: validate_eval)
  have n: "0 < unat (10 :: u32)" "unat (10 :: u32) < 2 ^ 31" "unat (10 :: u32) \<le> length demo_buf"
    by simp_all
  from file_img_validate_sound [OF demo_reading [of demo_abi demo_config] demo_abi_ok demo_sha_streams n,
      of demo_config demo_header 64] run
  show ?thesis
    by auto
qed

text \<open>
  C26. Reading the security counter of an open file returns, and a counter it reports is the
  four-byte payload of a security counter TLV whose header lies in the protected area.
\<close>

theorem file_img_get_security_cnt_protected:
  assumes "reading rel dv E f bs d pos w" and "abi_ok A" and "length cnt = 4"
    and "BOOT_EBADIMAGE A \<noteq> 0" and "BOOT_EFLASH A \<noteq> 0"
  shows "\<exists>rc cnt' w' pos'. file_img_get_security_cnt A E (Some h) (Some f) (Some cnt) w
      = Some ((rc, Some cnt'), w') \<and> reading rel dv E f bs d pos' w'
      \<and> (rc = 0 \<longrightarrow> sec_cnt_listed A bs h cnt')"
proof -
  have "\<exists>pos. reading rel dv E f bs d pos w"
    using assms(1) by blast
  from file_source.get_security_cnt_answer [OF this assms(2,3)] assms(4,5) show ?thesis
    by meson
qed

theorem file_img_get_security_cnt_protected_witness:
  "\<exists>w'. file_img_get_security_cnt demo_abi (ram_os demo_abi demo_config) (Some demo_header)
      (Some demo_file) (Some [0, 0, 0, 0]) demo_ram = Some ((0, Some [7, 0, 0, 0]), w')
    \<and> sec_cnt_listed demo_abi demo_image demo_header [7, 0, 0, 0]"
proof -
  have run: "\<exists>w'. file_img_get_security_cnt demo_abi (ram_os demo_abi demo_config) (Some demo_header)
      (Some demo_file) (Some [0, 0, 0, 0]) demo_ram = Some ((0, Some [7, 0, 0, 0]), w')"
    by (simp add: validate_eval file_img_get_security_cnt_def)
  have n: "length [0, 0, 0, 0 :: byte] = 4" "BOOT_EBADIMAGE demo_abi \<noteq> 0" "BOOT_EFLASH demo_abi \<noteq> 0"
    by (simp_all add: demo_abi_def)
  from file_img_get_security_cnt_protected [OF demo_reading [of demo_abi demo_config] demo_abi_ok n,
      of demo_header] run
  show ?thesis
    by auto
qed

text \<open>Two more images: the demo image with further unprotected TLVs.\<close>

definition second_signature_image :: "byte list" where
  "second_signature_image =
     take 18 demo_image @
     [7, 24, 0x10, 2, 199, 18, 0x01, 2, 9, 9, 0x22, 3, 0, 0, 0, 0x01, 2, 23, 2, 0x22, 3, 199, 18, 0]"

definition rogue_tlv_image :: "byte list" where
  "rogue_tlv_image =
     take 18 demo_image @
     [7, 23, 0x10, 2, 199, 18, 0x01, 2, 23, 2, 0x22, 3, 199, 18, 0, 0x22, 3, 0, 0, 0, 0x77, 1, 0]"

definition demo_ram_with :: "byte list \<Rightarrow> ram" where
  "demo_ram_with bs = demo_ram\<lparr>r_dev := (r_dev demo_ram)\<lparr>d_files := [''/m/ap'' \<mapsto> bs]\<rparr>\<rparr>"

lemma demo_reading_with:
  assumes "length bs < 2 ^ 31"
  shows "reading True ram_view (ram_os A K) demo_file bs (ram_view (demo_ram_with bs)) 0 (demo_ram_with bs)"
proof -
  have "file_at (ram_view (demo_ram_with bs)) demo_file = Some (bs, 0)"
    using assms by (simp add: demo_ram_with_def demo_ram_def ram_view_def file_at_def)
  from readingI [OF ram_fs_spec this] show ?thesis .
qed

lemmas image_tlvs_eval =
  image_tlvs_def tlv_region_def tlv_info_at_def tlv_entries.simps tlv_find.simps tlv_skip_def
  tlv_entry_at_def second_signature_image_def rogue_tlv_image_def demo_image_def demo_header_def
  demo_abi_def BOOT_TLV_OFF_def byte_n_def bytes_at_def

lemma second_signature_tlvs:
  "image_tlvs demo_abi second_signature_image demo_header =
     [(14, \<lparr>it_type = 0x50, it_len = 4\<rparr>), (22, \<lparr>it_type = 0x10, it_len = 2\<rparr>),
      (26, \<lparr>it_type = 1, it_len = 2\<rparr>)] @ (30, \<lparr>it_type = 0x22, it_len = 3\<rparr>) #
     [(35, \<lparr>it_type = 1, it_len = 2\<rparr>), (39, \<lparr>it_type = 0x22, it_len = 3\<rparr>)]"
  by (simp add: image_tlvs_eval)

lemma rogue_tlvs:
  "image_tlvs demo_abi rogue_tlv_image demo_header =
     [(14, \<lparr>it_type = 0x50, it_len = 4\<rparr>), (22, \<lparr>it_type = 0x10, it_len = 2\<rparr>),
      (26, \<lparr>it_type = 1, it_len = 2\<rparr>), (30, \<lparr>it_type = 0x22, it_len = 3\<rparr>)] @
     (35, \<lparr>it_type = 0x22, it_len = 3\<rparr>) # [(40, \<lparr>it_type = 0x77, it_len = 1\<rparr>)]"
  by (simp add: image_tlvs_eval)

lemmas effect_eval =
  tlv_effect_def entry_allowed_def tlv_type_allowed_def allowed_unprot_tlvs_def EXPECTED_SIG_TLV_def
  EXPECTED_SIG_LEN_def SIG_BUF_SIZE_def EXPECTED_KEY_TLV_def KEY_BUF_SIZE_def file_img_find_key_def
  sha_of_def demo_abi_def demo_config_def demo_crypto_def bytes_at_def second_signature_image_def
  rogue_tlv_image_def demo_image_def

lemma second_signature_region: "tlv_region demo_abi second_signature_image demo_header = Some (18, 42)"
  by (simp add: image_tlvs_eval)

lemma rogue_region: "tlv_region demo_abi rogue_tlv_image demo_header = Some (18, 41)"
  by (simp add: image_tlvs_eval)

lemma second_signature_effect:
  "tlvs_effect demo_abi demo_crypto demo_config second_signature_image
     (sha_of demo_crypto (take 18 second_signature_image)) 18
     [(14, \<lparr>it_type = 0x50, it_len = 4\<rparr>), (22, \<lparr>it_type = 0x10, it_len = 2\<rparr>),
      (26, \<lparr>it_type = 1, it_len = 2\<rparr>)] (- 1, False, FIH_FAILURE) = Some (- 1, True, FIH_FAILURE)"
  by (simp add: effect_eval)

lemma rogue_effect:
  "tlvs_effect demo_abi demo_crypto demo_config rogue_tlv_image
     (sha_of demo_crypto (take 18 rogue_tlv_image)) 18
     [(14, \<lparr>it_type = 0x50, it_len = 4\<rparr>), (22, \<lparr>it_type = 0x10, it_len = 2\<rparr>),
      (26, \<lparr>it_type = 1, it_len = 2\<rparr>), (30, \<lparr>it_type = 0x22, it_len = 3\<rparr>)]
     (- 1, False, FIH_FAILURE) = Some (- 1, True, FIH_SUCCESS)"
  by (simp add: effect_eval)

lemma rogue_tlv_forbidden:
  "\<not> list_all (entry_allowed demo_abi demo_config 18) (image_tlvs demo_abi rogue_tlv_image demo_header)"
  unfolding rogue_tlvs by (simp add: effect_eval)

lemma second_signature_valid:
  "signature_listed demo_abi demo_crypto demo_config second_signature_image [199, 18]
     (image_tlvs demo_abi second_signature_image demo_header)"
  unfolding signature_listed_def second_signature_tlvs
  by (intro exI [of _ "[(14, \<lparr>it_type = 0x50, it_len = 4\<rparr>), (22, \<lparr>it_type = 0x10, it_len = 2\<rparr>),
        (26, \<lparr>it_type = 1, it_len = 2\<rparr>), (30, \<lparr>it_type = 0x22, it_len = 3\<rparr>), (35, \<lparr>it_type = 1, it_len = 2\<rparr>)]"]
        exI [of _ 39] exI [of _ "\<lparr>it_type = 0x22, it_len = 3\<rparr>"] exI [of _ "[]"] exI [of _ 0])
     (simp add: effect_eval key_listed_def)

text \<open>
  C36. A signature whose key is unknown ends the traversal instead of being skipped: when the
  entries before it are accepted one by one and leave no usable key (none listed since the last
  signature, or one that is not built in), the verdict is the one that these entries alone give,
  whatever the TLV area holds behind, be it a valid signature or a forbidden entry; a failing read
  can only turn it into a failure. The builds concerned keep the keys in the image, and list
  signatures under a TLV type of their own.
\<close>

theorem unknown_key_ends_traversal:
  assumes "reading rel dv E f bs d pos w" and "abi_ok A" and "sha_streams C"
    and "0 < unat bsz" and "unat bsz < 2 ^ 31" and "unat bsz \<le> length buf"
    and "\<not> boot_signature_using_kmu K"
    and "EXPECTED_SIG_TLV A K \<noteq> EXPECTED_HASH_TLV A" and "EXPECTED_SIG_TLV A K \<noteq> EXPECTED_KEY_TLV A"
    and "tlv_region A bs h = Some (pe, te)" and "te \<le> unat fa_sz"
    and "image_tlvs A bs h = es @ (pay, t) # behind"
    and "tlvs_effect A C K bs (sha_of C (take pe bs)) pe es (- 1, False, FIH_FAILURE) = Some (k, hash_ok, sig)"
    and "it_type t = EXPECTED_SIG_TLV A K" and "entry_allowed A K pe (pay, t)"
    and "k < 0 \<or> int (length (bootutil_keys C)) \<le> k"
  shows "\<exists>r buf' w' pos'. file_img_validate A C K E h f fa_sz buf bsz None 0 w = Some ((r, buf'), w')
    \<and> reading rel dv E f bs d pos' w'
    \<and> (r = (if hash_ok then sig else FIH_FAILURE) \<or> \<not> rel \<and> r = FIH_FAILURE)"
proof -
  have "\<exists>pos. reading rel dv E f bs d pos w"
    using assms(1) by blast
  from file_source.validate_unknown_key [OF this assms(2-6,10-13,7,14,8,9,15,16)] show ?thesis
    by fast
qed

theorem unknown_key_ends_traversal_witness:
  "(\<exists>buf' w'. demo_validate (demo_ram_with second_signature_image) = Some ((FIH_FAILURE, buf'), w'))
   \<and> signature_listed demo_abi demo_crypto demo_config second_signature_image [199, 18]
       (image_tlvs demo_abi second_signature_image demo_header)
   \<and> (\<exists>buf' w'. demo_validate (demo_ram_with rogue_tlv_image) = Some ((FIH_SUCCESS, buf'), w'))
   \<and> \<not> list_all (entry_allowed demo_abi demo_config 18)
         (image_tlvs demo_abi rogue_tlv_image demo_header)"
proof -
  have n: "0 < unat (10 :: u32)" "unat (10 :: u32) < 2 ^ 31" "unat (10 :: u32) \<le> length demo_buf"
    and keys: "\<not> boot_signature_using_kmu demo_config"
      "EXPECTED_SIG_TLV demo_abi demo_config \<noteq> EXPECTED_HASH_TLV demo_abi"
      "EXPECTED_SIG_TLV demo_abi demo_config \<noteq> EXPECTED_KEY_TLV demo_abi"
    and sig: "it_type \<lparr>it_type = 0x22, it_len = 3\<rparr> = EXPECTED_SIG_TLV demo_abi demo_config"
      "entry_allowed demo_abi demo_config 18 (pay, \<lparr>it_type = 0x22, it_len = 3\<rparr>)"
      "(- 1 :: int) < 0 \<or> int (length (bootutil_keys demo_crypto)) \<le> - 1"
    and ends: "42 \<le> unat (64 :: u32)" "41 \<le> unat (64 :: u32)" for pay
    by (simp_all add: effect_eval)
  have len: "length second_signature_image < 2 ^ 31" "length rogue_tlv_image < 2 ^ 31"
    by (simp_all add: effect_eval)
  note at = unknown_key_ends_traversal [OF demo_reading_with [of _ demo_abi demo_config] demo_abi_ok demo_sha_streams n keys]
  from at [OF len(1) second_signature_region ends(1) second_signature_tlvs second_signature_effect sig]
    at [OF len(2) rogue_region ends(2) rogue_tlvs rogue_effect sig]
  show ?thesis
    using second_signature_valid rogue_tlv_forbidden by auto
qed

end
