(* ===== verification/Btldr_Fs.thy ===== *)
theory Btldr_Fs
  imports Ram_Device
begin

section \<open>The bootloader's view of the file system (\<open>btldr_fs.c\<close>)\<close>

text \<open>
  Mounting, and the calls by which the update logic looks up, opens, closes, removes and measures
  files by their name relative to the mount point. The static variables of the file are a record
  around the world of the platform: the mutex (how often it is locked), the buffer of the absolute
  path, and the directory entry that \<open>fs_stat\<close> fills. Other components extend the record.

  The theorems say what the calls do to the files of the device, and that the mutex is released
  on every path.
\<close>

record 'w btldr =
  world :: 'w
  g_btldr_fs_mutex :: nat
  g_btldr_fs_abs_path :: string
  g_btldr_fs_dir_entry :: fs_dir_entry_type

text \<open>A call of the platform inside this state.\<close>

definition on_world :: "('w \<Rightarrow> 'a \<times> 'w) \<Rightarrow> ('w, 'x) btldr_scheme \<Rightarrow> 'a \<times> ('w, 'x) btldr_scheme" where
  "on_world call s = (case call (world s) of (r, w) \<Rightarrow> (r, s\<lparr>world := w\<rparr>))"

subsection \<open>Paths and the lock\<close>

text \<open>The path is cut off where the buffer of \<open>MAX_FILE_NAME + 1\<close> characters ends.\<close>

definition btldr_fs_lock_and_get_abs_path ::
  "config \<Rightarrow> string \<Rightarrow> ('w, 'x) btldr_scheme \<Rightarrow> string \<times> ('w, 'x) btldr_scheme"
where
  "btldr_fs_lock_and_get_abs_path K rel_file_name s =
     (let s = s\<lparr>g_btldr_fs_mutex := Suc (g_btldr_fs_mutex s)\<rparr>;
          path = take (MAX_FILE_NAME K) (RUUVI_FW_UPDATE_MOUNT_POINT K @ ''/'' @ rel_file_name)
      in (path, s\<lparr>g_btldr_fs_abs_path := path\<rparr>))"

definition btldr_fs_unlock :: "('w, 'x) btldr_scheme \<Rightarrow> ('w, 'x) btldr_scheme" where
  "btldr_fs_unlock s = s\<lparr>g_btldr_fs_mutex := g_btldr_fs_mutex s - 1\<rparr>"

subsection \<open>Mounting\<close>

definition btldr_fs_flash_erase ::
  "config \<Rightarrow> 'w os \<Rightarrow> ('w, 'x) btldr_scheme \<Rightarrow> bool \<times> ('w, 'x) btldr_scheme"
where
  "btldr_fs_flash_erase K E s =
     (case on_world (flash_area_open E (PM_ID_littlefs_storage1 K)) s of ((rc, fa), s) \<Rightarrow>
      if rc < 0 then (False, s)
      else (case on_world (flash_area_flatten E fa 0 (unat (fa_size fa))) s of (rc, s) \<Rightarrow>
        if rc < 0 then (False, s\<lparr>world := flash_area_close E fa (world s)\<rparr>)
        else (True, s\<lparr>world := flash_area_close E fa (world s)\<rparr>)))"

definition btldr_fs_mount ::
  "config \<Rightarrow> 'w os \<Rightarrow> ('w, 'x) btldr_scheme \<Rightarrow> bool \<times> ('w, 'x) btldr_scheme"
where
  "btldr_fs_mount K E s =
     (case on_world (fs_mount E (RUUVI_FW_UPDATE_MOUNT_POINT K)) s of (rc, s) \<Rightarrow>
      if rc \<noteq> 0 then (False, snd (btldr_fs_flash_erase K E s))
      else (case on_world (fs_statvfs E (RUUVI_FW_UPDATE_MOUNT_POINT K)) s of (rc, s) \<Rightarrow>
        if rc < 0 then (False, s) else (True, s)))"

definition btldr_fs_unmount :: "config \<Rightarrow> 'w os \<Rightarrow> ('w, 'x) btldr_scheme \<Rightarrow> ('w, 'x) btldr_scheme" where
  "btldr_fs_unmount K E s = snd (on_world (fs_unmount E (RUUVI_FW_UPDATE_MOUNT_POINT K)) s)"

subsection \<open>Files\<close>

definition btldr_fs_is_file_exist ::
  "config \<Rightarrow> 'w os \<Rightarrow> string \<Rightarrow> ('w, 'x) btldr_scheme \<Rightarrow> bool \<times> ('w, 'x) btldr_scheme"
where
  "btldr_fs_is_file_exist K E file_name s =
     (case btldr_fs_lock_and_get_abs_path K file_name s of (path, s) \<Rightarrow>
      case on_world (fs_stat E path) s of ((rc, ty), s) \<Rightarrow>
      let s = s\<lparr>g_btldr_fs_dir_entry := ty\<rparr>;
          res = (if rc = - ENOENT then False
                 else if rc \<noteq> 0 then False
                 else if g_btldr_fs_dir_entry s \<noteq> FS_DIR_ENTRY_FILE then False
                 else True)
      in (res, btldr_fs_unlock s))"

definition btldr_fs_open_file ::
  "config \<Rightarrow> 'w os \<Rightarrow> string \<Rightarrow> ('w, 'x) btldr_scheme \<Rightarrow> fs_file_t \<times> ('w, 'x) btldr_scheme"
where
  "btldr_fs_open_file K E file_name s =
     (case btldr_fs_lock_and_get_abs_path K file_name s of (path, s) \<Rightarrow>
      case on_world (fs_open E path) s of ((rc, file), s) \<Rightarrow>
      let file = (if rc < 0 then file\<lparr>filep := None\<rparr> else file)
      in (file, btldr_fs_unlock s))"

definition btldr_fs_close_file ::
  "'w os \<Rightarrow> fs_file_t \<Rightarrow> ('w, 'x) btldr_scheme \<Rightarrow> ('w, 'x) btldr_scheme"
where
  "btldr_fs_close_file E p_file s = snd (on_world (fs_close E p_file) s)"

definition btldr_fs_unlink_file ::
  "config \<Rightarrow> 'w os \<Rightarrow> string \<Rightarrow> ('w, 'x) btldr_scheme \<Rightarrow> bool \<times> ('w, 'x) btldr_scheme"
where
  "btldr_fs_unlink_file K E file_name s =
     (case btldr_fs_lock_and_get_abs_path K file_name s of (path, s) \<Rightarrow>
      case on_world (fs_unlink E path) s of (rc, s) \<Rightarrow>
      let res = (if rc < 0 then False else True)
      in (res, btldr_fs_unlock s))"

definition btldr_fs_get_file_size :: "'w os \<Rightarrow> fs_file_t \<Rightarrow> ('w, 'x) btldr_scheme \<Rightarrow> int \<times> ('w, 'x) btldr_scheme"
where
  "btldr_fs_get_file_size E p_file s =
     (let cur_offset = fs_tell E p_file (world s) in
      case on_world (fs_seek E p_file 0 FS_SEEK_END) s of (rc, s) \<Rightarrow>
      if rc \<noteq> 0 then (0, s)
      else
        let sz = fs_tell E p_file (world s);
            s = snd (on_world (fs_seek E p_file cur_offset FS_SEEK_SET) s)
        in (sz, s))"

subsection \<open>Everything but the world\<close>

text \<open>The static data of the other components, and the state of the mutex.\<close>

definition btldr_kept :: "('w, 'x) btldr_scheme \<Rightarrow> ('w, 'x) btldr_scheme \<Rightarrow> bool" where
  "btldr_kept s s' \<longleftrightarrow>
     btldr.more s' = btldr.more s \<and> g_btldr_fs_mutex s' = g_btldr_fs_mutex s"

lemma btldr_kept_refl [simp]: "btldr_kept s s"
  by (simp add: btldr_kept_def)

lemma btldr_kept_trans [trans]: "btldr_kept s s' \<Longrightarrow> btldr_kept s' s'' \<Longrightarrow> btldr_kept s s''"
  by (simp add: btldr_kept_def)

lemma on_world_run:
  "on_world call s = (r, s') \<longleftrightarrow> s' = s\<lparr>world := world s'\<rparr> \<and> call (world s) = (r, world s')"
  by (cases s, cases s', auto simp: on_world_def split: prod.splits)

lemma btldr_kept_world [simp]: "btldr_kept s (s\<lparr>world := w\<rparr>)"
  by (simp add: btldr_kept_def)

lemma btldr_kept_calls [frame]:
  "on_world call s = (r, s') \<Longrightarrow> btldr_kept s s'"
  "btldr_fs_flash_erase K E s = (b, s') \<Longrightarrow> btldr_kept s s'"
  "btldr_fs_mount K E s = (b, s') \<Longrightarrow> btldr_kept s s'"
  "btldr_kept s (btldr_fs_unmount K E s)"
  "btldr_fs_is_file_exist K E n s = (b, s') \<Longrightarrow> btldr_kept s s'"
  "btldr_fs_open_file K E n s = (f', s') \<Longrightarrow> btldr_kept s s'"
  "btldr_kept s (btldr_fs_close_file E f s)"
  "btldr_fs_unlink_file K E n s = (b, s') \<Longrightarrow> btldr_kept s s'"
  "btldr_fs_get_file_size E f s = (n', s') \<Longrightarrow> btldr_kept s s'"
  by (auto simp: btldr_kept_def btldr_fs_flash_erase_def btldr_fs_mount_def btldr_fs_unmount_def
      btldr_fs_is_file_exist_def btldr_fs_open_file_def btldr_fs_close_file_def
      btldr_fs_unlink_file_def btldr_fs_get_file_size_def btldr_fs_lock_and_get_abs_path_def
      btldr_fs_unlock_def on_world_def Let_def split: prod.splits if_splits)

subsection \<open>What the calls do to the device\<close>

definition btldr_path :: "config \<Rightarrow> string \<Rightarrow> string" where
  "btldr_path K n = take (MAX_FILE_NAME K) (RUUVI_FW_UPDATE_MOUNT_POINT K @ ''/'' @ n)"

abbreviation sdev :: "('w \<Rightarrow> dev) \<Rightarrow> ('w, 'x) btldr_scheme \<Rightarrow> dev" where
  "sdev dv s \<equiv> dv (world s)"

text \<open>The device \<open>d\<close> is \<open>d0\<close> with the file \<open>p\<close> freshly opened as \<open>f\<close>.\<close>

definition opened :: "dev \<Rightarrow> string \<Rightarrow> fs_file_t \<Rightarrow> dev \<Rightarrow> bool" where
  "opened d0 p f d \<longleftrightarrow> (\<exists>h. filep f = Some h \<and> d_fds d0 h = None
     \<and> d = d0\<lparr>d_fds := (d_fds d0)(h \<mapsto> (p, 0))\<rparr>)"

lemma opened_frame:
  "opened d0 p f d \<Longrightarrow> d_files d = d_files d0 \<and> d_area d = d_area d0 \<and> d_flash d = d_flash d0
   \<and> filep f \<noteq> None"
  by (auto simp: opened_def)

lemma opened_at: "opened d0 p f d \<Longrightarrow> d_files d0 p = Some bs \<Longrightarrow> file_at d f = Some (bs, 0)"
  by (auto simp: opened_def file_at_def)

lemmas btldr_run =
  btldr_fs_lock_and_get_abs_path_def btldr_fs_unlock_def btldr_path_def on_world_def Let_def

lemma btldr_fs_open_file_answer [spec]:
  assumes "fs_spec rel dv E" and "btldr_fs_open_file K E n s = (f, s')"
  shows "filep f = None \<and> sdev dv s' = sdev dv s \<and> \<not> (rel \<and> d_files (sdev dv s) (btldr_path K n) \<noteq> None)
    \<or> filep f \<noteq> None \<and> opened (sdev dv s) (btldr_path K n) f (sdev dv s')
      \<and> (\<exists>bs. d_files (sdev dv s) (btldr_path K n) = Some bs
            \<and> reading rel dv E f bs (sdev dv s') 0 (world s'))"
proof -
  obtain rc f0 w' where call: "fs_open E (btldr_path K n) (world s) = ((rc, f0), w')"
    by (metis prod.exhaust)
  have res: "f = (if rc < 0 then f0\<lparr>filep := None\<rparr> else f0)" "world s' = w'"
    using assms(2) call
    by (auto simp: btldr_fs_open_file_def btldr_run split: prod.splits)
  have "fs_open_spec rel dv E"
    by (rule fs_specD [OF assms(1)])
  then consider (ok) h where "rc = 0" "d_files (sdev dv s) (btldr_path K n) \<noteq> None" "filep f0 = Some h"
      "d_fds (sdev dv s) h = None" "dv w' = (sdev dv s)\<lparr>d_fds := (d_fds (sdev dv s))(h \<mapsto> (btldr_path K n, 0))\<rparr>"
    | (fail) "rc < 0" "dv w' = sdev dv s" "\<not> (rel \<and> d_files (sdev dv s) (btldr_path K n) \<noteq> None)"
    using call unfolding fs_open_spec_def by blast
  then show ?thesis
  proof cases
    case ok
    then obtain bs where bs: "d_files (sdev dv s) (btldr_path K n) = Some bs"
      by blast
    have op: "opened (sdev dv s) (btldr_path K n) f (sdev dv s')"
      using ok res by (auto simp: opened_def)
    show ?thesis
      using op bs opened_at [OF op bs] opened_frame [OF op] readingI [OF assms(1)] by blast
  next
    case fail
    then show ?thesis
      using res by simp
  qed
qed

lemma fs_close_answer:
  assumes "reading rel dv E f bs d pos w" and "opened d0 p f d" and "fs_close E f w = (rc, w')"
  shows "dv w' = d0"
proof -
  obtain h where h: "filep f = Some h" "d_fds d0 h = None" "d = d0\<lparr>d_fds := (d_fds d0)(h \<mapsto> (p, 0))\<rparr>"
    using assms(2) by (auto simp: opened_def)
  have "fs_close_spec dv E"
    using assms(1) by (auto simp: reading_def fs_spec_def)
  then have "dv w' = (dv w)\<lparr>d_fds := (d_fds (dv w))(h := None)\<rparr>"
    using assms(3) h(1) unfolding fs_close_spec_def by blast
  moreover have "dv w = set_pos f pos d"
    using assms(1) by (simp add: reading_def)
  ultimately show ?thesis
    using h by (cases d0) (simp add: set_pos_def fun_upd_idem)
qed

lemma btldr_fs_close_file_answer [spec]:
  assumes "reading rel dv E f bs d pos (world s)" and "opened d0 p f d"
  shows "sdev dv (btldr_fs_close_file E f s) = d0"
  using fs_close_answer [OF assms] by (auto simp: btldr_fs_close_file_def on_world_def split: prod.split)

lemma btldr_fs_is_file_exist_answer [spec]:
  assumes "fs_spec rel dv E" and "btldr_fs_is_file_exist K E n s = (r, s')"
  shows "sdev dv s' = sdev dv s \<and> (r \<longrightarrow> d_files (sdev dv s) (btldr_path K n) \<noteq> None)
    \<and> (rel \<longrightarrow> r = (d_files (sdev dv s) (btldr_path K n) \<noteq> None))"
proof -
  obtain rc ty w' where call: "fs_stat E (btldr_path K n) (world s) = ((rc, ty), w')"
    by (metis prod.exhaust)
  have res: "r \<longleftrightarrow> rc = 0 \<and> ty = FS_DIR_ENTRY_FILE" "world s' = w'"
    using assms(2) call
    by (auto simp: btldr_fs_is_file_exist_def btldr_run ENOENT_def split: prod.splits if_splits)
  have "fs_stat_spec rel dv E"
    by (rule fs_specD [OF assms(1)])
  then show ?thesis
    using call res unfolding fs_stat_spec_def by blast
qed

lemma btldr_fs_unlink_file_answer [spec]:
  assumes "fs_spec rel dv E" and "btldr_fs_unlink_file K E n s = (r, s')"
  shows "r \<and> sdev dv s' = (sdev dv s)\<lparr>d_files := (d_files (sdev dv s))(btldr_path K n := None)\<rparr>
    \<or> \<not> r \<and> sdev dv s' = sdev dv s \<and> \<not> (rel \<and> d_files (sdev dv s) (btldr_path K n) \<noteq> None)"
proof -
  obtain rc w' where call: "fs_unlink E (btldr_path K n) (world s) = (rc, w')"
    by (metis prod.exhaust)
  have res: "r \<longleftrightarrow> \<not> rc < 0" "world s' = w'"
    using assms(2) call by (auto simp: btldr_fs_unlink_file_def btldr_run split: prod.splits)
  have "fs_unlink_spec rel dv E"
    by (rule fs_specD [OF assms(1)])
  then show ?thesis
    using call res unfolding fs_unlink_spec_def by force
qed

lemma btldr_fs_get_file_size_answer [spec]:
  assumes "reading rel dv E f bs d pos (world s)" and "btldr_fs_get_file_size E f s = (n, s')"
  shows "\<exists>pos'. reading rel dv E f bs d pos' (world s') \<and> (n = 0 \<or> n = int (length bs))
     \<and> (rel \<and> pos \<le> length bs \<longrightarrow> n = int (length bs) \<and> pos' = pos)
     \<and> (n = int (length bs) \<or> (\<exists>w. fst (fs_seek E f 0 FS_SEEK_END w) \<noteq> 0))"
proof -
  obtain rc w1 where s1: "fs_seek E f 0 FS_SEEK_END (world s) = (rc, w1)"
    by (metis prod.exhaust)
  obtain rc2 w2 where s2: "fs_seek E f (int pos) FS_SEEK_SET w1 = (rc2, w2)"
    by (metis prod.exhaust)
  have tell: "fs_tell E f (world s) = int pos"
    by (rule reading_tell [OF assms(1)])
  show ?thesis
  proof (cases "rc = 0")
    case True
    have at_end: "reading rel dv E f bs d (length bs) w1"
      using reading_seek [OF assms(1) s1] True by (auto simp: fs_seek_target_def)
    have res: "n = int (length bs)" "world s' = w2"
      using assms(2) True reading_tell [OF at_end]
      by (auto simp: btldr_fs_get_file_size_def on_world_def tell s1 s2 Let_def)
    show ?thesis
      using reading_seek [OF at_end s2] res by (auto simp: fs_seek_target_def)
  next
    case False
    then have "n = 0" "world s' = w1"
      using assms(2) by (auto simp: btldr_fs_get_file_size_def on_world_def tell s1 Let_def)
    then show ?thesis
      using reading_seek [OF assms(1) s1] False s1
      by (auto simp: fs_seek_target_def intro!: exI [of _ "world s"])
  qed
qed

text \<open>
  Measuring an open file gives its length, or 0 where seeking fails, and changes nothing but
  its position; on a reliable file system it gives the length and restores the position.
\<close>

lemma btldr_fs_get_file_size_measures:
  assumes "fs_spec rel dv E" and "file_at (sdev dv s) f = Some (bs, pos)" and "pos \<le> length bs"
    and "btldr_fs_get_file_size E f s = (n, s')"
  shows "(\<exists>pos'. sdev dv s' = set_pos f pos' (sdev dv s)) \<and> (n = 0 \<or> n = int (length bs))
    \<and> (rel \<longrightarrow> n = int (length bs) \<and> sdev dv s' = sdev dv s)"
proof -
  have rd: "reading rel dv E f bs (sdev dv s) pos (world s)"
    by (rule readingI [OF assms(1,2)])
  obtain pos' where r: "reading rel dv E f bs (sdev dv s) pos' (world s')"
      "n = 0 \<or> n = int (length bs)" "rel \<longrightarrow> n = int (length bs) \<and> pos' = pos"
    using btldr_fs_get_file_size_answer [OF rd assms(4)] assms(3) by blast
  have "sdev dv s' = set_pos f pos' (sdev dv s)"
    using r(1) by (simp add: reading_def)
  then show ?thesis
    using r(2,3) set_pos_same [OF assms(2)] by auto
qed

subsection \<open>Properties\<close>

text \<open>
  C28. Every call of this file, on every path, leaves the mutex locked as often as it found it and
  the static data of the other components untouched.
\<close>

theorem btldr_fs_releases_mutex:
  "g_btldr_fs_mutex (snd (btldr_fs_mount K E s)) = g_btldr_fs_mutex s
   \<and> g_btldr_fs_mutex (btldr_fs_unmount K E s) = g_btldr_fs_mutex s
   \<and> g_btldr_fs_mutex (snd (btldr_fs_is_file_exist K E n s)) = g_btldr_fs_mutex s
   \<and> g_btldr_fs_mutex (snd (btldr_fs_open_file K E n s)) = g_btldr_fs_mutex s
   \<and> g_btldr_fs_mutex (btldr_fs_close_file E f s) = g_btldr_fs_mutex s
   \<and> g_btldr_fs_mutex (snd (btldr_fs_unlink_file K E n s)) = g_btldr_fs_mutex s
   \<and> g_btldr_fs_mutex (snd (btldr_fs_get_file_size E f s)) = g_btldr_fs_mutex s"
proof -
  have kept: "btldr_kept s s' \<Longrightarrow> g_btldr_fs_mutex s' = g_btldr_fs_mutex s" for s'
    by (simp add: btldr_kept_def)
  show ?thesis
    by (intro conjI kept btldr_kept_calls(3,5,6,8,9) [OF prod.collapse [symmetric]] btldr_kept_calls(4,7))
qed

definition demo_btldr :: "ram \<Rightarrow> ram btldr" where
  "demo_btldr w = \<lparr>world = w, g_btldr_fs_mutex = 0, g_btldr_fs_abs_path = [],
     g_btldr_fs_dir_entry = FS_DIR_ENTRY_FILE\<rparr>"

text \<open>
  C27. Looking up, opening, closing and removing a file do just that to the device: a lookup
  changes nothing and confirms only files that exist; a file that was opened and is closed leaves
  the device as it was; removing a file removes that file or, where it fails, nothing. On a
  reliable file system a file that exists is found, opened and removed.
\<close>

theorem btldr_fs_files_refine:
  assumes "fs_spec rel dv E"
    and "btldr_fs_is_file_exist K E n s = (found, s1)"
    and "btldr_fs_open_file K E n s = (f, s2)"
    and "btldr_fs_unlink_file K E n s = (gone, s3)"
  shows "sdev dv s1 = sdev dv s \<and> (found \<longrightarrow> d_files (sdev dv s) (btldr_path K n) \<noteq> None)
    \<and> (if filep f = None then sdev dv s2 = sdev dv s
       else sdev dv (btldr_fs_close_file E f s2) = sdev dv s
         \<and> (\<exists>bs. d_files (sdev dv s) (btldr_path K n) = Some bs \<and> file_at (sdev dv s2) f = Some (bs, 0)))
    \<and> sdev dv s3 = (if gone then (sdev dv s)\<lparr>d_files := (d_files (sdev dv s))(btldr_path K n := None)\<rparr>
                   else sdev dv s)
    \<and> (rel \<and> d_files (sdev dv s) (btldr_path K n) \<noteq> None \<longrightarrow> found \<and> filep f \<noteq> None \<and> gone)"
proof -
  have "if filep f = None then sdev dv s2 = sdev dv s
       else sdev dv (btldr_fs_close_file E f s2) = sdev dv s
         \<and> (\<exists>bs. d_files (sdev dv s) (btldr_path K n) = Some bs \<and> file_at (sdev dv s2) f = Some (bs, 0))"
    using btldr_fs_open_file_answer [OF assms(1,3)] btldr_fs_close_file_answer reading_file_at
    by (smt (verit, best))
  then show ?thesis
    using btldr_fs_is_file_exist_answer [OF assms(1,2)] btldr_fs_open_file_answer [OF assms(1,3)]
      btldr_fs_unlink_file_answer [OF assms(1,4)]
    by (cases gone; cases "filep f = None") auto
qed

theorem btldr_fs_files_refine_witness:
  "fst (btldr_fs_is_file_exist demo_config (ram_os demo_abi demo_config) ''ap'' (demo_btldr demo_ram))
   \<and> filep (fst (btldr_fs_open_file demo_config (ram_os demo_abi demo_config) ''ap'' (demo_btldr demo_ram))) \<noteq> None
   \<and> fst (btldr_fs_unlink_file demo_config (ram_os demo_abi demo_config) ''ap'' (demo_btldr demo_ram))"
proof -
  have "d_files (sdev ram_view (demo_btldr demo_ram)) (btldr_path demo_config ''ap'') \<noteq> None"
    by (simp add: demo_btldr_def btldr_path_def demo_config_def demo_ram_def ram_view_def
        demo_image_def)
  with btldr_fs_files_refine [OF ram_fs_spec prod.collapse [symmetric] prod.collapse [symmetric]
      prod.collapse [symmetric], where K = demo_config and n = "''ap''" and s = "demo_btldr demo_ram"]
  show ?thesis
    by blast
qed

end
