(* ===== verification/Fa_Utils.thy ===== *)
theory Fa_Utils
  imports Ram_Device
begin

section \<open>Flash area helpers (\<open>mcuboot_fa_utils.c\<close>)\<close>

text \<open>
  Address and size of a flash area, the header of the image in an area, and the version of the
  running MCUboot image. \<open>get_image_slot_name\<close> only names areas in log messages and is not modelled.
\<close>

definition mcuboot_s0_s1_image_version :: "config \<Rightarrow> image_version" where
  "mcuboot_s0_s1_image_version K = cfg_s0_s1_image_version K"

text \<open>The callers initialise what the out-pointers point at with 0.\<close>

definition get_flash_area_address_and_size ::
  "'w os \<Rightarrow> fa_id_t \<Rightarrow> 'w \<Rightarrow> (bool \<times> u32 \<times> u32) \<times> 'w"
where
  "get_flash_area_address_and_size E i w =
     (case flash_area_open E i w of ((rc, fa), w) \<Rightarrow>
      if rc \<noteq> 0 then ((False, 0, 0), w)
      else ((True, fa_off fa, fa_size fa), flash_area_close E fa w))"

definition load_image_header ::
  "'w os \<Rightarrow> fa_id_t \<Rightarrow> image_header \<Rightarrow> 'w \<Rightarrow> (bool \<times> image_header) \<times> 'w"
where
  "load_image_header E i img_hdr w =
     (case flash_area_open E i w of ((rc, fa), w) \<Rightarrow>
      if rc \<noteq> 0 then ((False, img_hdr), w)
      else (case boot_image_load_header E fa w of ((rc, img_hdr), w) \<Rightarrow>
        if rc \<noteq> 0 then ((False, img_hdr), flash_area_close E fa w)
        else ((True, img_hdr), flash_area_close E fa w)))"

lemma get_flash_area_address_and_size_answer [spec]:
  assumes "flash_spec rel dv E" and "get_flash_area_address_and_size E i w = ((ok, addr, sz), w')"
  shows "dv w' = dv w \<and> (ok \<longrightarrow> (\<exists>fa. d_area (dv w) i = Some fa \<and> addr = fa_off fa \<and> sz = fa_size fa
      \<and> length (d_flash (dv w) i) = unat sz))
    \<and> (rel \<and> d_area (dv w) i \<noteq> None \<longrightarrow> ok)"
proof -
  obtain rc fa w1 where op: "flash_area_open E i w = ((rc, fa), w1)"
    by (metis prod.exhaust)
  have "dv w1 = dv w" "rc = 0 \<Longrightarrow> d_area (dv w) i = Some fa" "rel \<Longrightarrow> rc \<noteq> 0 \<Longrightarrow> d_area (dv w) i = None"
    using flash_specD(1) [OF assms(1)] op unfolding flash_open_spec_def by blast+
  moreover have "dv (flash_area_close E fa w1) = dv w1"
    using flash_specD(3) [OF assms(1)] by (simp add: flash_close_spec_def)
  ultimately show ?thesis
    using assms(2) flash_specD(2) [OF assms(1)]
    by (cases "rc = 0") (auto simp: get_flash_area_address_and_size_def op flash_area_wf_def)
qed

lemma load_image_header_frame [frame]:
  assumes "flash_spec rel dv E" and "query_spec dv E" and "load_image_header E i h w = (r, w')"
  shows "dv w' = dv w"
proof -
  obtain rc fa w1 where op: "flash_area_open E i w = ((rc, fa), w1)"
    by (metis prod.exhaust)
  obtain r2 w2 where ld: "boot_image_load_header E fa w1 = (r2, w2)"
    by (metis prod.exhaust)
  have "dv w1 = dv w"
    using flash_specD(1) [OF assms(1)] op unfolding flash_open_spec_def by blast
  moreover have "dv w2 = dv w1"
    using assms(2) ld unfolding query_spec_def by blast
  moreover have "dv (flash_area_close E fa w') = dv w'" for w'
    using flash_specD(3) [OF assms(1)] by (simp add: flash_close_spec_def)
  ultimately show ?thesis
    using assms(3) by (auto simp: load_image_header_def op ld split: if_splits prod.splits)
qed

end
