(* ===== verification/Hw_Rev.thy ===== *)
theory Hw_Rev
  imports File_Tlv
begin

unbundle bit_operations_syntax

section \<open>The hardware revision of an image (\<open>fw_img_hw_rev.c\<close>)\<close>

text \<open>
  Two parsers of the protected TLVs, one over a flash area and one over an open file, that look for
  the identifier and the name of the hardware revision an image was built for. The parser of the
  file accepts reads that return fewer bytes than asked for, so the structures it reads into keep
  what they held before; the buffer of the TLV header is therefore part of the loop's state.

  The theorems: the byte order of the identifier, that both parsers return, that a name they report
  is a terminated string, and that they agree on the same image.
\<close>

subsection \<open>Data\<close>

definition FW_INFO_HW_REV_NAME_MAX_LEN :: nat where
  "FW_INFO_HW_REV_NAME_MAX_LEN = 15"

record fw_image_hw_rev_t =
  hw_rev_num :: u32
  hw_rev_name :: "byte list"

definition hw_rev_zero :: fw_image_hw_rev_t where
  "hw_rev_zero = \<lparr>hw_rev_num = 0, hw_rev_name = replicate (FW_INFO_HW_REV_NAME_MAX_LEN + 1) 0\<rparr>"

definition u32_from_bytes_be :: "byte list \<Rightarrow> u32" where
  "u32_from_bytes_be buf =
     foldl (\<lambda>res i. res OR push_bit (24 - i * 8) (ucast (buf ! i))) 0 [0..<4]"

definition u32_to_bytes_be :: "u32 \<Rightarrow> byte list" where
  "u32_to_bytes_be x = map (\<lambda>i. ucast (drop_bit (24 - i * 8) x)) [0..<4]"

subsection \<open>Locating the TLVs\<close>

definition find_tlvs_in_flash_area ::
  "image_abi \<Rightarrow> 'w os \<Rightarrow> flash_area \<Rightarrow> u16 \<Rightarrow> u32 \<Rightarrow> 'w \<Rightarrow> (bool \<times> u32 \<times> u32) \<times> 'w"
where
  "find_tlvs_in_flash_area A E fa magic start_offset w =
     (case flash_area_read E fa (off_of_u32 start_offset) (sizeof_image_tlv_info A) w of ((rc, data), w) \<Rightarrow>
      if rc \<noteq> 0 then ((False, 0, 0), w)
      else let tlv_info = image_tlv_info_of A data in
        if it_magic tlv_info \<noteq> magic then ((False, 0, 0), w)
        else let start = start_offset + of_nat (sizeof_image_tlv_info A)
             in ((True, start, start + ucast (it_tlv_tot tlv_info)), w))"

definition find_tlvs_in_file ::
  "image_abi \<Rightarrow> 'w os \<Rightarrow> fs_file_t \<Rightarrow> u16 \<Rightarrow> u32 \<Rightarrow> 'w \<Rightarrow> (bool \<times> u32 \<times> u32) \<times> 'w"
where
  "find_tlvs_in_file A E p_file magic start_offset w =
     (case fs_seek E p_file (off_of_u32 start_offset) FS_SEEK_SET w of (rc, w) \<Rightarrow>
      if rc \<noteq> 0 then ((False, 0, 0), w)
      else (case fs_read E p_file (sizeof_image_tlv_info A) w of ((rc, data), w) \<Rightarrow>
        if rc < 0 then ((False, 0, 0), w)
        else let tlv_info = image_tlv_info_of A (overlay data (replicate (sizeof_image_tlv_info A) 0)) in
          if it_magic tlv_info \<noteq> magic then ((False, 0, 0), w)
          else let start = start_offset + of_nat (sizeof_image_tlv_info A)
               in ((True, start, start + ucast (it_tlv_tot tlv_info)), w)))"

subsection \<open>One TLV\<close>

text \<open>Both handlers treat the identifier first and then the name.\<close>

definition hw_rev_num_in_flash_area ::
  "image_abi \<Rightarrow> 'w os \<Rightarrow> image_tlv \<Rightarrow> flash_area \<Rightarrow> u32 \<Rightarrow> fw_image_hw_rev_t \<Rightarrow> 'w
   \<Rightarrow> (bool \<times> fw_image_hw_rev_t) \<times> 'w"
where
  "hw_rev_num_in_flash_area A E tlv fa data_off hw_rev w =
     (if it_type tlv = IMAGE_TLV_RUUVI_HW_REV_ID A then
        if unat (it_len tlv) \<noteq> 4 then ((False, hw_rev), w)
        else if hw_rev_num hw_rev \<noteq> 0 then ((False, hw_rev), w)
        else (case flash_area_read E fa (off_of_u32 (data_off + of_nat (sizeof_image_tlv A))) 4 w of
          ((rc, buf), w) \<Rightarrow>
            if rc \<noteq> 0 then ((False, hw_rev), w)
            else ((True, hw_rev\<lparr>hw_rev_num := u32_from_bytes_be (overlay buf (replicate 4 0))\<rparr>), w))
      else ((True, hw_rev), w))"

definition hw_rev_name_in_flash_area ::
  "image_abi \<Rightarrow> 'w os \<Rightarrow> image_tlv \<Rightarrow> flash_area \<Rightarrow> u32 \<Rightarrow> fw_image_hw_rev_t \<Rightarrow> 'w
   \<Rightarrow> (bool \<times> fw_image_hw_rev_t) \<times> 'w"
where
  "hw_rev_name_in_flash_area A E tlv fa data_off hw_rev w =
     (if it_type tlv = IMAGE_TLV_RUUVI_HW_REV_NAME A then
        if unat (it_len tlv) \<ge> FW_INFO_HW_REV_NAME_MAX_LEN + 1 then ((False, hw_rev), w)
        else if hw_rev_name hw_rev ! 0 \<noteq> 0 then ((False, hw_rev), w)
        else (case flash_area_read E fa (off_of_u32 (data_off + of_nat (sizeof_image_tlv A)))
                     (unat (it_len tlv)) w of
          ((rc, buf), w) \<Rightarrow>
            let hw_rev = hw_rev\<lparr>hw_rev_name := overlay buf (hw_rev_name hw_rev)\<rparr> in
            if rc \<noteq> 0 then ((False, hw_rev), w)
            else ((True, hw_rev\<lparr>hw_rev_name := (hw_rev_name hw_rev)[unat (it_len tlv) := 0]\<rparr>), w))
      else ((True, hw_rev), w))"

definition fw_img_hw_rev_handle_tlv_hw_rev_in_flash_area ::
  "image_abi \<Rightarrow> 'w os \<Rightarrow> image_tlv \<Rightarrow> flash_area \<Rightarrow> u32 \<Rightarrow> fw_image_hw_rev_t \<Rightarrow> 'w
   \<Rightarrow> (bool \<times> fw_image_hw_rev_t) \<times> 'w"
where
  "fw_img_hw_rev_handle_tlv_hw_rev_in_flash_area A E tlv fa data_off hw_rev w =
     (case hw_rev_num_in_flash_area A E tlv fa data_off hw_rev w of ((ok, hw_rev), w) \<Rightarrow>
      if \<not> ok then ((False, hw_rev), w)
      else hw_rev_name_in_flash_area A E tlv fa data_off hw_rev w)"

definition hw_rev_num_in_file ::
  "image_abi \<Rightarrow> 'w os \<Rightarrow> image_tlv \<Rightarrow> fs_file_t \<Rightarrow> fw_image_hw_rev_t \<Rightarrow> 'w
   \<Rightarrow> (bool \<times> fw_image_hw_rev_t) \<times> 'w"
where
  "hw_rev_num_in_file A E tlv p_file hw_rev w =
     (if it_type tlv = IMAGE_TLV_RUUVI_HW_REV_ID A then
        if unat (it_len tlv) \<noteq> 4 then ((False, hw_rev), w)
        else if hw_rev_num hw_rev \<noteq> 0 then ((False, hw_rev), w)
        else (case fs_read E p_file 4 w of ((rc, buf), w) \<Rightarrow>
            if rc < 0 then ((False, hw_rev), w)
            else ((True, hw_rev\<lparr>hw_rev_num := u32_from_bytes_be (overlay buf (replicate 4 0))\<rparr>), w))
      else ((True, hw_rev), w))"

definition hw_rev_name_in_file ::
  "image_abi \<Rightarrow> 'w os \<Rightarrow> image_tlv \<Rightarrow> fs_file_t \<Rightarrow> fw_image_hw_rev_t \<Rightarrow> 'w
   \<Rightarrow> (bool \<times> fw_image_hw_rev_t) \<times> 'w"
where
  "hw_rev_name_in_file A E tlv p_file hw_rev w =
     (if it_type tlv = IMAGE_TLV_RUUVI_HW_REV_NAME A then
        if unat (it_len tlv) \<ge> FW_INFO_HW_REV_NAME_MAX_LEN + 1 then ((False, hw_rev), w)
        else if hw_rev_name hw_rev ! 0 \<noteq> 0 then ((False, hw_rev), w)
        else (case fs_read E p_file (unat (it_len tlv)) w of ((rc, buf), w) \<Rightarrow>
            let hw_rev = hw_rev\<lparr>hw_rev_name := overlay buf (hw_rev_name hw_rev)\<rparr> in
            if rc < 0 then ((False, hw_rev), w)
            else ((True, hw_rev\<lparr>hw_rev_name := (hw_rev_name hw_rev)[unat (it_len tlv) := 0]\<rparr>), w))
      else ((True, hw_rev), w))"

definition fw_img_hw_rev_handle_tlv_hw_rev_in_file ::
  "image_abi \<Rightarrow> 'w os \<Rightarrow> image_tlv \<Rightarrow> fs_file_t \<Rightarrow> fw_image_hw_rev_t \<Rightarrow> 'w
   \<Rightarrow> (bool \<times> fw_image_hw_rev_t) \<times> 'w"
where
  "fw_img_hw_rev_handle_tlv_hw_rev_in_file A E tlv p_file hw_rev w =
     (case hw_rev_num_in_file A E tlv p_file hw_rev w of ((ok, hw_rev), w) \<Rightarrow>
      if \<not> ok then ((False, hw_rev), w)
      else hw_rev_name_in_file A E tlv p_file hw_rev w)"

subsection \<open>The parsers\<close>

definition hw_rev_found :: "fw_image_hw_rev_t \<Rightarrow> bool" where
  "hw_rev_found r \<longleftrightarrow> hw_rev_name r ! 0 \<noteq> 0 \<and> hw_rev_num r \<noteq> 0"

partial_function (option) hw_rev_flash_loop ::
  "image_abi \<Rightarrow> 'w os \<Rightarrow> flash_area \<Rightarrow> u32 \<Rightarrow> u32 \<Rightarrow> fw_image_hw_rev_t \<Rightarrow> 'w
   \<Rightarrow> ((bool \<times> fw_image_hw_rev_t) \<times> 'w) option"
where
  "hw_rev_flash_loop A E fa tlvs_end_off data_off hw_rev w =
     (if data_off + of_nat (sizeof_image_tlv A) \<le> tlvs_end_off then
        let r = flash_area_read E fa (off_of_u32 data_off) (sizeof_image_tlv A) w;
            rc = fst (fst r); tlv = image_tlv_of A (snd (fst r)); w = snd r;
            h = fw_img_hw_rev_handle_tlv_hw_rev_in_flash_area A E tlv fa data_off hw_rev w;
            ok = fst (fst h); hw_rev' = snd (fst h); w' = snd h
        in
        if rc \<noteq> 0 then Some ((False, hw_rev), w)
        else if \<not> ok then Some ((False, hw_rev'), w')
        else if hw_rev_found hw_rev' then Some ((True, hw_rev'), w')
        else hw_rev_flash_loop A E fa tlvs_end_off
               (data_off + (of_nat (sizeof_image_tlv A) + ucast (it_len tlv))) hw_rev' w'
      else Some ((False, hw_rev), w))"

definition fw_img_hw_rev_find_in_flash_area_internal ::
  "image_abi \<Rightarrow> 'w os \<Rightarrow> flash_area \<Rightarrow> fw_image_hw_rev_t \<Rightarrow> 'w
   \<Rightarrow> ((bool \<times> fw_image_hw_rev_t) \<times> 'w) option"
where
  "fw_img_hw_rev_find_in_flash_area_internal A E fa hw_rev w =
     (case boot_image_load_header E fa w of ((rc, img_hdr), w) \<Rightarrow>
      if rc \<noteq> 0 then Some ((False, hw_rev), w)
      else (case find_tlvs_in_flash_area A E fa (IMAGE_TLV_PROT_INFO_MAGIC A) (BOOT_TLV_OFF img_hdr) w of
        ((ok, tlvs_start_off, tlvs_end_off), w) \<Rightarrow>
          if \<not> ok then Some ((False, hw_rev), w)
          else hw_rev_flash_loop A E fa tlvs_end_off tlvs_start_off hw_rev w))"

definition fw_img_hw_rev_find_in_flash_area ::
  "image_abi \<Rightarrow> 'w os \<Rightarrow> fa_id_t \<Rightarrow> fw_image_hw_rev_t \<Rightarrow> 'w \<Rightarrow> ((bool \<times> fw_image_hw_rev_t) \<times> 'w) option"
where
  "fw_img_hw_rev_find_in_flash_area A E i hw_rev w =
     (let hw_rev = hw_rev\<lparr>hw_rev_num := 0, hw_rev_name := (hw_rev_name hw_rev)[0 := 0]\<rparr> in
      case flash_area_open E i w of ((rc, fa), w) \<Rightarrow>
      if rc \<noteq> 0 then Some ((False, hw_rev), w)
      else do {
        (r, w) \<leftarrow> fw_img_hw_rev_find_in_flash_area_internal A E fa hw_rev w;
        Some (r, flash_area_close E fa w)
      })"

partial_function (option) hw_rev_file_loop ::
  "image_abi \<Rightarrow> 'w os \<Rightarrow> fs_file_t \<Rightarrow> u32 \<Rightarrow> u32 \<Rightarrow> byte list \<Rightarrow> fw_image_hw_rev_t \<Rightarrow> 'w
   \<Rightarrow> ((bool \<times> fw_image_hw_rev_t) \<times> 'w) option"
where
  "hw_rev_file_loop A E p_file tlvs_end_off data_off tlv_buf hw_rev w =
     (if data_off + of_nat (sizeof_image_tlv A) \<le> tlvs_end_off then
        let sk = fs_seek E p_file (off_of_u32 data_off) FS_SEEK_SET w;
            r = fs_read E p_file (sizeof_image_tlv A) (snd sk);
            rc = fst (fst r); tlv_buf = overlay (snd (fst r)) tlv_buf; tlv = image_tlv_of A tlv_buf;
            h = fw_img_hw_rev_handle_tlv_hw_rev_in_file A E tlv p_file hw_rev (snd r);
            ok = fst (fst h); hw_rev' = snd (fst h); w' = snd h
        in
        if fst sk \<noteq> 0 then Some ((False, hw_rev), snd sk)
        else if rc < 0 then Some ((False, hw_rev), snd r)
        else if \<not> ok then Some ((False, hw_rev'), w')
        else if hw_rev_found hw_rev' then Some ((True, hw_rev'), w')
        else hw_rev_file_loop A E p_file tlvs_end_off
               (data_off + (of_nat (sizeof_image_tlv A) + ucast (it_len tlv))) tlv_buf hw_rev' w'
      else Some ((False, hw_rev), w))"

definition fw_img_hw_rev_find_in_file ::
  "image_abi \<Rightarrow> 'w os \<Rightarrow> fs_file_t \<Rightarrow> fw_image_hw_rev_t \<Rightarrow> 'w \<Rightarrow> ((bool \<times> fw_image_hw_rev_t) \<times> 'w) option"
where
  "fw_img_hw_rev_find_in_file A E p_file hw_rev w =
     (let hw_rev = hw_rev\<lparr>hw_rev_num := 0, hw_rev_name := (hw_rev_name hw_rev)[0 := 0]\<rparr> in
      case fs_seek E p_file 0 FS_SEEK_SET w of (rc, w) \<Rightarrow>
      if rc \<noteq> 0 then Some ((False, hw_rev), w)
      else (case fs_read E p_file (sizeof_image_header A) w of ((len, data), w) \<Rightarrow>
        if len < 0 then Some ((False, hw_rev), w)
        else if len \<noteq> int (sizeof_image_header A) then Some ((False, hw_rev), w)
        else let img_hdr = image_header_of A data in
          (case find_tlvs_in_file A E p_file (IMAGE_TLV_PROT_INFO_MAGIC A) (BOOT_TLV_OFF img_hdr) w of
            ((ok, tlvs_start_off, tlvs_end_off), w) \<Rightarrow>
              if \<not> ok then Some ((False, hw_rev), w)
              else hw_rev_file_loop A E p_file tlvs_end_off tlvs_start_off
                     (replicate (sizeof_image_tlv A) 0) hw_rev w)))"

subsection \<open>The byte order of the identifier\<close>

lemma u32_from_bytes_be_4:
  "u32_from_bytes_be [a, b, c, d] =
     push_bit 24 (ucast a) OR push_bit 16 (ucast b) OR push_bit 8 (ucast c) OR ucast d"
  by (simp add: u32_from_bytes_be_def upt_rec or.assoc)

lemma u32_to_bytes_be_4:
  "u32_to_bytes_be x = [ucast (drop_bit 24 x), ucast (drop_bit 16 x), ucast (drop_bit 8 x), ucast x]"
  by (simp add: u32_to_bytes_be_def upt_rec)

lemma u32_bytes_join:
  "push_bit 24 (ucast (ucast (drop_bit 24 x) :: byte)) OR push_bit 16 (ucast (ucast (drop_bit 16 x) :: byte))
   OR push_bit 8 (ucast (ucast (drop_bit 8 x) :: byte)) OR ucast (ucast x :: byte) = (x :: u32)"
proof (rule bit_word_eqI)
  fix n
  assume "n < LENGTH(32)"
  then consider "n < 8" | "8 \<le> n" "n < 16" | "16 \<le> n" "n < 24" | "24 \<le> n" "n < 32"
    by fastforce
  then show "bit (push_bit 24 (ucast (ucast (drop_bit 24 x) :: byte) :: u32) OR
      push_bit 16 (ucast (ucast (drop_bit 16 x) :: byte)) OR
      push_bit 8 (ucast (ucast (drop_bit 8 x) :: byte)) OR ucast (ucast x :: byte)) n = bit x n"
    by cases (auto simp: bit_simps less_diff_conv2)
qed

lemma u32_bytes_split:
  fixes a b c d :: byte
  defines "x \<equiv> push_bit 24 (ucast a) OR push_bit 16 (ucast b) OR push_bit 8 (ucast c) OR ucast d :: u32"
  shows "ucast (drop_bit 24 x) = a" "ucast (drop_bit 16 x) = b" "ucast (drop_bit 8 x) = c" "ucast x = d"
  by (rule bit_word_eqI, (auto simp: x_def bit_simps dest: bit_imp_le_length)[])+

subsection \<open>The specification of the search\<close>

definition hw_rev_apply_num ::
  "image_abi \<Rightarrow> byte list \<Rightarrow> image_tlv \<Rightarrow> nat \<Rightarrow> fw_image_hw_rev_t \<Rightarrow> bool \<times> fw_image_hw_rev_t"
where
  "hw_rev_apply_num A bs t pay r =
     (if it_type t \<noteq> IMAGE_TLV_RUUVI_HW_REV_ID A then (True, r)
      else if unat (it_len t) \<noteq> 4 \<or> hw_rev_num r \<noteq> 0 then (False, r)
      else (True, r\<lparr>hw_rev_num := u32_from_bytes_be (bytes_at pay 4 bs)\<rparr>))"

definition hw_rev_apply_name ::
  "image_abi \<Rightarrow> byte list \<Rightarrow> image_tlv \<Rightarrow> nat \<Rightarrow> fw_image_hw_rev_t \<Rightarrow> bool \<times> fw_image_hw_rev_t"
where
  "hw_rev_apply_name A bs t pay r =
     (if it_type t \<noteq> IMAGE_TLV_RUUVI_HW_REV_NAME A then (True, r)
      else if unat (it_len t) > FW_INFO_HW_REV_NAME_MAX_LEN \<or> hw_rev_name r ! 0 \<noteq> 0 then (False, r)
      else (True, r\<lparr>hw_rev_name :=
               (overlay (bytes_at pay (unat (it_len t)) bs) (hw_rev_name r))[unat (it_len t) := 0]\<rparr>))"

definition hw_rev_apply ::
  "image_abi \<Rightarrow> byte list \<Rightarrow> image_tlv \<Rightarrow> nat \<Rightarrow> fw_image_hw_rev_t \<Rightarrow> bool \<times> fw_image_hw_rev_t"
where
  "hw_rev_apply A bs t pay r =
     (case hw_rev_apply_num A bs t pay r of (ok, r) \<Rightarrow>
      if \<not> ok then (False, r) else hw_rev_apply_name A bs t pay r)"

function hw_rev_scan ::
  "image_abi \<Rightarrow> byte list \<Rightarrow> nat \<Rightarrow> nat \<Rightarrow> fw_image_hw_rev_t \<Rightarrow> bool \<times> fw_image_hw_rev_t"
where
  "hw_rev_scan A bs te off r =
     (let t = tlv_entry_at A bs off; pay = off + sizeof_image_tlv A; (ok, r') = hw_rev_apply A bs t pay r in
      if pay = off \<or> te < pay then (False, r)
      else if \<not> ok then (False, r')
      else if hw_rev_found r' then (True, r')
      else hw_rev_scan A bs te (pay + unat (it_len t)) r')"
  by pat_completeness auto
termination
  by (relation "measure (\<lambda>(A, bs, te, off, r). te - off)") auto

declare hw_rev_scan.simps [simp del]

text \<open>The name is a terminated string in a buffer of 16 bytes.\<close>

definition hw_rev_wf :: "fw_image_hw_rev_t \<Rightarrow> bool" where
  "hw_rev_wf r \<longleftrightarrow> length (hw_rev_name r) = FW_INFO_HW_REV_NAME_MAX_LEN + 1
     \<and> hw_rev_name r ! FW_INFO_HW_REV_NAME_MAX_LEN = 0"

lemma hw_rev_wf_zero [simp]: "hw_rev_wf hw_rev_zero"
  by (simp add: hw_rev_wf_def hw_rev_zero_def FW_INFO_HW_REV_NAME_MAX_LEN_def)

lemma overlay_nth_beyond: "length new \<le> n \<Longrightarrow> n < length old \<Longrightarrow> overlay new old ! n = old ! n"
  by (simp add: overlay_def nth_append)

lemma hw_rev_wf_name:
  assumes "hw_rev_wf r" and "length buf \<le> n" and "n \<le> FW_INFO_HW_REV_NAME_MAX_LEN"
  shows "hw_rev_wf (r\<lparr>hw_rev_name := overlay buf (hw_rev_name r)\<rparr>)"
    and "hw_rev_wf (r\<lparr>hw_rev_name := (overlay buf (hw_rev_name r))[n := 0]\<rparr>)"
  using assms by (auto simp: hw_rev_wf_def overlay_nth_beyond nth_list_update)

lemma hw_rev_wf_num [simp]: "hw_rev_wf (r\<lparr>hw_rev_num := x\<rparr>) = hw_rev_wf r"
  by (simp add: hw_rev_wf_def)

subsection \<open>The parser of the file\<close>

lemma num_in_file:
  assumes "reading rel dv E f bs d pos w" and "hw_rev_wf r"
    and "hw_rev_num_in_file A E t f r w = ((ok, r'), w')"
  shows "(\<exists>pos'. reading rel dv E f bs d pos' w'
       \<and> (it_type t \<noteq> IMAGE_TLV_RUUVI_HW_REV_ID A \<longrightarrow> pos' = pos)) \<and> hw_rev_wf r'
    \<and> (rel \<and> pos + 4 \<le> length bs \<longrightarrow> (ok, r') = hw_rev_apply_num A bs t pos r)"
proof -
  obtain rc buf w1 where rd: "fs_read E f 4 w = ((rc, buf), w1)"
    by (metis prod.exhaust)
  show ?thesis
    using assms reading_read [OF assms(1) rd]
    by (auto simp: hw_rev_num_in_file_def rd hw_rev_apply_num_def split: if_splits)
qed

lemma name_in_file:
  assumes "reading rel dv E f bs d pos w" and "hw_rev_wf r"
    and "hw_rev_name_in_file A E t f r w = ((ok, r'), w')"
  shows "(\<exists>pos'. reading rel dv E f bs d pos' w') \<and> hw_rev_wf r'
    \<and> (rel \<longrightarrow> (ok, r') = hw_rev_apply_name A bs t pos r)"
proof -
  let ?n = "unat (it_len t)"
  obtain rc buf w1 where rd: "fs_read E f ?n w = ((rc, buf), w1)"
    by (metis prod.exhaust)
  note r = reading_read [OF assms(1) rd]
  have "length buf \<le> ?n"
    using r by auto
  then have wf: "hw_rev_wf (r\<lparr>hw_rev_name := overlay buf (hw_rev_name r)\<rparr>)"
    "hw_rev_wf (r\<lparr>hw_rev_name := (overlay buf (hw_rev_name r))[?n := 0]\<rparr>)"
    if "?n \<le> FW_INFO_HW_REV_NAME_MAX_LEN"
    using hw_rev_wf_name [OF assms(2) _ that] by auto
  show ?thesis
    using assms r wf
    by (auto simp: hw_rev_name_in_file_def rd hw_rev_apply_name_def Let_def split: if_splits)
qed

lemma handle_file:
  assumes "reading rel dv E f bs d pos w" and "hw_rev_wf r"
    and "fw_img_hw_rev_handle_tlv_hw_rev_in_file A E t f r w = ((ok, r'), w')"
  shows "(\<exists>pos'. reading rel dv E f bs d pos' w') \<and> hw_rev_wf r'
    \<and> (rel \<and> abi_ok A \<and> pos + 4 \<le> length bs \<longrightarrow> (ok, r') = hw_rev_apply A bs t pos r)"
proof -
  obtain ok1 r1 w1 where num: "hw_rev_num_in_file A E t f r w = ((ok1, r1), w1)"
    by (metis prod.exhaust)
  obtain pos1 where n: "reading rel dv E f bs d pos1 w1" "hw_rev_wf r1"
      "it_type t \<noteq> IMAGE_TLV_RUUVI_HW_REV_ID A \<longrightarrow> pos1 = pos"
      "rel \<and> pos + 4 \<le> length bs \<longrightarrow> (ok1, r1) = hw_rev_apply_num A bs t pos r"
    using num_in_file [OF assms(1,2) num] by blast
  have name: "hw_rev_name_in_file A E t f r1 w1 = ((ok, r'), w')" if ok1
    using assms(3) that by (simp add: fw_img_hw_rev_handle_tlv_hw_rev_in_file_def num)
  show ?thesis
  proof (cases ok1)
    case False
    then show ?thesis
      using assms(3) n
      by (auto simp: fw_img_hw_rev_handle_tlv_hw_rev_in_file_def num hw_rev_apply_def split: prod.splits)
  next
    case True
    have "hw_rev_apply_name A bs t pos1 r1 = hw_rev_apply_name A bs t pos r1" if "abi_ok A"
      using n(3) that by (auto simp: hw_rev_apply_name_def abi_ok_def)
    then show ?thesis
      using name_in_file [OF n(1,2) name [OF True]] n(4) True
      by (auto simp: hw_rev_apply_def split: prod.splits)
  qed
qed

text \<open>The offsets of one round of a loop do not wrap.\<close>

lemma tlv_offsets:
  fixes off :: u32
  assumes "abi_ok A" and "unat off < 2 ^ 31 + 2 ^ 17"
  shows "unat (off + of_nat (sizeof_image_tlv A)) = unat off + sizeof_image_tlv A"
    and "unat off < 2 ^ 31 \<Longrightarrow> unat (off + (of_nat (sizeof_image_tlv A) + ucast l))
         = unat off + sizeof_image_tlv A + unat (l :: u16)"
    and "unat off < 2 ^ 31 \<Longrightarrow> unat (off + (of_nat (sizeof_image_tlv A) + ucast l)) < 2 ^ 31 + 2 ^ 17"
proof -
  have st: "sizeof_image_tlv A < 65536"
    using assms(1) by (simp add: abi_ok_def)
  show "unat (off + of_nat (sizeof_image_tlv A)) = unat off + sizeof_image_tlv A"
    using st assms(2) by (subst unat_plus_small) simp_all
  have e: "unat (of_nat (sizeof_image_tlv A) + (ucast l :: u32)) = sizeof_image_tlv A + unat l"
    using st unat_u16_bound [of l] by (subst unat_plus_small) simp_all
  show r: "unat (off + (of_nat (sizeof_image_tlv A) + ucast l)) = unat off + sizeof_image_tlv A + unat l"
    if "unat off < 2 ^ 31"
    using st that unat_u16_bound [of l] e by (subst unat_plus_small) simp_all
  show "unat (off + (of_nat (sizeof_image_tlv A) + ucast l)) < 2 ^ 31 + 2 ^ 17" if "unat off < 2 ^ 31"
    using st that unat_u16_bound [of l] r [OF that] by simp
qed

text \<open>
  Both loops look for the hardware revision in the same way. The contract of one round: either the
  loop ends without a result, on a reliable platform only behind the last entry; or the entry at the
  offset is applied, and the loop ends or goes on behind it. A loop that keeps it does what the search
  over the bytes does.
\<close>

locale hw_rev_scanner =
  fixes A :: image_abi and bs :: "byte list" and te :: u32 and inside :: bool
    and loop :: "u32 \<Rightarrow> 's \<Rightarrow> fw_image_hw_rev_t \<Rightarrow> ((bool \<times> fw_image_hw_rev_t) \<times> 'w) option"
    and good :: "'s \<Rightarrow> bool" and fin :: "'w \<Rightarrow> bool"
  assumes entry_size: "good s \<Longrightarrow> 0 < sizeof_image_tlv A"
    and round: "good s \<Longrightarrow> hw_rev_wf r \<Longrightarrow> unat off < 2 ^ 31 + 2 ^ 17 \<Longrightarrow>
      (\<exists>w'. loop off s r = Some ((False, r), w') \<and> fin w' \<and> (inside \<longrightarrow> unat te < unat off + sizeof_image_tlv A))
      \<or> (\<exists>t ok r' s' w' nxt. unat off < 2 ^ 31 \<and> unat off + sizeof_image_tlv A \<le> unat te
           \<and> unat nxt = unat off + sizeof_image_tlv A + unat (it_len t) \<and> unat nxt < 2 ^ 31 + 2 ^ 17
           \<and> good s' \<and> fin w' \<and> hw_rev_wf r'
           \<and> loop off s r = (if \<not> ok then Some ((False, r'), w') else if hw_rev_found r' then Some ((True, r'), w')
               else loop nxt s' r')
           \<and> (inside \<longrightarrow> t = tlv_entry_at A bs (unat off)
                \<and> (ok, r') = hw_rev_apply A bs t (unat off + sizeof_image_tlv A) r))"
begin

lemma scanned:
  assumes "good s" and "hw_rev_wf r" and "unat off < 2 ^ 31 + 2 ^ 17"
  shows "\<exists>ok r' w'. loop off s r = Some ((ok, r'), w') \<and> fin w' \<and> hw_rev_wf r' \<and> (ok \<longrightarrow> hw_rev_found r')
    \<and> (inside \<longrightarrow> (ok, r') = hw_rev_scan A bs (unat te) (unat off) r)"
  using assms
proof (induction "2 ^ 32 - unat off" arbitrary: off r s rule: less_induct)
  case less
  let ?st = "sizeof_image_tlv A"
  have st: "0 < ?st"
    by (rule entry_size [OF less.prems(1)])
  from round [OF less.prems] show ?case
  proof (elim disjE exE conjE)
    fix w'
    assume "loop off s r = Some ((False, r), w')" "fin w'" "inside \<longrightarrow> unat te < unat off + ?st"
    moreover have "hw_rev_scan A bs (unat te) (unat off) r = (False, r)" if "unat te < unat off + ?st"
      using that by (subst hw_rev_scan.simps) (simp add: Let_def split: prod.split)
    ultimately show ?thesis
      using less.prems(2) by auto
  next
    fix t ok r' s' w' nxt
    assume o31: "unat off < 2 ^ 31" and te: "unat off + ?st \<le> unat te"
      and nxt: "unat nxt = unat off + ?st + unat (it_len t)" "unat nxt < 2 ^ 31 + 2 ^ 17"
      and s': "good s'" "fin w'" "hw_rev_wf r'"
      and run: "loop off s r = (if \<not> ok then Some ((False, r'), w') else if hw_rev_found r' then Some ((True, r'), w')
               else loop nxt s' r')"
      and entry: "inside \<longrightarrow> t = tlv_entry_at A bs (unat off) \<and> (ok, r') = hw_rev_apply A bs t (unat off + ?st) r"
    have scan: "hw_rev_scan A bs (unat te) (unat off) r =
      (if \<not> ok then (False, r') else if hw_rev_found r' then (True, r')
       else hw_rev_scan A bs (unat te) (unat off + ?st + unat (it_len t)) r')" if inside
      using entry that st te by (subst hw_rev_scan.simps) (auto simp: Let_def split: prod.splits)
    have "2 ^ 32 - unat nxt < 2 ^ 32 - unat off"
      using nxt st o31 by simp
    from less.hyps [OF this s'(1,3) nxt(2)] show ?thesis
      using run scan s' nxt(1) by auto
  qed
qed

end

lemma file_round:
  assumes "reading rel dv E f bs d pos w" and "abi_ok A" and "hw_rev_wf r"
    and "unat off < 2 ^ 31 + 2 ^ 17" and "length buf = sizeof_image_tlv A"
  shows "(\<exists>w'. hw_rev_file_loop A E f te off buf r w = Some ((False, r), w') \<and> (\<exists>p. reading rel dv E f bs d p w')
        \<and> (rel \<and> unat te + 4 \<le> length bs \<longrightarrow> unat te < unat off + sizeof_image_tlv A))
    \<or> (\<exists>t ok r' buf' w' nxt. unat off < 2 ^ 31 \<and> unat off + sizeof_image_tlv A \<le> unat te
         \<and> unat nxt = unat off + sizeof_image_tlv A + unat (it_len t) \<and> unat nxt < 2 ^ 31 + 2 ^ 17
         \<and> length buf' = sizeof_image_tlv A \<and> (\<exists>p. reading rel dv E f bs d p w') \<and> hw_rev_wf r'
         \<and> hw_rev_file_loop A E f te off buf r w = (if \<not> ok then Some ((False, r'), w')
             else if hw_rev_found r' then Some ((True, r'), w') else hw_rev_file_loop A E f te nxt buf' r' w')
         \<and> (rel \<and> unat te + 4 \<le> length bs \<longrightarrow> t = tlv_entry_at A bs (unat off)
              \<and> (ok, r') = hw_rev_apply A bs t (unat off + sizeof_image_tlv A) r))"
proof -
  let ?st = "sizeof_image_tlv A"
  define sk where "sk = fs_seek E f (off_of_u32 off) FS_SEEK_SET w"
  define rd where "rd = fs_read E f ?st (snd sk)"
  define buf1 where "buf1 = overlay (snd (fst rd)) buf"
  define t where "t = image_tlv_of A buf1"
  define h where "h = fw_img_hw_rev_handle_tlv_hw_rev_in_file A E t f r (snd rd)"
  define nxt where "nxt = off + (of_nat ?st + ucast (it_len t))"
  have run: "hw_rev_file_loop A E f te off buf r w =
     (if off + of_nat ?st \<le> te then
        if fst sk \<noteq> 0 then Some ((False, r), snd sk)
        else if fst (fst rd) < 0 then Some ((False, r), snd rd)
        else if \<not> fst (fst h) then Some ((False, snd (fst h)), snd h)
        else if hw_rev_found (snd (fst h)) then Some ((True, snd (fst h)), snd h)
        else hw_rev_file_loop A E f te nxt buf1 (snd (fst h)) (snd h)
      else Some ((False, r), w))"
    by (subst hw_rev_file_loop.simps)
       (simp only: Let_def sk_def [symmetric] rd_def [symmetric] buf1_def [symmetric] t_def [symmetric]
         h_def [symmetric] nxt_def [symmetric])
  note offs = tlv_offsets [OF assms(2,4)]
  have seek: "fst sk = 0 \<and> unat off < 2 ^ 31 \<and> reading rel dv E f bs d (unat off) (snd sk)
      \<or> fst sk < 0 \<and> reading rel dv E f bs d pos (snd sk) \<and> \<not> (rel \<and> unat off \<le> length bs)"
    using seek_u32 [OF assms(1), of off "fst sk" "snd sk"] by (simp add: sk_def)
  have le: "off + of_nat ?st \<le> te \<longleftrightarrow> \<not> unat te < unat off + ?st"
    by (simp add: word_le_nat_alt offs(1) not_less)
  show ?thesis
  proof (cases "off + of_nat ?st \<le> te \<and> fst sk = 0 \<and> \<not> fst (fst rd) < 0")
    case False
    note rd1 = reading_read [of rel dv E f bs d "unat off" "snd sk" ?st "fst (fst rd)" "snd (fst rd)" "snd rd"]
    have "fst sk = 0 \<Longrightarrow> \<exists>p. reading rel dv E f bs d p (snd rd)"
      using rd1 seek by (auto simp: rd_def)
    moreover have "unat te < unat off + ?st" if "rel" "unat te + 4 \<le> length bs"
    proof -
      have "unat off + ?st \<le> unat te \<Longrightarrow> fst sk = 0 \<and> \<not> fst (fst rd) < 0"
        using that seek rd1 by (auto simp: rd_def)
      then show ?thesis
        using False le by linarith
    qed
    ultimately show ?thesis
      using False run assms(1) seek by (intro disjI1) (auto split: if_splits)
  next
    case True
    have rd1: "reading rel dv E f bs d (unat off) (snd sk)" and o31: "unat off < 2 ^ 31"
      using seek True by auto
    have rd2: "snd (fst rd) = bytes_at (unat off) ?st bs"
      "reading rel dv E f bs d (unat off + length (snd (fst rd))) (snd rd)"
      using reading_read [OF rd1, of ?st "fst (fst rd)" "snd (fst rd)" "snd rd"] True
      by (auto simp: rd_def)
    have buf1: "length buf1 = ?st"
      using assms(5) rd2(1) by (simp add: buf1_def)
    obtain ok r' w' where h: "h = ((ok, r'), w')"
      by (metis prod.exhaust)
    have hh: "\<exists>p. reading rel dv E f bs d p w'" "hw_rev_wf r'"
        "rel \<and> unat off + length (snd (fst rd)) + 4 \<le> length bs \<Longrightarrow>
         (ok, r') = hw_rev_apply A bs t (unat off + length (snd (fst rd))) r"
      using handle_file [OF rd2(2) assms(3) h [unfolded h_def]] assms(2) by auto
    have entry: "t = tlv_entry_at A bs (unat off) \<and> (ok, r') = hw_rev_apply A bs t (unat off + ?st) r"
      if "rel \<and> unat te + 4 \<le> length bs"
    proof -
      have inside: "unat off + ?st + 4 \<le> length bs"
        using that True le by linarith
      have full: "length (snd (fst rd)) = ?st"
        using rd2(1) inside by simp
      then show ?thesis
        using rd2(1) assms(5) hh(3) that inside by (simp add: t_def buf1_def tlv_entry_at_def)
    qed
    have nxt: "unat nxt = unat off + ?st + unat (it_len t)" "unat nxt < 2 ^ 31 + 2 ^ 17"
      using offs(2,3) [OF o31] by (simp_all only: nxt_def)
    have "hw_rev_file_loop A E f te off buf r w = (if \<not> ok then Some ((False, r'), w')
             else if hw_rev_found r' then Some ((True, r'), w') else hw_rev_file_loop A E f te nxt buf1 r' w')"
      using run True h by simp
    moreover have "unat off + ?st \<le> unat te"
      using True le by simp
    ultimately show ?thesis
      using o31 nxt buf1 hh(1,2) entry by blast
  qed
qed

interpretation file_scan: hw_rev_scanner A bs te "rel \<and> unat te + 4 \<le> length bs"
    "\<lambda>off (buf, w) r. hw_rev_file_loop A E f te off buf r w"
    "\<lambda>(buf, w). abi_ok A \<and> length buf = sizeof_image_tlv A \<and> (\<exists>p. reading rel dv E f bs d p w)"
    "\<lambda>w. \<exists>p. reading rel dv E f bs d p w"
  for rel dv E f bs d A te
proof (unfold_locales, goal_cases)
  case (1 s)
  then show ?case
    by (auto simp: abi_ok_def)
next
  case (2 s r off)
  obtain buf w p where s: "s = (buf, w)" and good: "abi_ok A" "length buf = sizeof_image_tlv A"
    "reading rel dv E f bs d p w"
    using 2(1) by (cases s) auto
  from file_round [OF good(3,1) 2(2,3) good(2), of te] show ?case
  proof (elim disjE exE conjE, goal_cases)
    case (1 w')
    then show ?case
      unfolding s prod.case by blast
  next
    case (2 t ok r' buf' w' nxt p)
    then show ?case
      unfolding s prod.case using good(1)
      by (intro disjI2 exI [of _ t] exI [of _ ok] exI [of _ r'] exI [of _ "(buf', w')"] exI [of _ w'] exI [of _ nxt])
         (simp only: prod.case; blast)
  qed
qed

lemma file_loop:
  assumes "reading rel dv E f bs d pos w" and "abi_ok A" and "hw_rev_wf r"
    and "unat off < 2 ^ 31 + 2 ^ 17" and "length buf = sizeof_image_tlv A"
  shows "\<exists>ok r' w' pos'. hw_rev_file_loop A E f te off buf r w = Some ((ok, r'), w')
    \<and> reading rel dv E f bs d pos' w' \<and> hw_rev_wf r' \<and> (ok \<longrightarrow> hw_rev_found r')
    \<and> (rel \<and> unat te + 4 \<le> length bs \<longrightarrow> (ok, r') = hw_rev_scan A bs (unat te) (unat off) r)"
  using file_scan.scanned [where A = A and rel = rel and dv = dv and E = E and f = f and bs = bs and d = d
      and s = "(buf, w)" and r = r and off = off and te = te] assms by auto

subsection \<open>The parser of the flash area\<close>

lemma flash_read_u32:
  assumes "flash_spec rel dv E" and "d_area (dv w) (fa_id fa) = Some fa"
    and "flash_area_read E fa (off_of_u32 off) n w = ((rc, data), w')"
  defines "fl \<equiv> d_flash (dv w) (fa_id fa)"
  shows "dv w' = dv w \<and> length data \<le> n
     \<and> (rc = 0 \<longrightarrow> unat off < 2 ^ 31 \<and> unat off + n \<le> length fl \<and> data = bytes_at (unat off) n fl)
     \<and> (rel \<and> unat off < 2 ^ 31 \<and> unat off + n \<le> length fl \<longrightarrow> rc = 0)"
proof -
  let ?ok = "0 \<le> off_of_u32 off \<and> nat (off_of_u32 off) + n \<le> length fl"
  have "flash_read_spec rel dv E"
    by (rule flash_specD [OF assms(1)])
  then have r: "dv w' = dv w \<and> length data \<le> n \<and> (rc = 0 \<longrightarrow> ?ok \<and> data = bytes_at (nat (off_of_u32 off)) n fl)
     \<and> (rel \<and> ?ok \<longrightarrow> rc = 0)"
    using assms(2,3) unfolding flash_read_spec_def Let_def fl_def by blast
  show ?thesis
  proof (cases "unat off < 2 ^ 31")
    case True
    then show ?thesis
      using r by (auto simp: off_of_u32_small)
  next
    case False
    then have "\<not> 0 \<le> off_of_u32 off"
      using off_of_u32_nonneg(2) [of off] by blast
    then show ?thesis
      using r False by blast
  qed
qed

lemma num_in_flash:
  assumes "flash_spec rel dv E" and "d_area (dv w) (fa_id fa) = Some fa" and "hw_rev_wf r"
    and "hw_rev_num_in_flash_area A E t fa off r w = ((ok, r'), w')"
    and "unat (off + of_nat (sizeof_image_tlv A)) = pay"
  shows "dv w' = dv w \<and> hw_rev_wf r'
    \<and> (rel \<and> pay < 2 ^ 31 \<and> pay + 4 \<le> length (d_flash (dv w) (fa_id fa)) \<longrightarrow>
        (ok, r') = hw_rev_apply_num A (d_flash (dv w) (fa_id fa)) t pay r)"
proof -
  obtain rc buf w1 where rd: "flash_area_read E fa (off_of_u32 (off + of_nat (sizeof_image_tlv A))) 4 w
      = ((rc, buf), w1)"
    by (metis prod.exhaust)
  note r = flash_read_u32 [OF assms(1,2) rd, unfolded assms(5)]
  have run: "((ok, r'), w') = (if it_type t \<noteq> IMAGE_TLV_RUUVI_HW_REV_ID A then ((True, r), w)
     else if unat (it_len t) \<noteq> 4 \<or> hw_rev_num r \<noteq> 0 then ((False, r), w)
     else if rc \<noteq> 0 then ((False, r), w1)
     else ((True, r\<lparr>hw_rev_num := u32_from_bytes_be (overlay buf (replicate 4 0))\<rparr>), w1))"
    unfolding assms(4) [symmetric] hw_rev_num_in_flash_area_def rd by simp
  show ?thesis
    using run r assms(3) unfolding hw_rev_apply_num_def
    by (cases "it_type t \<noteq> IMAGE_TLV_RUUVI_HW_REV_ID A"; cases "unat (it_len t) \<noteq> 4 \<or> hw_rev_num r \<noteq> 0";
        cases "rc = 0"; clarsimp)
qed

lemma name_in_flash:
  assumes "flash_spec rel dv E" and "d_area (dv w) (fa_id fa) = Some fa" and "hw_rev_wf r"
    and "hw_rev_name_in_flash_area A E t fa off r w = ((ok, r'), w')"
    and "unat (off + of_nat (sizeof_image_tlv A)) = pay"
  shows "dv w' = dv w \<and> hw_rev_wf r'
    \<and> (rel \<and> pay < 2 ^ 31 \<and> pay + FW_INFO_HW_REV_NAME_MAX_LEN \<le> length (d_flash (dv w) (fa_id fa)) \<longrightarrow>
        (ok, r') = hw_rev_apply_name A (d_flash (dv w) (fa_id fa)) t pay r)"
proof -
  let ?n = "unat (it_len t)"
  obtain rc buf w1 where rd: "flash_area_read E fa (off_of_u32 (off + of_nat (sizeof_image_tlv A))) ?n w
      = ((rc, buf), w1)"
    by (metis prod.exhaust)
  note r = flash_read_u32 [OF assms(1,2) rd, unfolded assms(5)]
  have wf: "hw_rev_wf (r\<lparr>hw_rev_name := overlay buf (hw_rev_name r)\<rparr>)"
    "hw_rev_wf (r\<lparr>hw_rev_name := (overlay buf (hw_rev_name r))[?n := 0]\<rparr>)"
    if "?n \<le> FW_INFO_HW_REV_NAME_MAX_LEN"
    by (rule hw_rev_wf_name [OF assms(3) conjunct1 [OF conjunct2 [OF r]] that])+
  have run: "((ok, r'), w') = (if it_type t \<noteq> IMAGE_TLV_RUUVI_HW_REV_NAME A then ((True, r), w)
     else if unat (it_len t) > FW_INFO_HW_REV_NAME_MAX_LEN \<or> hw_rev_name r ! 0 \<noteq> 0 then ((False, r), w)
     else if rc \<noteq> 0 then ((False, r\<lparr>hw_rev_name := overlay buf (hw_rev_name r)\<rparr>), w1)
     else ((True, r\<lparr>hw_rev_name := (overlay buf (hw_rev_name r))[?n := 0]\<rparr>), w1))"
    unfolding assms(4) [symmetric] hw_rev_name_in_flash_area_def rd by (simp add: Let_def Suc_le_eq)
  show ?thesis
    using run r wf assms(3) unfolding hw_rev_apply_name_def
    by (cases "it_type t \<noteq> IMAGE_TLV_RUUVI_HW_REV_NAME A";
        cases "unat (it_len t) > FW_INFO_HW_REV_NAME_MAX_LEN \<or> hw_rev_name r ! 0 \<noteq> 0";
        cases "rc = 0"; clarsimp)
qed

lemma handle_flash:
  assumes "flash_spec rel dv E" and "d_area (dv w) (fa_id fa) = Some fa" and "hw_rev_wf r"
    and "fw_img_hw_rev_handle_tlv_hw_rev_in_flash_area A E t fa off r w = ((ok, r'), w')"
    and "unat (off + of_nat (sizeof_image_tlv A)) = pay"
  shows "dv w' = dv w \<and> hw_rev_wf r'
    \<and> (rel \<and> pay < 2 ^ 31 \<and> pay + FW_INFO_HW_REV_NAME_MAX_LEN \<le> length (d_flash (dv w) (fa_id fa)) \<longrightarrow>
        (ok, r') = hw_rev_apply A (d_flash (dv w) (fa_id fa)) t pay r)"
proof -
  obtain ok1 r1 w1 where num: "hw_rev_num_in_flash_area A E t fa off r w = ((ok1, r1), w1)"
    by (metis prod.exhaust)
  note n = num_in_flash [OF assms(1-3) num assms(5)]
  have a1: "d_area (dv w1) (fa_id fa) = Some fa"
    using n assms(2) by simp
  show ?thesis
  proof (cases ok1)
    case False
    then have "w' = w1" "r' = r1" "\<not> ok"
      using assms(4) by (simp_all add: fw_img_hw_rev_handle_tlv_hw_rev_in_flash_area_def num)
    then show ?thesis
      using False n by (auto simp: hw_rev_apply_def FW_INFO_HW_REV_NAME_MAX_LEN_def split: prod.split)
  next
    case True
    then have "hw_rev_name_in_flash_area A E t fa off r1 w1 = ((ok, r'), w')"
      using assms(4) by (simp add: fw_img_hw_rev_handle_tlv_hw_rev_in_flash_area_def num)
    note m = name_in_flash [OF assms(1) a1 conjunct1 [OF conjunct2 [OF n]] this assms(5)]
    show ?thesis
    proof (intro conjI impI)
      assume "rel \<and> pay < 2 ^ 31 \<and> pay + FW_INFO_HW_REV_NAME_MAX_LEN \<le> length (d_flash (dv w) (fa_id fa))"
      then show "(ok, r') = hw_rev_apply A (d_flash (dv w) (fa_id fa)) t pay r"
        using n m True by (auto simp: hw_rev_apply_def FW_INFO_HW_REV_NAME_MAX_LEN_def split: prod.splits)
    qed (use n m in simp_all)
  qed
qed

lemma flash_round:
  fixes te :: u32
  assumes "flash_spec rel dv E" and "d_area (dv w) (fa_id fa) = Some fa" and "abi_ok A"
    and "hw_rev_wf r" and "unat off < 2 ^ 31 + 2 ^ 17"
  defines "fl \<equiv> d_flash (dv w) (fa_id fa)"
  defines "inside \<equiv> rel \<and> unat te + FW_INFO_HW_REV_NAME_MAX_LEN \<le> length fl \<and> unat te < 2 ^ 31"
  shows "(\<exists>w'. hw_rev_flash_loop A E fa te off r w = Some ((False, r), w') \<and> dv w' = dv w
        \<and> (inside \<longrightarrow> unat te < unat off + sizeof_image_tlv A))
    \<or> (\<exists>t ok r' w' nxt. unat off < 2 ^ 31 \<and> unat off + sizeof_image_tlv A \<le> unat te
         \<and> unat nxt = unat off + sizeof_image_tlv A + unat (it_len t) \<and> unat nxt < 2 ^ 31 + 2 ^ 17
         \<and> dv w' = dv w \<and> hw_rev_wf r'
         \<and> hw_rev_flash_loop A E fa te off r w = (if \<not> ok then Some ((False, r'), w')
             else if hw_rev_found r' then Some ((True, r'), w') else hw_rev_flash_loop A E fa te nxt r' w')
         \<and> (inside \<longrightarrow> t = tlv_entry_at A fl (unat off)
              \<and> (ok, r') = hw_rev_apply A fl t (unat off + sizeof_image_tlv A) r))"
proof -
  let ?st = "sizeof_image_tlv A"
  define rd where "rd = flash_area_read E fa (off_of_u32 off) ?st w"
  define t where "t = image_tlv_of A (snd (fst rd))"
  define h where "h = fw_img_hw_rev_handle_tlv_hw_rev_in_flash_area A E t fa off r (snd rd)"
  define nxt where "nxt = off + (of_nat ?st + ucast (it_len t))"
  have run: "hw_rev_flash_loop A E fa te off r w =
     (if off + of_nat ?st \<le> te then
        if fst (fst rd) \<noteq> 0 then Some ((False, r), snd rd)
        else if \<not> fst (fst h) then Some ((False, snd (fst h)), snd h)
        else if hw_rev_found (snd (fst h)) then Some ((True, snd (fst h)), snd h)
        else hw_rev_flash_loop A E fa te nxt (snd (fst h)) (snd h)
      else Some ((False, r), w))"
    by (subst hw_rev_flash_loop.simps)
       (simp only: Let_def rd_def [symmetric] t_def [symmetric] h_def [symmetric] nxt_def [symmetric])
  note offs = tlv_offsets [OF assms(3,5)]
  have "flash_area_read E fa (off_of_u32 off) ?st w = ((fst (fst rd), snd (fst rd)), snd rd)"
    by (simp add: rd_def)
  from flash_read_u32 [OF assms(1,2) this]
  have rd_dv: "dv (snd rd) = dv w"
    and rd_ok: "fst (fst rd) = 0 \<Longrightarrow> unat off < 2 ^ 31 \<and> snd (fst rd) = bytes_at (unat off) ?st fl"
    and rd_rel: "rel \<Longrightarrow> unat off < 2 ^ 31 \<Longrightarrow> unat off + ?st \<le> length fl \<Longrightarrow> fst (fst rd) = 0"
    unfolding fl_def by blast+
  have le: "off + of_nat ?st \<le> te \<longleftrightarrow> \<not> unat te < unat off + ?st"
    by (simp add: word_le_nat_alt offs(1) not_less)
  show ?thesis
  proof (cases "off + of_nat ?st \<le> te \<and> fst (fst rd) = 0")
    case False
    have "unat te < unat off + ?st" if inside
    proof -
      have "unat off + ?st \<le> unat te \<Longrightarrow> fst (fst rd) = 0"
        using that unfolding inside_def by (intro rd_rel) linarith+
      then show ?thesis
        using False le by linarith
    qed
    then show ?thesis
      using False run rd_dv by (intro disjI1) (auto split: if_splits)
  next
    case True
    obtain ok r' w' where h: "h = ((ok, r'), w')"
      by (metis prod.exhaust)
    have o31: "unat off < 2 ^ 31" and bytes: "snd (fst rd) = bytes_at (unat off) ?st fl"
      using rd_ok True by auto
    have "d_area (dv (snd rd)) (fa_id fa) = Some fa"
      using rd_dv assms(2) by simp
    note hh = handle_flash [OF assms(1) this assms(4) h [unfolded h_def] offs(1), unfolded rd_dv, folded fl_def]
    have "(ok, r') = hw_rev_apply A fl t (unat off + ?st) r" if inside
    proof -
      have "unat off + ?st < 2 ^ 31" "unat off + ?st + FW_INFO_HW_REV_NAME_MAX_LEN \<le> length fl" rel
        using that True le unfolding inside_def by linarith+
      then show ?thesis
        using hh by blast
    qed
    moreover have "t = tlv_entry_at A fl (unat off)"
      by (simp add: t_def tlv_entry_at_def bytes)
    moreover have "dv w' = dv w" "hw_rev_wf r'"
      using hh by blast+
    moreover have "unat nxt = unat off + ?st + unat (it_len t)" "unat nxt < 2 ^ 31 + 2 ^ 17"
      using offs(2,3) [OF o31] by (simp_all only: nxt_def)
    moreover have "hw_rev_flash_loop A E fa te off r w = (if \<not> ok then Some ((False, r'), w')
             else if hw_rev_found r' then Some ((True, r'), w') else hw_rev_flash_loop A E fa te nxt r' w')"
      using run True h by simp
    moreover have "unat off + ?st \<le> unat te"
      using True le by simp
    ultimately show ?thesis
      using o31 by blast
  qed
qed

interpretation flash_scan: hw_rev_scanner A "d_flash d (fa_id fa)" te
    "rel \<and> unat te + FW_INFO_HW_REV_NAME_MAX_LEN \<le> length (d_flash d (fa_id fa)) \<and> unat te < 2 ^ 31"
    "\<lambda>off w r. hw_rev_flash_loop A E fa te off r w"
    "\<lambda>w. flash_spec rel dv E \<and> abi_ok A \<and> d_area d (fa_id fa) = Some fa \<and> dv w = d"
    "\<lambda>w. dv w = d"
  for rel dv E fa d A te
proof (unfold_locales, goal_cases)
  case (1 w)
  then show ?case
    by (simp add: abi_ok_def)
next
  case (2 w r off)
  then have E: "flash_spec rel dv E" "d_area (dv w) (fa_id fa) = Some fa" "abi_ok A"
    by simp_all
  have d: "dv w = d"
    using 2(1) by blast
  from flash_round [OF E 2(2,3), of te, unfolded d] show ?case
  proof (elim disjE exE conjE, goal_cases)
    case (1 w')
    then show ?case
      by blast
  next
    case (2 t ok r' w' nxt)
    then show ?case
      using E d
      by (intro disjI2 exI [of _ t] exI [of _ ok] exI [of _ r'] exI [of _ w'] exI [of _ nxt]) simp
  qed
qed

lemma flash_loop:
  assumes "flash_spec rel dv E" and "d_area (dv w) (fa_id fa) = Some fa" and "abi_ok A"
    and "hw_rev_wf r" and "unat off < 2 ^ 31 + 2 ^ 17"
  defines "fl \<equiv> d_flash (dv w) (fa_id fa)"
  shows "\<exists>ok r' w'. hw_rev_flash_loop A E fa te off r w = Some ((ok, r'), w')
    \<and> dv w' = dv w \<and> hw_rev_wf r' \<and> (ok \<longrightarrow> hw_rev_found r')
    \<and> (rel \<and> unat te + FW_INFO_HW_REV_NAME_MAX_LEN \<le> length fl \<and> unat te < 2 ^ 31
        \<longrightarrow> (ok, r') = hw_rev_scan A fl (unat te) (unat off) r)"
  using flash_scan.scanned [where A = A and rel = rel and dv = dv and E = E and d = "dv w" and fa = fa
      and s = w and r = r and off = off and te = te] assms by auto

subsection \<open>Both parsers find what the specification finds\<close>

definition hw_rev_reset :: "fw_image_hw_rev_t \<Rightarrow> fw_image_hw_rev_t" where
  "hw_rev_reset r = r\<lparr>hw_rev_num := 0, hw_rev_name := (hw_rev_name r)[0 := 0]\<rparr>"

lemma hw_rev_wf_reset [simp]: "hw_rev_wf r \<Longrightarrow> hw_rev_wf (hw_rev_reset r)"
  by (auto simp: hw_rev_wf_def hw_rev_reset_def FW_INFO_HW_REV_NAME_MAX_LEN_def)

text \<open>The protected TLVs behind an image: where its entries start and where they end.\<close>

definition prot_tlvs :: "image_abi \<Rightarrow> byte list \<Rightarrow> image_header \<Rightarrow> (nat \<times> nat) option" where
  "prot_tlvs A bs h = do {
     info \<leftarrow> tlv_info_at A bs (unat (BOOT_TLV_OFF h));
     let start = unat (BOOT_TLV_OFF h) + sizeof_image_tlv_info A;
     if it_magic info = IMAGE_TLV_PROT_INFO_MAGIC A then Some (start, start + unat (it_tlv_tot info))
     else None
   }"

lemma prot_offsets:
  fixes off :: u32
  assumes "abi_ok A" and "unat off < 2 ^ 31"
  shows "unat (off + of_nat (sizeof_image_tlv_info A)) = unat off + sizeof_image_tlv_info A"
    and "unat (off + of_nat (sizeof_image_tlv_info A)) < 2 ^ 31 + 2 ^ 17"
    and "unat (off + of_nat (sizeof_image_tlv_info A) + ucast (l :: u16))
         = unat off + sizeof_image_tlv_info A + unat l"
proof -
  have st: "sizeof_image_tlv_info A < 65536"
    using assms(1) by (simp add: abi_ok_def)
  show r: "unat (off + of_nat (sizeof_image_tlv_info A)) = unat off + sizeof_image_tlv_info A"
    using st assms(2) by (subst unat_plus_small) simp_all
  show "unat (off + of_nat (sizeof_image_tlv_info A)) < 2 ^ 31 + 2 ^ 17"
    using r st assms(2) by simp
  show "unat (off + of_nat (sizeof_image_tlv_info A) + ucast l) = unat off + sizeof_image_tlv_info A + unat l"
    using st assms(2) r unat_u16_bound [of l] by (subst unat_plus_small) simp_all
qed

lemma find_tlvs_in_file_answer:
  assumes "reading rel dv E f bs d pos w" and "abi_ok A"
    and "find_tlvs_in_file A E f magic off w = ((ok, start, te), w')"
  shows "(\<exists>pos'. reading rel dv E f bs d pos' w')
    \<and> (ok \<longrightarrow> unat off < 2 ^ 31 \<and> unat start = unat off + sizeof_image_tlv_info A
          \<and> unat start < 2 ^ 31 + 2 ^ 17)
    \<and> (rel \<and> tlv_info_at A bs (unat off) = Some info \<longrightarrow>
        (if it_magic info = magic then ok \<and> unat te = unat start + unat (it_tlv_tot info) else \<not> ok))"
proof -
  let ?si = "sizeof_image_tlv_info A"
  obtain rc1 w1 where sk: "fs_seek E f (off_of_u32 off) FS_SEEK_SET w = (rc1, w1)"
    by (metis prod.exhaust)
  obtain rc2 data w2 where rd: "fs_read E f ?si w1 = ((rc2, data), w2)"
    by (metis prod.exhaust)
  note s = seek_u32 [OF assms(1) sk]
  show ?thesis
  proof (cases "rc1 = 0")
    case False
    then show ?thesis
      using assms(3) s by (auto simp: find_tlvs_in_file_def sk tlv_info_at_def split: if_splits)
  next
    case True
    then have o31: "unat off < 2 ^ 31" and r1: "reading rel dv E f bs d (unat off) w1"
      using s by auto
    note r = reading_read [OF r1 rd]
    let ?info = "image_tlv_info_of A (overlay data (replicate ?si 0))"
    have run: "((ok, start, te), w') = (if rc2 < 0 \<or> it_magic ?info \<noteq> magic then ((False, 0, 0), w2)
        else ((True, off + of_nat ?si, off + of_nat ?si + ucast (it_tlv_tot ?info)), w2))"
      unfolding assms(3) [symmetric] by (simp add: find_tlvs_in_file_def sk rd True Let_def)
    have "rel \<Longrightarrow> tlv_info_at A bs (unat off) = Some info \<Longrightarrow> \<not> rc2 < 0 \<and> ?info = info"
      using r by (auto simp: tlv_info_at_def split: if_splits)
    then show ?thesis
      using run r o31 prot_offsets [OF assms(2) o31]
      by (auto split: if_splits)
  qed
qed

lemma find_tlvs_in_flash_answer:
  assumes "flash_spec rel dv E" and "d_area (dv w) (fa_id fa) = Some fa" and "abi_ok A"
    and "find_tlvs_in_flash_area A E fa magic off w = ((ok, start, te), w')"
  defines "fl \<equiv> d_flash (dv w) (fa_id fa)"
  shows "dv w' = dv w
    \<and> (ok \<longrightarrow> unat off < 2 ^ 31 \<and> unat start = unat off + sizeof_image_tlv_info A
          \<and> unat start < 2 ^ 31 + 2 ^ 17)
    \<and> (rel \<and> unat off < 2 ^ 31 \<and> tlv_info_at A fl (unat off) = Some info \<longrightarrow>
        (if it_magic info = magic then ok \<and> unat te = unat start + unat (it_tlv_tot info) else \<not> ok))"
proof -
  let ?si = "sizeof_image_tlv_info A"
  obtain rc data w1 where rd: "flash_area_read E fa (off_of_u32 off) ?si w = ((rc, data), w1)"
    by (metis prod.exhaust)
  from flash_read_u32 [OF assms(1,2) rd]
  have dv: "dv w1 = dv w" and ok: "rc = 0 \<Longrightarrow> unat off < 2 ^ 31 \<and> data = bytes_at (unat off) ?si fl"
    and rel: "rel \<Longrightarrow> unat off < 2 ^ 31 \<Longrightarrow> unat off + ?si \<le> length fl \<Longrightarrow> rc = 0"
    unfolding fl_def by blast+
  let ?info = "image_tlv_info_of A data"
  have run: "((ok, start, te), w') = (if rc \<noteq> 0 \<or> it_magic ?info \<noteq> magic then ((False, 0, 0), w1)
        else ((True, off + of_nat ?si, off + of_nat ?si + ucast (it_tlv_tot ?info)), w1))"
    unfolding assms(4) [symmetric] by (simp add: find_tlvs_in_flash_area_def rd Let_def)
  have i: "rc = 0 \<and> ?info = info" if "rel" "unat off < 2 ^ 31" "tlv_info_at A fl (unat off) = Some info"
    using that rel ok by (auto simp: tlv_info_at_def split: if_splits)
  show ?thesis
  proof (cases "rc \<noteq> 0 \<or> it_magic ?info \<noteq> magic")
    case True
    then show ?thesis
      using run dv i by (cases "it_magic info = magic") auto
  next
    case False
    then have o31: "unat off < 2 ^ 31"
      using ok by blast
    show ?thesis
      using False run dv i prot_offsets [OF assms(3) o31] o31 by auto
  qed
qed

lemma find_in_file_answer:
  assumes "reading rel dv E f bs d pos w" and "abi_ok A" and "hw_rev_wf r"
  shows "\<exists>ok r' w' pos'. fw_img_hw_rev_find_in_file A E f r w = Some ((ok, r'), w')
    \<and> reading rel dv E f bs d pos' w' \<and> hw_rev_wf r' \<and> (ok \<longrightarrow> hw_rev_found r')
    \<and> (rel \<and> sizeof_image_header A \<le> length bs
        \<and> prot_tlvs A bs (image_header_of A (bytes_at 0 (sizeof_image_header A) bs)) = Some (start, te)
        \<and> te + 4 \<le> length bs
        \<longrightarrow> (ok, r') = hw_rev_scan A bs te start (hw_rev_reset r))"
proof -
  let ?r = "hw_rev_reset r" and ?sh = "sizeof_image_header A"
  obtain rc1 w1 where sk: "fs_seek E f 0 FS_SEEK_SET w = (rc1, w1)"
    by (metis prod.exhaust)
  obtain rc2 data w2 where rd: "fs_read E f ?sh w1 = ((rc2, data), w2)"
    by (metis prod.exhaust)
  let ?h = "image_header_of A data"
  obtain ok3 s3 t3 w3 where ft: "find_tlvs_in_file A E f (IMAGE_TLV_PROT_INFO_MAGIC A) (BOOT_TLV_OFF ?h) w2
      = ((ok3, s3, t3), w3)"
    by (metis prod.exhaust)
  have run: "fw_img_hw_rev_find_in_file A E f r w =
     (if rc1 \<noteq> 0 then Some ((False, ?r), w1)
      else if rc2 < 0 \<or> rc2 \<noteq> int ?sh then Some ((False, ?r), w2)
      else if \<not> ok3 then Some ((False, ?r), w3)
      else hw_rev_file_loop A E f t3 s3 (replicate (sizeof_image_tlv A) 0) ?r w3)"
    by (simp add: fw_img_hw_rev_find_in_file_def sk rd ft Let_def hw_rev_reset_def)
  have s: "rc1 = 0 \<and> reading rel dv E f bs d 0 w1 \<or> rc1 < 0 \<and> reading rel dv E f bs d pos w1 \<and> \<not> rel"
    using reading_seek [OF assms(1) sk] by (auto simp: fs_seek_target_def)
  show ?thesis
  proof (cases "rc1 = 0 \<and> \<not> (rc2 < 0 \<or> rc2 \<noteq> int ?sh)")
    case False
    have "rc1 = 0 \<Longrightarrow> \<exists>p. reading rel dv E f bs d p w2"
      and "rc1 = 0 \<Longrightarrow> rel \<Longrightarrow> ?sh \<le> length bs \<Longrightarrow> rc2 = int ?sh"
      using s reading_read [OF _ rd, of rel dv bs d 0] by auto
    then have no: "\<not> (rel \<and> ?sh \<le> length bs)"
      using s False by auto
    have "\<exists>w' p. fw_img_hw_rev_find_in_file A E f r w = Some ((False, ?r), w') \<and> reading rel dv E f bs d p w'"
    proof (cases "rc1 = 0")
      case True
      then show ?thesis
        using run False \<open>rc1 = 0 \<Longrightarrow> \<exists>p. reading rel dv E f bs d p w2\<close> by auto
    next
      case False
      then show ?thesis
        using run s by auto
    qed
    then show ?thesis
      using no assms(3) hw_rev_wf_reset by blast
  next
    case True
    have r1: "reading rel dv E f bs d 0 w1"
      using s True by auto
    have data: "data = bytes_at 0 ?sh bs" and r2: "reading rel dv E f bs d (0 + length data) w2"
      using reading_read [OF r1 rd] True by blast+
    note t = find_tlvs_in_file_answer [OF r2 assms(2) ft]
    show ?thesis
    proof (cases ok3)
      case False
      have "prot_tlvs A bs (image_header_of A (bytes_at 0 ?sh bs)) \<noteq> Some (start, te)" if rel
        using t False that data
        by (auto simp: prot_tlvs_def bind_eq_Some_conv Let_def split: if_splits)
      then show ?thesis
        using True False run t hw_rev_wf_reset [OF assms(3)] by auto
    next
      case ok3: True
      obtain p3 where r3: "reading rel dv E f bs d p3 w3" and s3: "unat s3 < 2 ^ 31 + 2 ^ 17"
        using t ok3 by blast
      have eq: "prot_tlvs A bs (image_header_of A (bytes_at 0 ?sh bs)) = Some (start, te) \<Longrightarrow> rel
          \<Longrightarrow> unat s3 = start \<and> unat t3 = te"
        using t ok3 data by (auto simp: prot_tlvs_def bind_eq_Some_conv Let_def split: if_splits)
      have "length (replicate (sizeof_image_tlv A) (0 :: byte)) = sizeof_image_tlv A"
        by simp
      from file_loop [OF r3 assms(2) hw_rev_wf_reset [OF assms(3)] s3 this, of t3]
      obtain ok r' w' pos' where L: "hw_rev_file_loop A E f t3 s3 (replicate (sizeof_image_tlv A) 0) ?r w3
          = Some ((ok, r'), w')" "reading rel dv E f bs d pos' w'" "hw_rev_wf r'" "ok \<longrightarrow> hw_rev_found r'"
        and scan: "rel \<and> unat t3 + 4 \<le> length bs
          \<longrightarrow> (ok, r') = hw_rev_scan A bs (unat t3) (unat s3) ?r"
        by blast
      have "fw_img_hw_rev_find_in_file A E f r w = Some ((ok, r'), w')"
        unfolding run using True ok3 L(1) by simp
      then show ?thesis
        using L(2-4) scan eq by blast
    qed
  qed
qed

lemma find_in_flash_area_answer:
  fixes w :: 'w and i
  assumes "flash_spec rel dv E" and "query_spec dv E" and "abi_ok A" and "hw_rev_wf r"
  defines "fl \<equiv> d_flash (dv w) i"
  shows "\<exists>ok r' w'. fw_img_hw_rev_find_in_flash_area A E i r w = Some ((ok, r'), w')
    \<and> dv w' = dv w \<and> hw_rev_wf r' \<and> (ok \<longrightarrow> hw_rev_found r')
    \<and> (rel \<and> d_area (dv w) i = Some fa
        \<and> (\<forall>w1. dv w1 = dv w \<longrightarrow> (\<exists>w2. boot_image_load_header E fa w1 = ((0, h), w2)))
        \<and> unat (BOOT_TLV_OFF h) < 2 ^ 31 \<and> prot_tlvs A fl h = Some (start, te)
        \<and> te + FW_INFO_HW_REV_NAME_MAX_LEN \<le> length fl \<and> te < 2 ^ 31
        \<longrightarrow> (ok, r') = hw_rev_scan A fl te start (hw_rev_reset r))"
proof -
  let ?r = "hw_rev_reset r"
  obtain rc1 fa1 w1 where op: "flash_area_open E i w = ((rc1, fa1), w1)"
    by (metis prod.exhaust)
  obtain rc2 h2 w2 where ld: "boot_image_load_header E fa1 w1 = ((rc2, h2), w2)"
    by (metis prod.exhaust)
  obtain ok3 s3 t3 w3 where ft: "find_tlvs_in_flash_area A E fa1 (IMAGE_TLV_PROT_INFO_MAGIC A)
      (BOOT_TLV_OFF h2) w2 = ((ok3, s3, t3), w3)"
    by (metis prod.exhaust)
  have close: "dv (flash_area_close E fa1 w) = dv w" for w
    using flash_specD(3) [OF assms(1)] by (simp add: flash_close_spec_def)
  have run: "fw_img_hw_rev_find_in_flash_area A E i r w =
     (if rc1 \<noteq> 0 then Some ((False, ?r), w1)
      else if rc2 \<noteq> 0 then Some ((False, ?r), flash_area_close E fa1 w2)
      else if \<not> ok3 then Some ((False, ?r), flash_area_close E fa1 w3)
      else do { (r, w) \<leftarrow> hw_rev_flash_loop A E fa1 t3 s3 ?r w3; Some (r, flash_area_close E fa1 w) })"
    by (simp add: fw_img_hw_rev_find_in_flash_area_def fw_img_hw_rev_find_in_flash_area_internal_def
        op ld ft Let_def hw_rev_reset_def)
  have w1: "dv w1 = dv w" and fa1: "rc1 = 0 \<Longrightarrow> d_area (dv w) i = Some fa1"
    and rc1: "rel \<Longrightarrow> d_area (dv w) i \<noteq> None \<Longrightarrow> rc1 = 0"
    using flash_specD(1) [OF assms(1)] op unfolding flash_open_spec_def by blast+
  have w2: "dv w2 = dv w"
    using assms(2) ld w1 unfolding query_spec_def by metis
  show ?thesis
  proof (cases "rc1 = 0")
    case False
    then show ?thesis
      using run w1 rc1 assms(4) by auto
  next
    case open_ok: True
    have id: "fa_id fa1 = i"
      using flash_specD(2) [OF assms(1)] fa1 [OF open_ok] by (simp add: flash_area_wf_def)
    have area: "d_area (dv w2) (fa_id fa1) = Some fa1"
      using fa1 [OF open_ok] w2 id by simp
    note t = find_tlvs_in_flash_answer [OF assms(1) area assms(3) ft, unfolded w2 id, folded fl_def]
    have w3: "dv w3 = dv w"
      using t by blast
    have t_rel: "if it_magic info = IMAGE_TLV_PROT_INFO_MAGIC A then ok3 \<and> unat t3 = unat s3 + unat (it_tlv_tot info)
        else \<not> ok3" if "rel" "unat (BOOT_TLV_OFF h2) < 2 ^ 31" "tlv_info_at A fl (unat (BOOT_TLV_OFF h2)) = Some info"
      for info
      using t that by blast
    have h2: "rc2 = 0 \<and> h2 = h" if "d_area (dv w) i = Some fa"
      "\<forall>w1. dv w1 = dv w \<longrightarrow> (\<exists>w2. boot_image_load_header E fa w1 = ((0, h), w2))"
    proof -
      have "fa1 = fa"
        using that(1) fa1 [OF open_ok] by simp
      then show ?thesis
        using that(2) ld w1 by (metis Pair_inject)
    qed
    show ?thesis
    proof (cases "rc2 = 0 \<and> ok3")
      case False
      have "\<exists>w'. fw_img_hw_rev_find_in_flash_area A E i r w = Some ((False, ?r), w') \<and> dv w' = dv w"
        unfolding run using open_ok False close w2 w3 by auto
      moreover have "\<not> (rel \<and> d_area (dv w) i = Some fa
        \<and> (\<forall>w1. dv w1 = dv w \<longrightarrow> (\<exists>w2. boot_image_load_header E fa w1 = ((0, h), w2)))
        \<and> unat (BOOT_TLV_OFF h) < 2 ^ 31 \<and> prot_tlvs A fl h = Some (start, te))"
        using False h2 t_rel by (fastforce simp: prot_tlvs_def bind_eq_Some_conv Let_def split: if_splits)
      ultimately show ?thesis
        using assms(4) hw_rev_wf_reset by blast
    next
      case True
      have s3: "unat s3 < 2 ^ 31 + 2 ^ 17" and t_ok: "unat s3 = unat (BOOT_TLV_OFF h2) + sizeof_image_tlv_info A"
        using t True by blast+
      have area3: "d_area (dv w3) (fa_id fa1) = Some fa1"
        using area w2 w3 by simp
      from flash_loop [OF assms(1) area3 assms(3) hw_rev_wf_reset [OF assms(4)] s3, of t3]
      obtain ok r' w' where L: "hw_rev_flash_loop A E fa1 t3 s3 ?r w3 = Some ((ok, r'), w')" "dv w' = dv w"
          "hw_rev_wf r'" "ok \<longrightarrow> hw_rev_found r'"
        and scan: "rel \<and> unat t3 + FW_INFO_HW_REV_NAME_MAX_LEN \<le> length fl \<and> unat t3 < 2 ^ 31
          \<longrightarrow> (ok, r') = hw_rev_scan A fl (unat t3) (unat s3) ?r"
        unfolding w3 id fl_def by blast
      have "fw_img_hw_rev_find_in_flash_area A E i r w = Some ((ok, r'), flash_area_close E fa1 w')"
        unfolding run using open_ok True L(1) by simp
      moreover have "unat s3 = start \<and> unat t3 = te" if "rel" "d_area (dv w) i = Some fa"
        "\<forall>w1. dv w1 = dv w \<longrightarrow> (\<exists>w2. boot_image_load_header E fa w1 = ((0, h), w2))"
        "unat (BOOT_TLV_OFF h) < 2 ^ 31" "prot_tlvs A fl h = Some (start, te)"
        using that t_rel t_ok True h2
        by (fastforce simp: prot_tlvs_def bind_eq_Some_conv Let_def split: if_splits)
      ultimately show ?thesis
        using L(2-4) scan close by metis
    qed
  qed
qed

subsection \<open>An image and a longer area that starts with it\<close>

lemma bytes_at_prefix:
  assumes "bytes_at 0 (length bs) fl = bs" and "off + n \<le> length bs"
  shows "bytes_at off n fl = bytes_at off n bs"
  using bytes_at_take [OF assms(2), of fl] assms(1) by (simp add: bytes_at_def)

lemma tlv_info_at_prefix:
  assumes "bytes_at 0 (length bs) fl = bs" and "tlv_info_at A bs off = Some info"
  shows "tlv_info_at A fl off = Some info"
proof -
  have "length bs \<le> length fl"
    using arg_cong [OF assms(1), of length] by simp
  then show ?thesis
    using assms bytes_at_prefix [OF assms(1), of off "sizeof_image_tlv_info A"]
    by (auto simp: tlv_info_at_def split: if_splits)
qed

lemma hw_rev_apply_prefix:
  assumes "bytes_at 0 (length bs) fl = bs" and "pay + FW_INFO_HW_REV_NAME_MAX_LEN \<le> length bs"
  shows "hw_rev_apply A fl t pay r = hw_rev_apply A bs t pay r"
proof -
  have b: "n \<le> FW_INFO_HW_REV_NAME_MAX_LEN \<Longrightarrow> bytes_at pay n fl = bytes_at pay n bs" for n
    using assms(2) by (intro bytes_at_prefix [OF assms(1)]) simp
  have "bytes_at pay 4 fl = bytes_at pay 4 bs"
    by (rule b) (simp add: FW_INFO_HW_REV_NAME_MAX_LEN_def)
  then show ?thesis
    using b by (auto simp: hw_rev_apply_def hw_rev_apply_num_def hw_rev_apply_name_def split: prod.split)
qed

lemma hw_rev_scan_prefix:
  assumes "bytes_at 0 (length bs) fl = bs" and "te + FW_INFO_HW_REV_NAME_MAX_LEN \<le> length bs"
  shows "hw_rev_scan A fl te off r = hw_rev_scan A bs te off r"
proof (induction "te - off" arbitrary: off r rule: less_induct)
  case less
  let ?pay = "off + sizeof_image_tlv A"
  show ?case
  proof (cases "?pay = off \<or> te < ?pay")
    case True
    then show ?thesis
      by (subst (1 2) hw_rev_scan.simps) (auto simp: Let_def split: prod.split)
  next
    case False
    have t: "tlv_entry_at A fl off = tlv_entry_at A bs off"
      unfolding tlv_entry_at_def using False assms(2)
      by (subst bytes_at_prefix [OF assms(1)]) simp_all
    have h: "hw_rev_apply A fl (tlv_entry_at A bs off) ?pay r = hw_rev_apply A bs (tlv_entry_at A bs off) ?pay r"
      by (rule hw_rev_apply_prefix [OF assms(1)]) (use False assms(2) in simp)
    have "te - (?pay + unat (it_len (tlv_entry_at A bs off))) < te - off"
      using False by linarith
    note ih = less.hyps [OF this]
    show ?thesis
      by (subst (1 2) hw_rev_scan.simps) (simp only: Let_def t h ih split: prod.split)
  qed
qed

subsection \<open>Properties\<close>

text \<open>
  C40. The big-endian decoding of the identifier inverts the encoding, and is inverted by it.
\<close>

theorem u32_from_bytes_be_roundtrip:
  "u32_from_bytes_be (u32_to_bytes_be x) = x
   \<and> u32_to_bytes_be (u32_from_bytes_be [a, b, c, d]) = [a, b, c, d]"
  unfolding u32_to_bytes_be_4 u32_from_bytes_be_4
  by (simp only: u32_bytes_join u32_bytes_split simp_thms)

text \<open>
  C21. Searching an open file for the hardware revision returns, whatever the file contains and
  whatever reads fail or fall short, leaves the file open and unchanged, and keeps the name a
  terminated string of at most 15 characters; it reports success only with both an identifier and
  a name.
\<close>

theorem fw_img_hw_rev_find_in_file_safe:
  assumes "reading rel dv E f bs d pos w" and "abi_ok A" and "hw_rev_wf r"
  shows "\<exists>ok r' w' pos'. fw_img_hw_rev_find_in_file A E f r w = Some ((ok, r'), w')
    \<and> reading rel dv E f bs d pos' w' \<and> hw_rev_wf r' \<and> (ok \<longrightarrow> hw_rev_found r')"
  using find_in_file_answer [OF assms] by blast

text \<open>
  C20. The two parsers agree on complete images on a reliable platform: for an image in a file, and a
  flash area that starts with the bytes of the file and whose header MCUboot loads, they report the
  same result, which is that of the search over the bytes of the image, when the image has
  protected TLVs and the file goes on for at least 15 bytes behind what the parsers take for their end
  (\<open>te\<close>). On images cut off earlier they may differ, since only the parser of the flash area notices
  that bytes are missing.
\<close>

theorem fw_img_hw_rev_parsers_agree:
  assumes "fs_spec True dv E" and "flash_spec True dv E" and "query_spec dv E" and "abi_ok A"
    and "hw_rev_wf r" and "file_at (dv w) f = Some (bs, pos)" and "d_area (dv w) i = Some fa"
    and prefix: "bytes_at 0 (length bs) (d_flash (dv w) i) = bs" and "sizeof_image_header A \<le> length bs"
    and h: "h = image_header_of A (bytes_at 0 (sizeof_image_header A) bs)"
    and "\<forall>w1. dv w1 = dv w \<longrightarrow> (\<exists>w2. boot_image_load_header E fa w1 = ((0, h), w2))"
    and prot: "prot_tlvs A bs h = Some (start, te)" and te: "te + FW_INFO_HW_REV_NAME_MAX_LEN \<le> length bs"
  shows "\<exists>w1 w2. fw_img_hw_rev_find_in_file A E f r w
        = Some (hw_rev_scan A bs te start (hw_rev_reset r), w1)
      \<and> fw_img_hw_rev_find_in_flash_area A E i r w
        = Some (hw_rev_scan A bs te start (hw_rev_reset r), w2)"
proof -
  let ?fl = "d_flash (dv w) i"
  have rd: "reading True dv E f bs (dv w) pos w"
    by (rule readingI [OF assms(1,6)])
  have short: "length bs < 2 ^ 31"
    by (rule reading_length [OF rd])
  have len: "length bs \<le> length ?fl"
    using arg_cong [OF prefix, of length] by simp
  have "te + 4 \<le> length bs"
    using te by (simp add: FW_INFO_HW_REV_NAME_MAX_LEN_def)
  with find_in_file_answer [OF rd assms(4,5), of start te]
  have in_file: "\<exists>w1. fw_img_hw_rev_find_in_file A E f r w = Some (hw_rev_scan A bs te start (hw_rev_reset r), w1)"
    using assms(9) prot h by auto
  have "prot_tlvs A ?fl h = Some (start, te)"
    using prot tlv_info_at_prefix [OF prefix, of A]
    by (auto simp: prot_tlvs_def bind_eq_Some_conv Let_def split: if_splits)
  moreover have "unat (BOOT_TLV_OFF h) < 2 ^ 31"
    using prot short by (auto simp: prot_tlvs_def tlv_info_at_def bind_eq_Some_conv Let_def split: if_splits)
  moreover have "te < 2 ^ 31" "te + FW_INFO_HW_REV_NAME_MAX_LEN \<le> length ?fl"
    using te short len by simp_all
  ultimately have "\<exists>w2. fw_img_hw_rev_find_in_flash_area A E i r w
      = Some (hw_rev_scan A ?fl te start (hw_rev_reset r), w2)"
    using find_in_flash_area_answer [OF assms(2-5), where w = w and i = i and fa = fa and h = h
        and start = start and te = te] assms(7,11)
    by metis
  then show ?thesis
    using in_file by (simp add: hw_rev_scan_prefix [OF prefix te])
qed

text \<open>An image for hardware revision 9 named \<open>''AB''\<close>, in a file and in area 3.\<close>

definition hw_image :: "byte list" where
  "hw_image = [0x3D, 8, 12, 2, 0, 2, 0, 0,  5, 6,
     8, 12, 0xA0, 4, 0, 0, 0, 9, 0xA1, 2, 65, 66,
     7, 2, 0, 0, 0, 0, 0, 0, 0, 0, 0, 0, 0, 0, 0, 0, 0, 0, 0, 0]"

definition hw_header :: image_header where
  "hw_header = \<lparr>ih_magic = 0x3D, ih_hdr_size = 8, ih_protect_tlv_size = 12, ih_img_size = 2,
     ih_flags = 0, ih_ver = \<lparr>iv_major = 2, iv_minor = 0, iv_revision = 0, iv_build_num = 0\<rparr>\<rparr>"

definition hw_ram :: ram where
  "hw_ram = \<lparr>r_dev = \<lparr>d_files = [''/m/ap'' \<mapsto> hw_image], d_fds = [0 \<mapsto> (''/m/ap'', 0)],
               d_area = [3 \<mapsto> \<lparr>fa_id = 3, fa_off = 0x40, fa_size = 44\<rparr>],
               d_flash = (\<lambda>_. [])(3 := hw_image @ [0xFF, 0xFF])\<rparr>,
      r_next = 1\<rparr>"

lemmas hw_rev_eval =
  hw_image_def hw_header_def hw_ram_def prot_tlvs_def tlv_info_at_def BOOT_TLV_OFF_def
  hw_rev_scan.simps hw_rev_apply_def hw_rev_apply_num_def hw_rev_apply_name_def hw_rev_reset_def
  hw_rev_zero_def hw_rev_found_def tlv_entry_at_def FW_INFO_HW_REV_NAME_MAX_LEN_def
  u32_from_bytes_be_4 overlay_def demo_abi_def byte_n_def bytes_at_def

lemma hw_ram_at:
  "file_at (ram_view hw_ram) demo_file = Some (hw_image, 0)"
  "d_area (ram_view hw_ram) 3 = Some \<lparr>fa_id = 3, fa_off = 0x40, fa_size = 44\<rparr>"
  by (simp_all add: hw_rev_eval ram_view_def file_at_def)

lemma hw_rev_reset_zero:
  "hw_rev_reset hw_rev_zero = \<lparr>hw_rev_num = 0, hw_rev_name = [0, 0, 0, 0, 0, 0, 0, 0, 0, 0, 0, 0, 0, 0, 0, 0]\<rparr>"
  by (simp add: hw_rev_reset_def hw_rev_zero_def FW_INFO_HW_REV_NAME_MAX_LEN_def numeral_eq_Suc)

lemma hw_scan:
  "hw_rev_scan demo_abi hw_image 24 12 (hw_rev_reset hw_rev_zero)
     = (True, \<lparr>hw_rev_num = 9, hw_rev_name = [65, 66, 0, 0, 0, 0, 0, 0, 0, 0, 0, 0, 0, 0, 0, 0]\<rparr>)"
  unfolding hw_rev_reset_zero by (simp add: hw_rev_eval)

theorem fw_img_hw_rev_find_in_file_safe_witness:
  "\<exists>ok r' w'. fw_img_hw_rev_find_in_file demo_abi (ram_os demo_abi demo_config) demo_file hw_rev_zero demo_ram
     = Some ((ok, r'), w') \<and> hw_rev_wf r'"
  using fw_img_hw_rev_find_in_file_safe [OF demo_reading [of demo_abi demo_config] demo_abi_ok hw_rev_wf_zero]
  by blast

theorem fw_img_hw_rev_parsers_agree_witness:
  "\<exists>w1 w2. fw_img_hw_rev_find_in_file demo_abi (ram_os demo_abi demo_config) demo_file hw_rev_zero hw_ram
      = Some ((True, \<lparr>hw_rev_num = 9, hw_rev_name = [65, 66, 0, 0, 0, 0, 0, 0, 0, 0, 0, 0, 0, 0, 0, 0]\<rparr>), w1)
    \<and> fw_img_hw_rev_find_in_flash_area demo_abi (ram_os demo_abi demo_config) 3 hw_rev_zero hw_ram
      = Some ((True, \<lparr>hw_rev_num = 9, hw_rev_name = [65, 66, 0, 0, 0, 0, 0, 0, 0, 0, 0, 0, 0, 0, 0, 0]\<rparr>), w2)"
proof -
  have prefix: "bytes_at 0 (length hw_image) (d_flash (ram_view hw_ram) 3) = hw_image"
    by (simp add: hw_ram_def bytes_at_def)
  have len: "sizeof_image_header demo_abi \<le> length hw_image"
    by (simp add: hw_image_def demo_abi_def)
  have h: "hw_header = image_header_of demo_abi (bytes_at 0 (sizeof_image_header demo_abi) hw_image)"
    by (simp add: hw_rev_eval)
  have load: "\<forall>w1. ram_view w1 = ram_view hw_ram \<longrightarrow>
      (\<exists>w2. boot_image_load_header (ram_os demo_abi demo_config) \<lparr>fa_id = 3, fa_off = 0x40, fa_size = 44\<rparr> w1
        = ((0, hw_header), w2))"
  proof (intro allI impI)
    fix w1
    assume "ram_view w1 = ram_view hw_ram"
    then have "d_flash (r_dev w1) = d_flash (r_dev hw_ram)"
      by (metis ram_view_frame)
    then show "\<exists>w2. boot_image_load_header (ram_os demo_abi demo_config) \<lparr>fa_id = 3, fa_off = 0x40, fa_size = 44\<rparr> w1
        = ((0, hw_header), w2)"
      by (simp add: ram_os_def ram_load_header_def Let_def hw_rev_eval)
  qed
  have prot: "prot_tlvs demo_abi hw_image hw_header = Some (12, 24)"
    and te: "24 + FW_INFO_HW_REV_NAME_MAX_LEN \<le> length hw_image"
    by (simp_all add: hw_rev_eval)
  show ?thesis
    using fw_img_hw_rev_parsers_agree [OF ram_fs_spec ram_flash_spec ram_query_spec demo_abi_ok
        hw_rev_wf_zero hw_ram_at prefix len h load prot te] unfolding hw_scan .
qed

end
