(* ===== verification/Fw_Check.thy ===== *)
theory Fw_Check
  imports File_Img_Validate Btldr_Fs Fa_Utils Hw_Rev "HOL-Library.Product_Lexorder"
begin

section \<open>Checking an update file (first half of \<open>mcuboot_fw_update.c\<close>)\<close>

text \<open>
  What the update logic checks before it touches a partition: the signature that the immutable
  bootloader B0 will demand of an MCUboot image (\<open>validate_b0_signature\<close>, over a copy of the file in
  the shared buffer), the header of the image, its reset vector, its hardware revision and its
  authenticity (\<open>validate_file\<close>), its firmware information (\<open>fw_info_find_in_file\<close>), and versions.

  The state of the bootloader is extended by the two static buffers: \<open>g_shared_img_buf\<close> and the
  \<open>tmp_buf\<close> of \<open>validate_file\<close>. Out-parameters that the caller reads only after success are part of
  an optional result; the others are passed in with the value they had.

  The theorems: every check returns and leaves the files, handles and flash areas of the device as
  they were, closing what it opened, and a check that accepts a file has established what
  \<open>b0_accepted\<close> and \<open>image_accepted\<close> state of the contents of the file.
\<close>

record 'w fw = "'w btldr" +
  g_shared_img_buf :: "byte list"
  validate_tmp_buf :: "byte list"

definition MCUBOOT_HOOK_TMPBUF_SZ :: u32 where
  "MCUBOOT_HOOK_TMPBUF_SZ = 256"

text \<open>A call that may not return, inside the state.\<close>

definition on_world_opt ::
  "('w \<Rightarrow> ('a \<times> 'w) option) \<Rightarrow> ('w, 'x) btldr_scheme \<Rightarrow> ('a \<times> ('w, 'x) btldr_scheme) option"
where
  "on_world_opt call s = do { (r, w) \<leftarrow> call (world s); Some (r, s\<lparr>world := w\<rparr>) }"

definition u32_from_bytes_le :: "byte list \<Rightarrow> u32" where
  "u32_from_bytes_le bs = u32_from_bytes_be (rev bs)"

text \<open>The characters of a name up to its terminator; \<open>strcmp\<close> compares these.\<close>

definition c_string :: "byte list \<Rightarrow> byte list" where
  "c_string bs = takeWhile (\<lambda>b. b \<noteq> 0) bs"

subsection \<open>The signature of the immutable bootloader\<close>

definition validate_b0_signature ::
  "config \<Rightarrow> 'w os \<Rightarrow> string \<Rightarrow> u32 \<Rightarrow> u32 \<Rightarrow> 'w fw \<Rightarrow> bool \<times> 'w fw"
where
  "validate_b0_signature K E file_name dst_fa_addr dst_fa_size s =
     (if unat dst_fa_size \<noteq> shared_img_buf_size K then (False, s)
      else (case btldr_fs_open_file K E file_name s of (file_t, s) \<Rightarrow>
      if filep file_t = None then (False, s)
      else (case btldr_fs_get_file_size E file_t s of (file_size, s) \<Rightarrow>
      if unat (u32_of_int file_size) > shared_img_buf_size K then (False, btldr_fs_close_file E file_t s)
      else (case on_world (fs_read E file_t (unat (u32_of_int file_size))) s of ((rc, data), s) \<Rightarrow>
      let s = s\<lparr>g_shared_img_buf := overlay data (g_shared_img_buf s)\<rparr> in
      if rc < 0 then (False, btldr_fs_close_file E file_t s)
      else if rc \<noteq> file_size then (False, btldr_fs_close_file E file_t s)
      else (case fw_info_find E (shared_img_buf_addr K) (g_shared_img_buf s) (world s) of
        None \<Rightarrow> (False, btldr_fs_close_file E file_t s)
      | Some (_, info) \<Rightarrow>
        let addr_offset = fi_address info - dst_fa_addr in
        if unat addr_offset \<ge> shared_img_buf_size K then (False, btldr_fs_close_file E file_t s)
        else (case on_world (bl_validate_firmware E (fi_address info) (shared_img_buf_addr K + addr_offset)
                               (g_shared_img_buf s)) s of (valid, s) \<Rightarrow>
          if \<not> valid then (False, btldr_fs_close_file E file_t s)
          else (True, btldr_fs_close_file E file_t s)))))))"

subsection \<open>The image header\<close>

text \<open>The header and the size of the image, where the function reports success.\<close>

definition load_image_header_from_file ::
  "image_abi \<Rightarrow> 'w os \<Rightarrow> fs_file_t \<Rightarrow> 'w fw \<Rightarrow> (image_header \<times> u32) option \<times> 'w fw"
where
  "load_image_header_from_file A E p_file s =
     (case on_world (fs_read E p_file (sizeof_image_header A)) s of ((len, data), s) \<Rightarrow>
      if len < 0 then (None, s)
      else if len \<noteq> int (sizeof_image_header A) then (None, s)
      else let img_hdr = image_header_of A data in
        if ih_magic img_hdr \<noteq> IMAGE_MAGIC A then (None, s)
        else if Bit_Operations.and (ih_flags img_hdr) (IMAGE_F_NON_BOOTABLE A) \<noteq> 0 then (None, s)
        else (case boot_u32_safe_add (ih_img_size img_hdr) (ucast (ih_hdr_size img_hdr)) of
          None \<Rightarrow> (None, s)
        | Some img_size \<Rightarrow>
            (case btldr_fs_get_file_size E p_file s of (file_size, s) \<Rightarrow>
             if img_size > u32_of_int file_size then (None, s) else (Some (img_hdr, img_size), s))))"

definition open_file_and_load_image_header ::
  "image_abi \<Rightarrow> config \<Rightarrow> 'w os \<Rightarrow> string \<Rightarrow> 'w fw \<Rightarrow> (fs_file_t \<times> image_header \<times> u32) option \<times> 'w fw"
where
  "open_file_and_load_image_header A K E file_name s =
     (case btldr_fs_open_file K E file_name s of (file_t, s) \<Rightarrow>
      if filep file_t = None then (None, s)
      else (case load_image_header_from_file A E file_t s of (r, s) \<Rightarrow>
        case r of None \<Rightarrow> (None, btldr_fs_close_file E file_t s)
        | Some (img_hdr, img_size) \<Rightarrow> (Some (file_t, img_hdr, img_size), s)))"

subsection \<open>Validating a file\<close>

definition validate_file ::
  "image_abi \<Rightarrow> 'c crypto \<Rightarrow> config \<Rightarrow> 'w os \<Rightarrow> string \<Rightarrow> u32 \<Rightarrow> u32 \<Rightarrow> image_header \<Rightarrow> fw_image_hw_rev_t
   \<Rightarrow> 'w fw \<Rightarrow> ((bool \<times> image_header \<times> fw_image_hw_rev_t) \<times> 'w fw) option"
where
  "validate_file A C K E file_name dst_fa_addr dst_fa_size p_img_hdr p_hw_rev s =
     (case btldr_fs_is_file_exist K E file_name s of (ex, s) \<Rightarrow>
      if \<not> ex then Some ((False, p_img_hdr, p_hw_rev), s)
      else (case open_file_and_load_image_header A K E file_name s of
        (None, s) \<Rightarrow> Some ((False, p_img_hdr, p_hw_rev), s)
      | (Some (file_t, img_hdr, img_size), s) \<Rightarrow>
        if img_size \<ge> dst_fa_size then Some ((False, p_img_hdr, p_hw_rev), btldr_fs_close_file E file_t s)
        else (case on_world (fs_seek E file_t (int (unat (ih_hdr_size img_hdr)) + 4) FS_SEEK_SET) s of (rc, s) \<Rightarrow>
        if rc \<noteq> 0 then Some ((False, img_hdr, p_hw_rev), btldr_fs_close_file E file_t s)
        else (case on_world (fs_read E file_t 4) s of ((rc, data), s) \<Rightarrow>
        if rc < 0 then Some ((False, img_hdr, p_hw_rev), btldr_fs_close_file E file_t s)
        else if rc \<noteq> 4 then Some ((False, img_hdr, p_hw_rev), btldr_fs_close_file E file_t s)
        else let reset_addr = u32_from_bytes_le data in
        if \<not> (reset_addr \<ge> dst_fa_addr \<and> reset_addr < dst_fa_addr + dst_fa_size)
        then Some ((False, img_hdr, p_hw_rev), btldr_fs_close_file E file_t s)
        else do {
          ((_, hw_rev), s) \<leftarrow> on_world_opt (fw_img_hw_rev_find_in_file A E file_t hw_rev_zero) s;
          ((validity_res, tmp_buf), s) \<leftarrow> on_world_opt (file_img_validate A C K E img_hdr file_t dst_fa_size
              (validate_tmp_buf s) MCUBOOT_HOOK_TMPBUF_SZ None 0) s;
          let s = s\<lparr>validate_tmp_buf := tmp_buf\<rparr>;
          if validity_res \<noteq> FIH_SUCCESS then Some ((False, img_hdr, hw_rev), btldr_fs_close_file E file_t s)
          else Some ((True, img_hdr, hw_rev), btldr_fs_close_file E file_t s)
        }))))"

definition check_file ::
  "image_abi \<Rightarrow> 'c crypto \<Rightarrow> config \<Rightarrow> 'w os \<Rightarrow> string \<Rightarrow> u32 \<Rightarrow> u32 \<Rightarrow> bool \<Rightarrow> image_header \<Rightarrow> fw_image_hw_rev_t
   \<Rightarrow> 'w fw \<Rightarrow> ((bool \<times> image_header \<times> fw_image_hw_rev_t) \<times> 'w fw) option"
where
  "check_file A C K E file_name dst_fa_addr dst_fa_size flag_validate_b0_signature hdr hw_rev s =
     (case btldr_fs_is_file_exist K E file_name s of (ex, s) \<Rightarrow>
      if \<not> ex then Some ((False, hdr, hw_rev), s)
      else if flag_validate_b0_signature then
        (case validate_b0_signature K E file_name dst_fa_addr dst_fa_size s of (valid, s) \<Rightarrow>
         if \<not> valid then Some ((False, hdr, hw_rev), snd (btldr_fs_unlink_file K E file_name s))
         else do {
           ((_, hdr, hw_rev), s) \<leftarrow> validate_file A C K E file_name dst_fa_addr dst_fa_size hdr hw_rev s;
           Some ((True, hdr, hw_rev), s)
         })
      else do {
        ((valid, hdr, hw_rev), s) \<leftarrow> validate_file A C K E file_name dst_fa_addr dst_fa_size hdr hw_rev s;
        if \<not> valid then Some ((False, hdr, hw_rev), snd (btldr_fs_unlink_file K E file_name s))
        else Some ((True, hdr, hw_rev), s)
      })"

subsection \<open>Firmware information\<close>

definition fw_info_check_in_file ::
  "image_abi \<Rightarrow> config \<Rightarrow> 'w os \<Rightarrow> fs_file_t \<Rightarrow> int \<Rightarrow> 'w fw \<Rightarrow> fw_info option \<times> 'w fw"
where
  "fw_info_check_in_file A K E p_file offset s =
     (case on_world (fs_seek E p_file offset FS_SEEK_SET) s of (rc, s) \<Rightarrow>
      if rc \<noteq> 0 then (None, s)
      else (case on_world (fs_read E p_file (sizeof_fw_info A)) s of ((len, data), s) \<Rightarrow>
      if len < 0 then (None, s)
      else if len \<noteq> int (sizeof_fw_info A) then (None, s)
      else let info = fw_info_of A data in
        if take (CONFIG_FW_INFO_MAGIC_LEN K) (fi_magic info) = take (CONFIG_FW_INFO_MAGIC_LEN K) (FIRMWARE_INFO_MAGIC K)
        then (Some info, s) else (None, s)))"

fun fw_info_find_loop ::
  "image_abi \<Rightarrow> config \<Rightarrow> 'w os \<Rightarrow> fs_file_t \<Rightarrow> int list \<Rightarrow> 'w fw \<Rightarrow> fw_info option \<times> 'w fw"
where
  "fw_info_find_loop A K E p_file [] s = (None, s)"
| "fw_info_find_loop A K E p_file (offset # offsets) s =
     (case fw_info_check_in_file A K E p_file offset s of
        (Some info, s) \<Rightarrow> (Some info, s)
      | (None, s) \<Rightarrow> fw_info_find_loop A K E p_file offsets s)"

definition fw_info_find_in_file ::
  "image_abi \<Rightarrow> config \<Rightarrow> 'w os \<Rightarrow> string \<Rightarrow> 'w fw \<Rightarrow> fw_info option \<times> 'w fw"
where
  "fw_info_find_in_file A K E file_name s =
     (case btldr_fs_open_file K E file_name s of (file_t, s) \<Rightarrow>
      if filep file_t = None then (None, s)
      else (case fw_info_find_loop A K E file_t (fw_info_allowed_offsets K) s of (r, s) \<Rightarrow>
        (r, btldr_fs_close_file E file_t s)))"

subsection \<open>Versions\<close>

definition boot_version_cmp :: "config \<Rightarrow> image_version \<Rightarrow> image_version \<Rightarrow> int" where
  "boot_version_cmp K ver1 ver2 =
     (if iv_major ver1 > iv_major ver2 then 1
      else if iv_major ver1 < iv_major ver2 then - 1
      else if iv_minor ver1 > iv_minor ver2 then 1
      else if iv_minor ver1 < iv_minor ver2 then - 1
      else if iv_revision ver1 > iv_revision ver2 then 1
      else if iv_revision ver1 < iv_revision ver2 then - 1
      else if mcuboot_version_cmp_use_build_number K \<and> iv_build_num ver1 > iv_build_num ver2 then 1
      else if mcuboot_version_cmp_use_build_number K \<and> iv_build_num ver1 < iv_build_num ver2 then - 1
      else 0)"

definition image_header_zero :: image_header where
  "image_header_zero = \<lparr>ih_magic = 0, ih_hdr_size = 0, ih_protect_tlv_size = 0, ih_img_size = 0,
     ih_flags = 0, ih_ver = \<lparr>iv_major = 0, iv_minor = 0, iv_revision = 0, iv_build_num = 0\<rparr>\<rparr>"

definition check_downgrade_prevention ::
  "config \<Rightarrow> 'w os \<Rightarrow> fa_id_t \<Rightarrow> image_header \<Rightarrow> 'w fw \<Rightarrow> bool \<times> 'w fw"
where
  "check_downgrade_prevention K E dst_fa_id file_img_hdr s =
     (case on_world (load_image_header E dst_fa_id image_header_zero) s of ((ok, dst_img_hdr), s) \<Rightarrow>
      if \<not> ok then (False, s)
      else
        let rc = boot_version_cmp K (ih_ver file_img_hdr) (ih_ver file_img_hdr);
            rc = (if rc \<ge> 0 \<and> (PM_ID_s0 K = dst_fa_id \<or> PM_ID_s1 K = dst_fa_id) then
                    let version_check = boot_version_cmp K (ih_ver file_img_hdr) (mcuboot_s0_s1_image_version K) in
                    if version_check < rc then version_check else rc
                  else rc)
        in if rc < 0 then (False, s) else (True, s))"

subsection \<open>What the checks rely on and what they keep\<close>

definition fw_platform :: "bool \<Rightarrow> ('w \<Rightarrow> dev) \<Rightarrow> 'w os \<Rightarrow> image_abi \<Rightarrow> 'c crypto \<Rightarrow> bool" where
  "fw_platform rel dv E A C \<longleftrightarrow>
     fs_spec rel dv E \<and> flash_spec rel dv E \<and> query_spec dv E \<and> abi_ok A \<and> sha_streams C"

lemma fw_platformD:
  assumes "fw_platform rel dv E A C"
  shows "fs_spec rel dv E" "flash_spec rel dv E" "query_spec dv E" "abi_ok A" "sha_streams C"
  using assms by (simp_all add: fw_platform_def)

text \<open>The static buffers have their sizes.\<close>

definition fw_ok :: "config \<Rightarrow> 'w fw \<Rightarrow> bool" where
  "fw_ok K s \<longleftrightarrow> length (g_shared_img_buf s) = shared_img_buf_size K \<and> length (validate_tmp_buf s) = 256"

lemma btldr_kept_fw:
  "btldr_kept s s' \<Longrightarrow> g_shared_img_buf s' = g_shared_img_buf s \<and> validate_tmp_buf s' = validate_tmp_buf s"
  by (cases s, cases s', simp add: btldr_kept_def)

lemma fw_ok_kept: "btldr_kept s s' \<Longrightarrow> fw_ok K s' = fw_ok K s"
  by (simp add: fw_ok_def btldr_kept_fw)

lemma fw_ok_world [simp]: "fw_ok K (s\<lparr>world := w\<rparr>) = fw_ok K s"
  by (rule fw_ok_kept) simp

lemma fw_ok_close [simp]: "fw_ok K (btldr_fs_close_file E f s) = fw_ok K s"
  by (rule fw_ok_kept) (rule btldr_kept_calls(7))

lemma close_keeps_buf [simp]: "g_shared_img_buf (btldr_fs_close_file E f s) = g_shared_img_buf s"
  by (rule btldr_kept_fw [THEN conjunct1]) (rule btldr_kept_calls(7))

lemmas fw_kept = fw_ok_kept [OF btldr_kept_calls(5)] fw_ok_kept [OF btldr_kept_calls(6)]
  fw_ok_kept [OF btldr_kept_calls(7)] fw_ok_kept [OF btldr_kept_calls(8)]
  fw_ok_kept [OF btldr_kept_calls(9)] fw_ok_kept [OF btldr_kept_calls(1)]

lemma on_worldD:
  assumes "on_world call s = (r, s')"
  shows "call (world s) = (r, world s')" and "s' = s\<lparr>world := world s'\<rparr>"
  using assms by (auto simp: on_world_run)

lemma open_fileE:
  assumes "fs_spec rel dv E" and "btldr_fs_open_file K E n s = (f, s')" and "filep f \<noteq> None"
  obtains bs where "opened (sdev dv s) (btldr_path K n) f (sdev dv s')"
    and "d_files (sdev dv s) (btldr_path K n) = Some bs"
    and "reading rel dv E f bs (sdev dv s') 0 (world s')"
  using btldr_fs_open_file_answer [OF assms(1,2)] assms(3) by metis

lemma open_file_failed:
  assumes "fs_spec rel dv E" and "btldr_fs_open_file K E n s = (f, s')" and "filep f = None"
  shows "sdev dv s' = sdev dv s" and "\<not> (rel \<and> d_files (sdev dv s) (btldr_path K n) \<noteq> None)"
  using btldr_fs_open_file_answer [OF assms(1,2)] assms(3) by metis+

subsection \<open>The signature of the immutable bootloader: what acceptance means\<close>

text \<open>
  The library function of the immutable bootloader accepted the buffer \<open>buf\<close>, for the address that the
  firmware information in the buffer names, which lies in the destination. The buffer, which held
  \<open>old\<close>, had been overwritten from its start with the whole file. Only where the file system failed to
  seek to the end of the file, so that its size was taken to be 0, nothing was read, and the buffer
  that was accepted is the old one.
\<close>

definition b0_checked ::
  "bool \<Rightarrow> config \<Rightarrow> 'w os \<Rightarrow> u32 \<Rightarrow> u32 \<Rightarrow> byte list \<Rightarrow> byte list \<Rightarrow> byte list \<Rightarrow> bool"
where
  "b0_checked rel K E addr sz bs old buf \<longleftrightarrow>
     unat sz = shared_img_buf_size K \<and> length old = shared_img_buf_size K
     \<and> (length bs \<le> shared_img_buf_size K \<and> buf = overlay bs old
        \<or> \<not> rel \<and> buf = old \<and> (\<exists>f w. fst (fs_seek E f 0 FS_SEEK_END w) \<noteq> 0))
     \<and> (\<exists>w p info w'. fw_info_find E (shared_img_buf_addr K) buf w = Some (p, info)
          \<and> unat (fi_address info - addr) < unat sz
          \<and> bl_validate_firmware E (fi_address info) (shared_img_buf_addr K + (fi_address info - addr)) buf w
              = (True, w'))"

definition b0_accepted :: "bool \<Rightarrow> config \<Rightarrow> 'w os \<Rightarrow> u32 \<Rightarrow> u32 \<Rightarrow> byte list \<Rightarrow> bool" where
  "b0_accepted rel K E addr sz bs \<longleftrightarrow> (\<exists>old buf. b0_checked rel K E addr sz bs old buf)"

text \<open>On a reliable platform the buffer starts with the file, so what was accepted is the file.\<close>

lemma b0_accepted_reliable:
  assumes "b0_accepted True K E addr sz bs"
  obtains buf w p info w' where "length buf = unat sz" and "length bs \<le> unat sz" and "take (length bs) buf = bs"
    and "fw_info_find E (shared_img_buf_addr K) buf w = Some (p, info)" and "unat (fi_address info - addr) < unat sz"
    and "bl_validate_firmware E (fi_address info) (shared_img_buf_addr K + (fi_address info - addr)) buf w = (True, w')"
proof -
  obtain old buf where b: "b0_checked True K E addr sz bs old buf"
    using assms unfolding b0_accepted_def by blast
  then have "length buf = unat sz" "length bs \<le> unat sz" "take (length bs) buf = bs"
    by (auto simp: b0_checked_def overlay_def)
  then show thesis
    using b that unfolding b0_checked_def by blast
qed

lemma b0_checked_buffer:
  assumes r: "reading rel dv E f bs d pos w" and rd: "fs_read E f N w = ((int N, data), w')"
    and N: "N = 0 \<and> \<not> rel \<and> (\<exists>w. fst (fs_seek E f 0 FS_SEEK_END w) \<noteq> 0) \<or> N = length bs"
      "N \<le> shared_img_buf_size K" "unat sz = shared_img_buf_size K"
    and buf: "length buf = shared_img_buf_size K"
    and info: "fw_info_find E (shared_img_buf_addr K) (overlay data buf) w1 = Some (p, info)"
      "unat (fi_address info - addr) < shared_img_buf_size K"
    and bl: "bl_validate_firmware E (fi_address info) (shared_img_buf_addr K + (fi_address info - addr)) (overlay data buf) w1
      = (True, w2)"
  shows "b0_checked rel K E addr sz bs buf (overlay data buf)"
proof -
  have "\<not> int N < 0"
    by simp
  then have "data = bytes_at pos N bs" "int N = int (length data)"
    using reading_read [OF r rd] by blast+
  then have len: "data = bytes_at pos N bs" "length data = N"
    by simp_all
  have "data = bs" if "N = length bs"
    using len that by (cases "pos = 0"; cases bs) (simp_all add: bytes_at_def)
  moreover have "overlay data buf = buf" if "N = 0"
    using len(2) that by (simp add: overlay_def)
  ultimately show ?thesis
    using N info bl buf unfolding b0_checked_def by auto
qed

lemma validate_b0_signature_opened:
  assumes plat: "fw_platform rel dv E A C" and ok: "fw_ok K s"
    and run: "validate_b0_signature K E n addr sz s = (r, s')"
    and sz: "unat sz = shared_img_buf_size K" and op: "btldr_fs_open_file K E n s = (f, s1)" and opn: "filep f \<noteq> None"
  shows "sdev dv s' = sdev dv s \<and> fw_ok K s'
    \<and> (r \<longrightarrow> (\<exists>bs. d_files (sdev dv s) (btldr_path K n) = Some bs
          \<and> b0_checked rel K E addr sz bs (g_shared_img_buf s) (g_shared_img_buf s')))"
proof -
  note fs = fw_platformD(1) [OF plat]
  obtain bs where op_dev: "opened (sdev dv s) (btldr_path K n) f (sdev dv s1)"
    and bs: "d_files (sdev dv s) (btldr_path K n) = Some bs"
    and r1: "reading rel dv E f bs (sdev dv s1) 0 (world s1)"
    by (rule open_fileE [OF fs op opn])
  obtain fsz s2 where sz2: "btldr_fs_get_file_size E f s1 = (fsz, s2)"
    by (metis prod.exhaust)
  obtain pos2 where r2: "reading rel dv E f bs (sdev dv s1) pos2 (world s2)"
    and fsz: "fsz = 0 \<or> fsz = int (length bs)" and fsz_rel: "rel \<Longrightarrow> fsz = int (length bs)"
    and fsz_bad: "fsz = int (length bs) \<or> (\<exists>w. fst (fs_seek E f 0 FS_SEEK_END w) \<noteq> 0)"
    using btldr_fs_get_file_size_answer [OF r1 sz2] by blast
  define N where "N = unat (u32_of_int fsz)"
  have "N = nat fsz"
    unfolding N_def by (rule unat_u32_of_int) (use fsz reading_length [OF r1] in auto)
  then have N: "int N = fsz"
    using fsz by auto
  obtain rc data s3 where rd: "on_world (fs_read E f N) s2 = ((rc, data), s3)"
    by (metis prod.exhaust)
  note rr = reading_read [OF r2 on_worldD(1) [OF rd]]
  then obtain pos3 where r3: "reading rel dv E f bs (sdev dv s1) pos3 (world s3)"
    by blast
  let ?buf = "overlay data (g_shared_img_buf s3)" and ?c = "\<lambda>s. btldr_fs_close_file E f s"
  let ?s3 = "s3\<lparr>g_shared_img_buf := ?buf\<rparr>" and ?S = "shared_img_buf_size K"
  have closed: "sdev dv (?c t) = sdev dv s" if "reading rel dv E f bs (sdev dv s1) q (world t)" for q t
    by (rule btldr_fs_close_file_answer [OF that op_dev])
  have kept: "fw_ok K s2" "fw_ok K s3"
    using ok fw_kept(2) [OF op] fw_kept(5) [OF sz2] fw_kept(6) [OF rd] by simp_all
  have ok3: "fw_ok K ?s3" if "N \<le> ?S"
    using kept(2) rr that by (auto simp: fw_ok_def)
  have same: "g_shared_img_buf s3 = g_shared_img_buf s"
    using btldr_kept_fw [OF btldr_kept_calls(6) [OF op]] btldr_kept_fw [OF btldr_kept_calls(9) [OF sz2]]
      btldr_kept_fw [OF btldr_kept_calls(1) [OF rd]] by simp
  define good where "good \<longleftrightarrow> \<not> rc < 0 \<and> rc = fsz
    \<and> (\<exists>p info. fw_info_find E (shared_img_buf_addr K) ?buf (world s3) = Some (p, info) \<and> unat (fi_address info - addr) < ?S)"
  consider (large) "N > ?S" | (bad) "\<not> N > ?S" "\<not> good" | (checked) "\<not> N > ?S" "good"
    by blast
  then show ?thesis
  proof cases
    case large
    then have "r = False" "s' = ?c s2"
      using run by (simp_all add: validate_b0_signature_def sz op opn sz2 flip: N_def)
    then show ?thesis
      using closed [OF r2] kept by simp
  next
    case bad
    have "(r, s') = (False, ?c ?s3)"
      unfolding run [symmetric] using bad
      by (auto simp: validate_b0_signature_def sz op opn sz2 rd Let_def good_def not_less simp flip: N_def split: option.split)
    then show ?thesis
      using closed [of pos3 ?s3] r3 ok3 bad(1) by simp
  next
    case checked
    then obtain p info where info: "fw_info_find E (shared_img_buf_addr K) ?buf (world s3) = Some (p, info)"
        "unat (fi_address info - addr) < ?S" and rc: "rc = int N" "rc = fsz"
      using N by (auto simp: good_def)
    obtain valid s4 where bl: "on_world (bl_validate_firmware E (fi_address info)
        (shared_img_buf_addr K + (fi_address info - addr)) ?buf) ?s3 = (valid, s4)"
      by (metis prod.exhaust)
    have res: "r = valid" "s' = ?c s4"
      using run checked info rc bl
      by (simp_all add: validate_b0_signature_def sz op opn sz2 rd Let_def not_le flip: N_def split: if_splits)
    have buf: "g_shared_img_buf s' = ?buf"
      using res(2) btldr_kept_fw [OF btldr_kept_calls(1) [OF bl]] by simp
    have "sdev dv s4 = sdev dv ?s3"
      using fw_platformD(3) [OF plat] on_worldD(1) [OF bl] unfolding query_spec_def by blast
    then have "reading rel dv E f bs (sdev dv s1) pos3 (world s4)"
      using r3 by (simp add: reading_def)
    then have "sdev dv s' = sdev dv s"
      using res closed by blast
    moreover have "fw_ok K s'"
      using res fw_kept(6) [OF bl] ok3 checked(1) by simp
    moreover have "b0_checked rel K E addr sz bs (g_shared_img_buf s) (g_shared_img_buf s')" if valid
      unfolding buf same [symmetric]
    proof (rule b0_checked_buffer [OF r2 on_worldD(1) [OF rd, unfolded rc(1)] _ _ sz _ info])
      show "N = 0 \<and> \<not> rel \<and> (\<exists>w. fst (fs_seek E f 0 FS_SEEK_END w) \<noteq> 0) \<or> N = length bs"
        using fsz fsz_rel fsz_bad N by auto
    qed (use checked(1) kept(2) on_worldD(1) [OF bl] that in \<open>auto simp: fw_ok_def\<close>)
    ultimately show ?thesis
      using bs res(1) by blast
  qed
qed

lemma validate_b0_signature_answer [spec]:
  assumes plat: "fw_platform rel dv E A C" and ok: "fw_ok K s"
    and run: "validate_b0_signature K E n addr sz s = (r, s')"
  shows "sdev dv s' = sdev dv s \<and> fw_ok K s'
    \<and> (r \<longrightarrow> (\<exists>bs. d_files (sdev dv s) (btldr_path K n) = Some bs
          \<and> b0_checked rel K E addr sz bs (g_shared_img_buf s) (g_shared_img_buf s')))"
proof -
  note fs = fw_platformD(1) [OF plat]
  obtain f s1 where op: "btldr_fs_open_file K E n s = (f, s1)"
    by (metis prod.exhaust)
  show ?thesis
  proof (cases "unat sz = shared_img_buf_size K \<and> filep f \<noteq> None")
    case True
    then show ?thesis
      using validate_b0_signature_opened [OF plat ok run _ op] by blast
  next
    case False
    then have "r = False \<and> s' = (if unat sz = shared_img_buf_size K then s1 else s)"
      using run by (auto simp: validate_b0_signature_def op split: if_splits)
    then show ?thesis
      using False btldr_fs_open_file_answer [OF fs op] ok fw_kept(2) [OF op] by auto
  qed
qed

subsection \<open>The image header: what a header that was loaded is\<close>

text \<open>
  The header is the start of the file; it has the magic number, is bootable, and the image it
  describes fits into the file.
\<close>

definition header_ok :: "image_abi \<Rightarrow> byte list \<Rightarrow> image_header \<Rightarrow> u32 \<Rightarrow> bool" where
  "header_ok A bs h sz \<longleftrightarrow>
     sizeof_image_header A \<le> length bs \<and> h = image_header_of A (take (sizeof_image_header A) bs)
     \<and> ih_magic h = IMAGE_MAGIC A \<and> Bit_Operations.and (ih_flags h) (IMAGE_F_NON_BOOTABLE A) = 0
     \<and> unat sz = unat (ih_img_size h) + unat (ih_hdr_size h) \<and> unat sz \<le> length bs"

lemma load_image_header_from_file_answer [spec]:
  assumes "reading rel dv E f bs d 0 (world s)"
    and run: "load_image_header_from_file A E f s = (r, s')"
  shows "btldr_kept s s' \<and> (\<exists>pos. reading rel dv E f bs d pos (world s'))
    \<and> (\<forall>h sz. r = Some (h, sz) \<longrightarrow> header_ok A bs h sz)"
proof -
  let ?n = "sizeof_image_header A"
  obtain len data s1 where rd: "on_world (fs_read E f ?n) s = ((len, data), s1)"
    by (metis prod.exhaust)
  note rr = reading_read [OF assms(1) on_worldD(1) [OF rd]]
  then obtain pos1 where r1: "reading rel dv E f bs d pos1 (world s1)"
    by blast
  obtain fsz s2 where sz: "btldr_fs_get_file_size E f s1 = (fsz, s2)"
    by (metis prod.exhaust)
  obtain pos2 where r2: "reading rel dv E f bs d pos2 (world s2)"
    and fsz: "fsz = 0 \<or> fsz = int (length bs)"
    using btldr_fs_get_file_size_answer [OF r1 sz] by blast
  have k: "btldr_kept s s1" "btldr_kept s1 s2"
    by (rule btldr_kept_calls(1) [OF rd], rule btldr_kept_calls(9) [OF sz])
  have "unat (u32_of_int fsz) = nat fsz"
    by (rule unat_u32_of_int) (use fsz reading_length [OF assms(1)] in auto)
  then have small: "unat (u32_of_int fsz) \<le> length bs"
    using fsz by auto
  let ?h = "image_header_of A data"
  have s': "s' = s1 \<or> s' = s2"
    using run by (auto simp: load_image_header_from_file_def rd sz Let_def split: if_splits option.splits)
  have "header_ok A bs h isz" if res: "r = Some (h, isz)" for h isz
  proof -
    have c: "\<not> len < 0" "len = int ?n" "h = ?h" "ih_magic h = IMAGE_MAGIC A"
        "Bit_Operations.and (ih_flags h) (IMAGE_F_NON_BOOTABLE A) = 0"
        "boot_u32_safe_add (ih_img_size h) (ucast (ih_hdr_size h)) = Some isz"
        "\<not> u32_of_int fsz < isz"
      using run res by (auto simp: load_image_header_from_file_def rd sz Let_def split: if_splits option.splits)
    have d: "data = bytes_at 0 ?n bs" "len = int (length data)"
      using rr c(1) by blast+
    then have "length data = ?n"
      using c(2) by simp
    with d(1) have "?n \<le> length bs" "data = take ?n bs"
      by (auto simp: bytes_at_def)
    moreover have "unat isz \<le> length bs"
      using c(7) small by (simp add: word_less_nat_alt)
    ultimately show ?thesis
      using c(3-6) by (simp add: header_ok_def boot_u32_safe_add_Some)
  qed
  moreover have "btldr_kept s s'" "\<exists>pos. reading rel dv E f bs d pos (world s')"
    using s' r1 r2 k(1) btldr_kept_trans [OF k] by (elim disjE; blast)+
  ultimately show ?thesis
    by simp
qed

lemma open_file_and_load_image_header_answer [spec]:
  assumes fs: "fs_spec rel dv E" and run: "open_file_and_load_image_header A K E n s = (r, s')"
  shows "btldr_kept s s' \<and> (case r of None \<Rightarrow> sdev dv s' = sdev dv s
    | Some (f, h, sz) \<Rightarrow> \<exists>bs d pos. d_files (sdev dv s) (btldr_path K n) = Some bs \<and> header_ok A bs h sz
        \<and> opened (sdev dv s) (btldr_path K n) f d \<and> reading rel dv E f bs d pos (world s'))"
proof -
  obtain f s1 where op: "btldr_fs_open_file K E n s = (f, s1)"
    by (metis prod.exhaust)
  obtain l s2 where ld: "load_image_header_from_file A E f s1 = (l, s2)"
    by (metis prod.exhaust)
  note k1 = btldr_kept_calls(6) [OF op]
  show ?thesis
  proof (cases "filep f = None")
    case True
    then show ?thesis
      using run op k1 open_file_failed [OF fs op] by (auto simp: open_file_and_load_image_header_def)
  next
    case False
    obtain bs where o: "opened (sdev dv s) (btldr_path K n) f (sdev dv s1)"
        "d_files (sdev dv s) (btldr_path K n) = Some bs" "reading rel dv E f bs (sdev dv s1) 0 (world s1)"
      by (rule open_fileE [OF fs op False])
    obtain pos where l: "btldr_kept s1 s2" "reading rel dv E f bs (sdev dv s1) pos (world s2)"
        "\<forall>h sz. l = Some (h, sz) \<longrightarrow> header_ok A bs h sz"
      using load_image_header_from_file_answer [OF o(3) ld] by blast
    have k2: "btldr_kept s s2"
      by (rule btldr_kept_trans [OF k1 l(1)])
    show ?thesis
    proof (cases l)
      case None
      then have "r = None" "s' = btldr_fs_close_file E f s2"
        using run op ld False by (simp_all add: open_file_and_load_image_header_def)
      then show ?thesis
        using btldr_fs_close_file_answer [OF l(2) o(1)] btldr_kept_trans [OF k2 btldr_kept_calls(7)] by simp
    next
      case (Some p)
      then obtain h sz where "l = Some (h, sz)"
        by (cases p) simp
      moreover from this have "r = Some (f, h, sz)" "s' = s2"
        using run op ld False by (simp_all add: open_file_and_load_image_header_def)
      ultimately show ?thesis
        using l(2,3) o(1,2) k2 by (simp only: option.case prod.case) blast
    qed
  qed
qed

subsection \<open>Validating a file: what acceptance means\<close>

text \<open>
  The image in the file is smaller than the destination, its reset vector points into the
  destination, and it is authentic.
\<close>

definition image_accepted ::
  "image_abi \<Rightarrow> 'c crypto \<Rightarrow> config \<Rightarrow> u32 \<Rightarrow> u32 \<Rightarrow> byte list \<Rightarrow> image_header \<Rightarrow> bool"
where
  "image_accepted A C K addr sz bs h \<longleftrightarrow>
     (\<exists>img_size. header_ok A bs h img_size \<and> img_size < sz)
     \<and> unat (ih_hdr_size h) + 8 \<le> length bs
     \<and> addr \<le> u32_from_bytes_le (bytes_at (unat (ih_hdr_size h) + 4) 4 bs)
     \<and> u32_from_bytes_le (bytes_at (unat (ih_hdr_size h) + 4) 4 bs) < addr + sz
     \<and> image_authentic A C K bs h (unat sz)"

lemma on_world_optI:
  "call (world s) = Some (r, w) \<Longrightarrow> on_world_opt call s = Some (r, s\<lparr>world := w\<rparr>)"
  by (simp add: on_world_opt_def)

text \<open>
  What the caller learns of the image: where its header was loaded, the header and, where the check
  got that far, the hardware revision. On a reliable file system that is the revision which the
  protected TLVs of the file list, when they lie inside the file.
\<close>

definition hw_rev_read :: "bool \<Rightarrow> image_abi \<Rightarrow> byte list \<Rightarrow> fw_image_hw_rev_t \<Rightarrow> bool" where
  "hw_rev_read rel A bs hr \<longleftrightarrow> hw_rev_wf hr
     \<and> (\<forall>start te. rel \<and> sizeof_image_header A \<le> length bs
          \<and> prot_tlvs A bs (image_header_of A (bytes_at 0 (sizeof_image_header A) bs)) = Some (start, te)
          \<and> te + 4 \<le> length bs \<longrightarrow> hr = snd (hw_rev_scan A bs te start (hw_rev_reset hw_rev_zero)))"

definition details_of ::
  "bool \<Rightarrow> image_abi \<Rightarrow> byte list \<Rightarrow> image_header \<Rightarrow> fw_image_hw_rev_t \<Rightarrow> image_header \<Rightarrow> fw_image_hw_rev_t \<Rightarrow> bool"
where
  "details_of rel A bs h0 hr0 h hr \<longleftrightarrow>
     h = h0 \<and> hr = hr0 \<or> (\<exists>sz. header_ok A bs h sz) \<and> (hr = hr0 \<or> hw_rev_read rel A bs hr)"

text \<open>The part of \<open>validate_file\<close> behind the check of the reset vector.\<close>

lemma validate_file_rest:
  assumes plat: "fw_platform rel dv E A C" and ok: "fw_ok K s"
    and rd: "reading rel dv E f bs d pos (world s)"
  shows "\<exists>hw s2 v buf s3.
    (\<exists>found. on_world_opt (fw_img_hw_rev_find_in_file A E f hw_rev_zero) s = Some ((found, hw), s2))
    \<and> on_world_opt (file_img_validate A C K E h f sz (validate_tmp_buf s2) MCUBOOT_HOOK_TMPBUF_SZ None 0) s2
      = Some ((v, buf), s3)
    \<and> hw_rev_read rel A bs hw \<and> (\<exists>pos. reading rel dv E f bs d pos (world s3)) \<and> fw_ok K (s3\<lparr>validate_tmp_buf := buf\<rparr>)
    \<and> (v = FIH_SUCCESS \<longrightarrow> image_authentic A C K bs h (unat sz))"
proof -
  obtain found hw w2 pos2 where hw: "fw_img_hw_rev_find_in_file A E f hw_rev_zero (world s) = Some ((found, hw), w2)"
      "reading rel dv E f bs d pos2 w2" "hw_rev_read rel A bs hw"
  proof -
    note a = find_in_file_answer [OF rd fw_platformD(4) [OF plat] hw_rev_wf_zero]
    obtain found hw w2 where run: "fw_img_hw_rev_find_in_file A E f hw_rev_zero (world s) = Some ((found, hw), w2)"
      using a by blast
    have "hw_rev_read rel A bs hw" "\<exists>pos. reading rel dv E f bs d pos w2"
      using a unfolding run hw_rev_read_def by (metis Pair_inject option.inject snd_conv)+
    then show thesis
      using that run by blast
  qed
  let ?s2 = "s\<lparr>world := w2\<rparr>"
  have good: "\<exists>pos. reading rel dv E f bs d pos (world ?s2)"
    using hw(2) by auto
  have n: "0 < unat MCUBOOT_HOOK_TMPBUF_SZ" "unat MCUBOOT_HOOK_TMPBUF_SZ < 2 ^ 31"
      "unat MCUBOOT_HOOK_TMPBUF_SZ \<le> length (validate_tmp_buf ?s2)"
    using ok by (simp_all add: MCUBOOT_HOOK_TMPBUF_SZ_def fw_ok_def)
  obtain v buf w3 pos3 where v: "file_img_validate A C K E h f sz (validate_tmp_buf ?s2) MCUBOOT_HOOK_TMPBUF_SZ None 0
        (world ?s2) = Some ((v, buf), w3)"
      "reading rel dv E f bs d pos3 w3" "length buf = length (validate_tmp_buf ?s2)"
      "v = FIH_SUCCESS \<Longrightarrow> image_authentic A C K bs h (unat sz)"
    using file_source.file_img_validate_answer [OF good fw_platformD(4,5) [OF plat] n, of K h sz] by blast
  have "fw_ok K (?s2\<lparr>world := w3, validate_tmp_buf := buf\<rparr>)"
    using ok v(3) by (simp add: fw_ok_def)
  moreover have "on_world_opt (fw_img_hw_rev_find_in_file A E f hw_rev_zero) s = Some ((found, hw), ?s2)"
    by (rule on_world_optI) (rule hw(1))
  moreover have "on_world_opt (file_img_validate A C K E h f sz (validate_tmp_buf ?s2) MCUBOOT_HOOK_TMPBUF_SZ None 0)
      ?s2 = Some ((v, buf), ?s2\<lparr>world := w3\<rparr>)"
    by (rule on_world_optI) (rule v(1))
  moreover have "\<exists>pos. reading rel dv E f bs d pos (world (?s2\<lparr>world := w3\<rparr>))"
    using v(2) by auto
  ultimately show ?thesis
    using hw(3) v(4) by blast
qed

text \<open>Validating a file in steps: the address in the reset vector, then the checks of the open file.\<close>

definition read_reset_addr :: "'w os \<Rightarrow> fs_file_t \<Rightarrow> image_header \<Rightarrow> 'w fw \<Rightarrow> u32 option \<times> 'w fw" where
  "read_reset_addr E f h s =
     (case on_world (fs_seek E f (int (unat (ih_hdr_size h)) + 4) FS_SEEK_SET) s of (rc, s) \<Rightarrow>
      if rc \<noteq> 0 then (None, s)
      else (case on_world (fs_read E f 4) s of ((rc, data), s) \<Rightarrow>
        (if rc = 4 then Some (u32_from_bytes_le data) else None, s)))"

definition validate_opened ::
  "image_abi \<Rightarrow> 'c crypto \<Rightarrow> config \<Rightarrow> 'w os \<Rightarrow> fs_file_t \<Rightarrow> image_header \<Rightarrow> u32 \<Rightarrow> u32 \<Rightarrow> fw_image_hw_rev_t
   \<Rightarrow> 'w fw \<Rightarrow> ((bool \<times> image_header \<times> fw_image_hw_rev_t) \<times> 'w fw) option"
where
  "validate_opened A C K E f h addr sz hr0 s =
     (case read_reset_addr E f h s of
        (None, s) \<Rightarrow> Some ((False, h, hr0), btldr_fs_close_file E f s)
      | (Some ra, s) \<Rightarrow>
        if \<not> (ra \<ge> addr \<and> ra < addr + sz) then Some ((False, h, hr0), btldr_fs_close_file E f s)
        else do {
          ((_, hw), s) \<leftarrow> on_world_opt (fw_img_hw_rev_find_in_file A E f hw_rev_zero) s;
          ((v, buf), s) \<leftarrow> on_world_opt (file_img_validate A C K E h f sz (validate_tmp_buf s)
              MCUBOOT_HOOK_TMPBUF_SZ None 0) s;
          Some ((v = FIH_SUCCESS, h, hw), btldr_fs_close_file E f (s\<lparr>validate_tmp_buf := buf\<rparr>))
        })"

lemma validate_file_split:
  "validate_file A C K E n addr sz h0 hr0 s =
     (case btldr_fs_is_file_exist K E n s of (ex, s) \<Rightarrow>
      if \<not> ex then Some ((False, h0, hr0), s)
      else (case open_file_and_load_image_header A K E n s of
        (None, s) \<Rightarrow> Some ((False, h0, hr0), s)
      | (Some (f, h, isz), s) \<Rightarrow>
        if isz \<ge> sz then Some ((False, h0, hr0), btldr_fs_close_file E f s)
        else validate_opened A C K E f h addr sz hr0 s))"
proof -
  have less: "(if rc < 0 then x else if rc \<noteq> 4 then x else y) = (if rc = 4 then y else x)" for rc :: int and x y :: 'z
    by simp
  have val: "(if v \<noteq> FIH_SUCCESS then Some ((False, hd), x) else Some ((True, hd), x)) = Some ((v = FIH_SUCCESS, hd), x)"
    for v and hd :: 'y and x :: 'z
    by simp
  show ?thesis
    unfolding validate_file_def validate_opened_def read_reset_addr_def Let_def less val
    by (auto split: prod.split option.split if_splits)
qed

lemma read_reset_addr_answer:
  assumes plat: "fw_platform rel dv E A C" and ok: "fw_ok K s" and r: "reading rel dv E f bs d pos (world s)"
    and run: "read_reset_addr E f h s = (ra, s')"
  shows "fw_ok K s'" and "\<exists>pos. reading rel dv E f bs d pos (world s')"
    and "ra = Some a \<Longrightarrow> length (bytes_at (unat (ih_hdr_size h) + 4) 4 bs) = 4
           \<and> a = u32_from_bytes_le (bytes_at (unat (ih_hdr_size h) + 4) 4 bs)"
proof -
  obtain rc s1 where sk: "on_world (fs_seek E f (int (unat (ih_hdr_size h)) + 4) FS_SEEK_SET) s = (rc, s1)"
    by (metis prod.exhaust)
  obtain rc2 data s2 where rd: "on_world (fs_read E f 4) s1 = ((rc2, data), s2)"
    by (metis prod.exhaust)
  note run' = run [unfolded read_reset_addr_def sk rd prod.case]
  note r1 = reading_seek [OF r on_worldD(1) [OF sk]]
  obtain p1 where p1: "reading rel dv E f bs d p1 (world s1)"
    using r1 by blast
  note r2 = reading_read [OF p1 on_worldD(1) [OF rd]]
  show "fw_ok K s'"
    using run' ok fw_kept(6) [OF sk] fw_kept(6) [OF rd] by (auto split: if_splits)
  show "\<exists>pos. reading rel dv E f bs d pos (world s')"
    using run' p1 r2 by (auto split: if_splits)
  show "length (bytes_at (unat (ih_hdr_size h) + 4) 4 bs) = 4
      \<and> a = u32_from_bytes_le (bytes_at (unat (ih_hdr_size h) + 4) 4 bs)" if "ra = Some a"
  proof -
    have rc: "rc = 0" "rc2 = 4" "a = u32_from_bytes_le data"
      using run' that by (auto split: if_splits)
    then have "reading rel dv E f bs d (unat (ih_hdr_size h) + 4) (world s1)"
      using r1 by (simp add: fs_seek_target_def nat_add_distrib)
    from reading_read [OF this on_worldD(1) [OF rd]] rc show ?thesis
      by auto
  qed
qed

lemma validate_opened_answer:
  assumes plat: "fw_platform rel dv E A C" and ok: "fw_ok K s" and r: "reading rel dv E f bs d pos (world s)"
    and hdr: "header_ok A bs h isz" and fits: "\<not> isz \<ge> sz"
  obtains v hr t where "validate_opened A C K E f h addr sz hr0 s = Some ((v, h, hr), btldr_fs_close_file E f t)"
    and "fw_ok K t" and "\<exists>pos. reading rel dv E f bs d pos (world t)"
    and "details_of rel A bs h0 hr0 h hr" and "v \<Longrightarrow> image_accepted A C K addr sz bs h"
proof -
  obtain ra s1 where ra: "read_reset_addr E f h s = (ra, s1)"
    by (metis prod.exhaust)
  note a = read_reset_addr_answer [OF plat ok r ra]
  have det: "details_of rel A bs h0 hr0 h hr0"
    using hdr by (auto simp: details_of_def)
  show thesis
  proof (cases "\<exists>x. ra = Some x \<and> x \<ge> addr \<and> x < addr + sz")
    case False
    then have "validate_opened A C K E f h addr sz hr0 s = Some ((False, h, hr0), btldr_fs_close_file E f s1)"
      by (auto simp: validate_opened_def ra split: option.split)
    from that [OF this a(1,2) det] show thesis
      by simp
  next
    case True
    then obtain x where x: "ra = Some x" "x \<ge> addr" "x < addr + sz"
      by blast
    obtain p1 where p1: "reading rel dv E f bs d p1 (world s1)"
      using a(2) by blast
    obtain hw s2 v buf s3 where rest:
        "\<exists>found. on_world_opt (fw_img_hw_rev_find_in_file A E f hw_rev_zero) s1 = Some ((found, hw), s2)"
        "on_world_opt (file_img_validate A C K E h f sz (validate_tmp_buf s2) MCUBOOT_HOOK_TMPBUF_SZ None 0) s2
           = Some ((v, buf), s3)"
        "hw_rev_read rel A bs hw" "\<exists>pos. reading rel dv E f bs d pos (world s3)" "fw_ok K (s3\<lparr>validate_tmp_buf := buf\<rparr>)"
        "v = FIH_SUCCESS \<longrightarrow> image_authentic A C K bs h (unat sz)"
      using validate_file_rest [OF plat a(1) p1, of h sz] by blast
    have run: "validate_opened A C K E f h addr sz hr0 s
        = Some ((v = FIH_SUCCESS, h, hw), btldr_fs_close_file E f (s3\<lparr>validate_tmp_buf := buf\<rparr>))"
      using x rest(1) by (auto simp: validate_opened_def ra rest(2))
    show thesis
    proof (rule that [OF run rest(5)])
      show "\<exists>pos. reading rel dv E f bs d pos (world (s3\<lparr>validate_tmp_buf := buf\<rparr>))"
        using rest(4) by simp
      show "details_of rel A bs h0 hr0 h hw"
        using rest(3) hdr by (auto simp: details_of_def)
      show "image_accepted A C K addr sz bs h" if "v = FIH_SUCCESS"
        using a(3) [OF x(1)] x(2,3) hdr fits rest(6) that by (auto simp: image_accepted_def)
    qed
  qed
qed

lemma validate_file_answer [spec]:
  assumes plat: "fw_platform rel dv E A C" and ok: "fw_ok K s"
  shows "\<exists>r h hr s'. validate_file A C K E n addr sz h0 hr0 s = Some ((r, h, hr), s')
    \<and> sdev dv s' = sdev dv s \<and> fw_ok K s'
    \<and> (case d_files (sdev dv s) (btldr_path K n) of None \<Rightarrow> \<not> r \<and> h = h0 \<and> hr = hr0
       | Some bs \<Rightarrow> details_of rel A bs h0 hr0 h hr \<and> (r \<longrightarrow> image_accepted A C K addr sz bs h))"
    (is "\<exists>r h hr s'. ?run r h hr s' \<and> ?good r h hr s'")
proof -
  note fs = fw_platformD(1) [OF plat]
  obtain ex s1 where ex: "btldr_fs_is_file_exist K E n s = (ex, s1)"
    by (metis prod.exhaust)
  obtain op s2 where op: "open_file_and_load_image_header A K E n s1 = (op, s2)"
    by (metis prod.exhaust)
  have d1: "sdev dv s1 = sdev dv s" and ok1: "fw_ok K s1"
    using btldr_fs_is_file_exist_answer [OF fs ex] ok fw_kept(1) [OF ex] by simp_all
  note ld = open_file_and_load_image_header_answer [OF fs op, unfolded d1]
  have ok2: "fw_ok K s2"
    using ok1 fw_ok_kept [of s1 s2] ld by simp
  show ?thesis
  proof (cases "ex \<and> op \<noteq> None")
    case False
    have "?good False h0 hr0 (if ex then s2 else s1)"
      using False d1 ok1 ld ok2 by (cases op) (auto simp: details_of_def split: option.split)
    moreover have "?run False h0 hr0 (if ex then s2 else s1)"
      using False by (cases op) (auto simp: validate_file_def ex op)
    ultimately show ?thesis
      by blast
  next
    case True
    then obtain f h isz where opS: "op = Some (f, h, isz)"
      by (cases op) auto
    obtain bs d pos where bs: "d_files (sdev dv s) (btldr_path K n) = Some bs" "header_ok A bs h isz"
      and o: "opened (sdev dv s) (btldr_path K n) f d" and r2: "reading rel dv E f bs d pos (world s2)"
      using ld opS by auto
    note run = validate_file_split [of A C K E n addr sz h0 hr0 s, unfolded ex op opS prod.case option.case]
    have fin: "?good r h' hr (btldr_fs_close_file E f t)"
      if "fw_ok K t" "\<exists>p. reading rel dv E f bs d p (world t)" "details_of rel A bs h0 hr0 h' hr"
        "r \<Longrightarrow> image_accepted A C K addr sz bs h'" for r h' hr t
      using btldr_fs_close_file_answer [OF _ o] that bs(1) by auto
    show ?thesis
    proof (cases "isz \<ge> sz")
      case large: True
      then have "?run False h0 hr0 (btldr_fs_close_file E f s2)"
        using True run by simp
      then show ?thesis
        using fin [OF ok2, of h0 hr0 False] r2 by (auto simp: details_of_def)
    next
      case False
      obtain v hr t where vo: "validate_opened A C K E f h addr sz hr0 s2 = Some ((v, h, hr), btldr_fs_close_file E f t)"
        and t: "fw_ok K t" "\<exists>pos. reading rel dv E f bs d pos (world t)"
          "details_of rel A bs h0 hr0 h hr" "v \<Longrightarrow> image_accepted A C K addr sz bs h"
        by (rule validate_opened_answer [OF plat ok2 r2 bs(2) False, where addr = addr and ?hr0.0 = hr0 and ?h0.0 = h0]) blast
      have "?run v h hr (btldr_fs_close_file E f t)"
        using True run False vo by simp
      then show ?thesis
        using fin [OF t] by blast
    qed
  qed
qed

subsection \<open>Checking a file: acceptance, or removal\<close>

text \<open>The device without the file.\<close>

definition file_gone :: "config \<Rightarrow> string \<Rightarrow> dev \<Rightarrow> dev" where
  "file_gone K n d = d\<lparr>d_files := (d_files d)(btldr_path K n := None)\<rparr>"

lemma file_gone_simps [simp]:
  "d_fds (file_gone K n d) = d_fds d" "d_area (file_gone K n d) = d_area d"
  "d_flash (file_gone K n d) = d_flash d"
  "d_files (file_gone K n d) = (d_files d)(btldr_path K n := None)"
  by (simp_all add: file_gone_def)

lemma file_gone_absent: "d_files d (btldr_path K n) = None \<Longrightarrow> file_gone K n d = d"
  by (simp add: file_gone_def fun_upd_idem)

text \<open>Removing a file: it is gone, except on an unreliable file system.\<close>

definition removed :: "bool \<Rightarrow> config \<Rightarrow> string \<Rightarrow> dev \<Rightarrow> dev \<Rightarrow> bool" where
  "removed rel K n d d' \<longleftrightarrow> d' = file_gone K n d \<or> \<not> rel \<and> d' = d"

lemma unlink_removes [spec]:
  assumes "fs_spec rel dv E"
  shows "removed rel K n (sdev dv s) (sdev dv (snd (btldr_fs_unlink_file K E n s)))"
proof -
  obtain r s' where u: "btldr_fs_unlink_file K E n s = (r, s')"
    by (metis prod.exhaust)
  show ?thesis
    using btldr_fs_unlink_file_answer [OF assms u] file_gone_absent [of "sdev dv s" K n]
    by (auto simp: u removed_def file_gone_def)
qed

lemma fw_ok_unlink [simp]: "fw_ok K' (snd (btldr_fs_unlink_file K E n s)) = fw_ok K' s"
  by (rule fw_ok_kept) (rule btldr_kept_calls(8) [OF prod.collapse [symmetric]])

definition file_accepted ::
  "bool \<Rightarrow> image_abi \<Rightarrow> 'c crypto \<Rightarrow> config \<Rightarrow> 'w os \<Rightarrow> bool \<Rightarrow> u32 \<Rightarrow> u32 \<Rightarrow> byte list \<Rightarrow> image_header \<Rightarrow> bool"
where
  "file_accepted rel A C K E b0 addr sz bs h \<longleftrightarrow>
     (if b0 then b0_accepted rel K E addr sz bs else image_accepted A C K addr sz bs h)"

lemma check_file_answer [spec]:
  assumes plat: "fw_platform rel dv E A C" and ok: "fw_ok K s"
  shows "\<exists>r h hr s'. check_file A C K E n addr sz b0 h0 hr0 s = Some ((r, h, hr), s')
    \<and> fw_ok K s'
    \<and> (if r then sdev dv s' = sdev dv s
         \<and> (\<exists>bs. d_files (sdev dv s) (btldr_path K n) = Some bs \<and> file_accepted rel A C K E b0 addr sz bs h
           \<and> details_of rel A bs h0 hr0 h hr)
       else removed rel K n (sdev dv s) (sdev dv s'))"
    (is "\<exists>r h hr s'. ?run r h hr s' \<and> ?good r h hr s'")
proof -
  note fs = fw_platformD(1) [OF plat]
  obtain ex s1 where ex: "btldr_fs_is_file_exist K E n s = (ex, s1)"
    by (metis prod.exhaust)
  have d1: "sdev dv s1 = sdev dv s" and ok1: "fw_ok K s1"
    and absent: "\<not> ex \<Longrightarrow> \<not> (rel \<and> d_files (sdev dv s) (btldr_path K n) \<noteq> None)"
    using btldr_fs_is_file_exist_answer [OF fs ex] ok fw_kept(1) [OF ex] by auto
  have gone: "?good False h' hr' (snd (btldr_fs_unlink_file K E n t))"
    if "fw_ok K t" "sdev dv t = sdev dv s" for h' hr' t
    using unlink_removes [OF fs, of K n t] that by simp
  show ?thesis
  proof (cases ex)
    case False
    then have "?run False h0 hr0 s1"
      by (simp add: check_file_def ex)
    moreover have "?good False h0 hr0 s1"
      using absent [OF False] d1 ok1 file_gone_absent [of "sdev dv s" K n] by (auto simp: removed_def)
    ultimately show ?thesis
      by blast
  next
    case ex': True
    obtain b s2 where b: "validate_b0_signature K E n addr sz s1 = (b, s2)"
      by (metis prod.exhaust)
    note b0a = validate_b0_signature_answer [OF plat ok1 b, unfolded d1]
    define t where "t = (if b0 then s2 else s1)"
    have t: "fw_ok K t" "sdev dv t = sdev dv s"
      using b0a ok1 d1 by (simp_all add: t_def)
    obtain r h hr s3 where v: "validate_file A C K E n addr sz h0 hr0 t = Some ((r, h, hr), s3)"
      and s3: "sdev dv s3 = sdev dv s" "fw_ok K s3"
      and acc: "case d_files (sdev dv s) (btldr_path K n) of None \<Rightarrow> \<not> r \<and> h = h0 \<and> hr = hr0
         | Some bs \<Rightarrow> details_of rel A bs h0 hr0 h hr \<and> (r \<longrightarrow> image_accepted A C K addr sz bs h)"
      using validate_file_answer [OF plat t(1), of n addr sz h0, unfolded t(2)] by blast
    show ?thesis
    proof (cases b0)
      case True
      show ?thesis
      proof (cases b)
        case False
        then have "?run False h0 hr0 (snd (btldr_fs_unlink_file K E n s2))"
          using True ex' by (simp add: check_file_def ex b)
        then show ?thesis
          using gone [of s2 h0 hr0] b0a by blast
      next
        case b': True
        then have "?run True h hr s3"
          using True ex' v by (simp add: check_file_def ex b t_def)
        moreover have "?good True h hr s3"
          using s3 acc b0a b' True unfolding file_accepted_def b0_accepted_def by (auto; blast)
        ultimately show ?thesis
          by blast
      qed
    next
      case False
      show ?thesis
      proof (cases r)
        case True
        then have "?run True h hr s3"
          using False ex' v by (simp add: check_file_def ex t_def)
        moreover have "?good True h hr s3"
          using s3 acc True False by (auto simp: file_accepted_def split: option.splits)
        ultimately show ?thesis
          by blast
      next
        case r: False
        then have "?run False h hr (snd (btldr_fs_unlink_file K E n s3))"
          using False ex' v by (simp add: check_file_def ex t_def)
        then show ?thesis
          using gone [of s3 h hr] s3 by blast
      qed
    qed
  qed
qed

subsection \<open>The firmware information in a file\<close>

text \<open>What the bytes of a file hold at an offset, and at the first offset that holds it.\<close>

definition fw_info_at :: "image_abi \<Rightarrow> config \<Rightarrow> byte list \<Rightarrow> int \<Rightarrow> fw_info option" where
  "fw_info_at A K bs off =
     (let info = fw_info_of A (bytes_at (nat off) (sizeof_fw_info A) bs) in
      if 0 \<le> off \<and> nat off + sizeof_fw_info A \<le> length bs
        \<and> take (CONFIG_FW_INFO_MAGIC_LEN K) (fi_magic info) = take (CONFIG_FW_INFO_MAGIC_LEN K) (FIRMWARE_INFO_MAGIC K)
      then Some info else None)"

fun fw_info_search :: "image_abi \<Rightarrow> config \<Rightarrow> byte list \<Rightarrow> int list \<Rightarrow> fw_info option" where
  "fw_info_search A K bs [] = None"
| "fw_info_search A K bs (off # offs) =
     (case fw_info_at A K bs off of Some info \<Rightarrow> Some info | None \<Rightarrow> fw_info_search A K bs offs)"

text \<open>An answer: one of the offsets holds it; the first that does, where every read succeeds.\<close>

definition fw_info_found ::
  "bool \<Rightarrow> image_abi \<Rightarrow> config \<Rightarrow> byte list \<Rightarrow> int list \<Rightarrow> fw_info option \<Rightarrow> bool"
where
  "fw_info_found rel A K bs offs r \<longleftrightarrow>
     (\<forall>info. r = Some info \<longrightarrow> (\<exists>off\<in>set offs. fw_info_at A K bs off = Some info))
     \<and> (rel \<longrightarrow> r = fw_info_search A K bs offs)"

lemma fw_info_check_in_file_answer [spec]:
  assumes "reading rel dv E f bs d pos (world s)" and "0 < sizeof_fw_info A"
    and run: "fw_info_check_in_file A K E f off s = (r, s')"
  shows "btldr_kept s s' \<and> (\<exists>pos. reading rel dv E f bs d pos (world s'))
    \<and> (r = None \<and> \<not> rel \<or> r = fw_info_at A K bs off)"
proof -
  let ?n = "sizeof_fw_info A"
  obtain rc s1 where sk: "on_world (fs_seek E f off FS_SEEK_SET) s = (rc, s1)"
    by (metis prod.exhaust)
  note r1 = reading_seek [OF assms(1) on_worldD(1) [OF sk], unfolded fs_seek_target_def fs_whence.case]
  note k1 = btldr_kept_calls(1) [OF sk]
  show ?thesis
  proof (cases "rc = 0")
    case False
    then have "r = None" "s' = s1"
      using run by (simp_all add: fw_info_check_in_file_def sk)
    moreover have "fw_info_at A K bs off = None" if rel
      using r1 False that by (auto simp: fw_info_at_def Let_def)
    ultimately show ?thesis
      using r1 k1 by auto
  next
    case True
    then have at: "0 \<le> off" "reading rel dv E f bs d (nat off) (world s1)"
      using r1 by auto
    obtain len data s2 where rd: "on_world (fs_read E f ?n) s1 = ((len, data), s2)"
      by (metis prod.exhaust)
    have r2: "(len = int (length data) \<and> data = bytes_at (nat off) ?n bs \<or> \<not> rel \<and> len < 0)
        \<and> (\<exists>pos. reading rel dv E f bs d pos (world s2))"
      using reading_read [OF at(2) on_worldD(1) [OF rd]] by blast
    have s': "s' = s2"
      and r: "r = (if len = int ?n \<and> take (CONFIG_FW_INFO_MAGIC_LEN K) (fi_magic (fw_info_of A data))
            = take (CONFIG_FW_INFO_MAGIC_LEN K) (FIRMWARE_INFO_MAGIC K) then Some (fw_info_of A data) else None)"
      using run True by (auto simp: fw_info_check_in_file_def sk rd Let_def split: if_splits)
    have "r = None \<and> \<not> rel \<or> r = fw_info_at A K bs off"
    proof (cases "len < 0")
      case True
      then show ?thesis
        using r2 r by auto
    next
      case False
      then have data: "len = int (length data)" "data = bytes_at (nat off) ?n bs"
        using r2 by auto
      have "len = int ?n \<longleftrightarrow> nat off + ?n \<le> length bs"
        using data assms(2) by (auto simp: min_def)
      then show ?thesis
        using r at(1) by (simp add: fw_info_at_def Let_def data(2))
    qed
    then show ?thesis
      using r2 s' k1 btldr_kept_trans [OF k1 btldr_kept_calls(1) [OF rd]] by blast
  qed
qed

lemma fw_info_find_loop_answer [spec]:
  assumes "reading rel dv E f bs d pos (world s)" and "0 < sizeof_fw_info A"
    and "fw_info_find_loop A K E f offs s = (r, s')"
  shows "btldr_kept s s' \<and> (\<exists>pos. reading rel dv E f bs d pos (world s')) \<and> fw_info_found rel A K bs offs r"
  using assms(1,3)
proof (induction offs arbitrary: s pos)
  case Nil
  then show ?case
    by (auto simp: fw_info_found_def)
next
  case (Cons off offs)
  obtain r1 s1 where c: "fw_info_check_in_file A K E f off s = (r1, s1)"
    by (metis prod.exhaust)
  obtain pos1 where a: "btldr_kept s s1" "reading rel dv E f bs d pos1 (world s1)"
      "r1 = None \<and> \<not> rel \<or> r1 = fw_info_at A K bs off"
    using fw_info_check_in_file_answer [OF Cons.prems(1) assms(2) c] by blast
  show ?case
  proof (cases r1)
    case None
    then have "fw_info_find_loop A K E f offs s1 = (r, s')"
      using Cons.prems(2) c by simp
    note ih = Cons.IH [OF a(2) this]
    then show ?thesis
      using a(1,3) None btldr_kept_trans [of s s1 s'] by (auto simp: fw_info_found_def)
  next
    case (Some info)
    then have "r = Some info" "s' = s1"
      using Cons.prems(2) c by simp_all
    moreover have "fw_info_at A K bs off = Some info"
      using a(3) Some by simp
    ultimately show ?thesis
      using a(1,2) by (auto simp: fw_info_found_def)
  qed
qed

lemma fw_info_find_in_file_answer [spec]:
  assumes plat: "fw_platform rel dv E A C" and run: "fw_info_find_in_file A K E n s = (r, s')"
  shows "sdev dv s' = sdev dv s \<and> btldr_kept s s'
    \<and> (case d_files (sdev dv s) (btldr_path K n) of
          None \<Rightarrow> r = None
        | Some bs \<Rightarrow> r = None \<and> \<not> rel \<or> fw_info_found rel A K bs (fw_info_allowed_offsets K) r)"
proof -
  note fs = fw_platformD(1) [OF plat]
  obtain f s1 where op: "btldr_fs_open_file K E n s = (f, s1)"
    by (metis prod.exhaust)
  note k1 = btldr_kept_calls(6) [OF op]
  show ?thesis
  proof (cases "filep f = None")
    case True
    then have "r = None" "s' = s1"
      using run op by (simp_all add: fw_info_find_in_file_def)
    then show ?thesis
      using open_file_failed [OF fs op True] k1 by (auto split: option.split)
  next
    case False
    obtain bs where o: "opened (sdev dv s) (btldr_path K n) f (sdev dv s1)"
        "d_files (sdev dv s) (btldr_path K n) = Some bs" "reading rel dv E f bs (sdev dv s1) 0 (world s1)"
      by (rule open_fileE [OF fs op False])
    obtain r2 s2 where lp: "fw_info_find_loop A K E f (fw_info_allowed_offsets K) s1 = (r2, s2)"
      by (metis prod.exhaust)
    have "0 < sizeof_fw_info A"
      using fw_platformD(4) [OF plat] by (simp add: abi_ok_def)
    then obtain pos where l: "btldr_kept s1 s2" "reading rel dv E f bs (sdev dv s1) pos (world s2)"
        "fw_info_found rel A K bs (fw_info_allowed_offsets K) r2"
      using fw_info_find_loop_answer [OF o(3) _ lp] by blast
    have "r = r2" "s' = btldr_fs_close_file E f s2"
      using run op lp False by (simp_all add: fw_info_find_in_file_def)
    then show ?thesis
      using btldr_fs_close_file_answer [OF l(2) o(1)] o(2) l(3)
        btldr_kept_trans [OF btldr_kept_trans [OF k1 l(1)] btldr_kept_calls(7)] by simp
  qed
qed

subsection \<open>An update on the device in memory\<close>

text \<open>
  Four partitions of 64 bytes, and a file with an application for the primary slot: header, code
  with reset vector and firmware information, and the TLVs that sign it.
\<close>

definition update_image :: "byte list" where
  "update_image =
     [0x3D, 8, 0, 12, 0, 2, 0, 0,  0, 0, 0, 0,  0xC4, 0, 0, 0,  0xF1, 3, 0xF0, 0,
      7, 15, 0x10, 2, 251, 20, 0x01, 2, 23, 2, 0x22, 3, 251, 20, 0]"

definition demo_area :: "fa_id_t \<Rightarrow> flash_area option" where
  "demo_area i = (if 1 \<le> i \<and> i \<le> 4 then Some \<lparr>fa_id = i, fa_off = of_nat (i * 64), fa_size = 64\<rparr> else None)"

text \<open>What the primary slot holds before the update: an image of version 1.\<close>

definition old_image :: "byte list" where
  "old_image = [0x3D, 8, 0, 12, 0, 1, 0, 0,  0, 0, 0, 0,  0xC4, 0, 0, 0,  0xF1, 2, 0xF0, 0] @ replicate 44 0xFF"

definition update_ram :: ram where
  "update_ram =
     \<lparr>r_dev = \<lparr>d_files = [''/m/ap'' \<mapsto> update_image], d_fds = Map.empty, d_area = demo_area,
               d_flash = (\<lambda>i. if 1 \<le> i \<and> i \<le> 4 then old_image else [])\<rparr>,
      r_next = 0\<rparr>"

definition update_fw :: "ram fw" where
  "update_fw = \<lparr>world = update_ram, g_btldr_fs_mutex = 0, g_btldr_fs_abs_path = [],
     g_btldr_fs_dir_entry = FS_DIR_ENTRY_FILE, g_shared_img_buf = replicate 64 0,
     validate_tmp_buf = replicate 256 0\<rparr>"

lemma demo_fw_platform: "fw_platform True ram_view (ram_os demo_abi demo_config) demo_abi demo_crypto"
  by (simp add: fw_platform_def ram_fs_spec ram_flash_spec ram_query_spec demo_abi_ok demo_sha_streams)

lemma update_fw_ok: "fw_ok demo_config update_fw"
  by (simp add: fw_ok_def update_fw_def demo_config_def)

lemma update_view: "ram_view update_ram = r_dev update_ram"
  by (rule dev.equality)
    (auto simp: update_ram_def ram_view_def fun_eq_iff demo_area_def old_image_def update_image_def split: option.split)

lemma update_file: "d_files (sdev ram_view update_fw) (btldr_path demo_config ''ap'') = Some update_image"
  by (simp add: update_fw_def update_view) (simp add: update_ram_def btldr_path_def demo_config_def)

lemmas fw_eval =
  validate_file_def open_file_and_load_image_header_def load_image_header_from_file_def
  btldr_fs_is_file_exist_def btldr_fs_open_file_def btldr_fs_get_file_size_def btldr_fs_close_file_def
  btldr_run on_world_opt_def MCUBOOT_HOOK_TMPBUF_SZ_def ENOENT_def
  update_fw_def update_ram_def update_image_def demo_area_def image_header_zero_def
  fw_img_hw_rev_find_in_file_def find_tlvs_in_file_def hw_rev_reset_def hw_rev_zero_def
  FW_INFO_HW_REV_NAME_MAX_LEN_def u32_from_bytes_le_def boot_u32_safe_add_def u32_from_bytes_be_4
  validate_eval

subsection \<open>Properties\<close>

text \<open>
  C17. The check of the signature for the immutable bootloader changes no file, handle or flash area
  and passes the file to \<open>fs_close\<close> on every path. It accepts only a file that exists, for a destination
  of the size of the shared buffer, when the library function of the immutable bootloader accepts the
  shared buffer at an address inside the destination. That buffer then consists of the whole file
  followed by what the buffer held there before; only if a seek to the end of a file can fail on the
  platform may it also be the buffer from before the call, with nothing of the file in it.
\<close>

theorem validate_b0_signature_sound:
  assumes "fw_platform rel dv E A C" and "fw_ok K s"
    and "validate_b0_signature K E n addr sz s = (r, s')"
  shows "sdev dv s' = sdev dv s \<and> fw_ok K s'
    \<and> (r \<longrightarrow> (\<exists>bs. d_files (sdev dv s) (btldr_path K n) = Some bs
          \<and> b0_checked rel K E addr sz bs (g_shared_img_buf s) (g_shared_img_buf s')))"
  by (rule validate_b0_signature_answer [OF assms])

theorem validate_b0_signature_sound_witness:
  "b0_accepted True demo_config (ram_os demo_abi demo_config) 0xC0 64 update_image"
proof -
  have run: "fst (validate_b0_signature demo_config (ram_os demo_abi demo_config) ''ap'' 0xC0 64 update_fw)"
    by (simp add: validate_b0_signature_def fw_eval sum_list_replicate)
  then show ?thesis
    using update_file validate_b0_signature_sound [OF demo_fw_platform update_fw_ok prod.collapse [symmetric],
        of "''ap''" "0xC0" 64] run
    by (auto simp: b0_accepted_def)
qed

text \<open>
  C14. Checking a file returns, and decides between two outcomes. For an accepted file, which exists,
  the device is unchanged, and what was asked for holds: of an image for MCUboot, that its contents fit the
  destination, start inside it and are authentic; of an image for the immutable bootloader, that its
  library function accepted the shared buffer, which starts with the contents of the file on a
  reliable platform, and may be one left from an earlier file where the size of this one could not
  be read (\<open>b0_accepted\<close>). The header and the hardware revision that are handed back are those of the file, or were
  not read. For a file that is rejected one attempt is made to remove it: nothing else changes, and it
  is gone unless removing it failed, which a reliable file system excludes.
\<close>

theorem check_file_accepts_or_removes:
  assumes "fw_platform rel dv E A C" and "fw_ok K s"
  shows "\<exists>r h hr s'. check_file A C K E n addr sz b0 h0 hr0 s = Some ((r, h, hr), s')
    \<and> fw_ok K s'
    \<and> (if r then sdev dv s' = sdev dv s
         \<and> (\<exists>bs. d_files (sdev dv s) (btldr_path K n) = Some bs \<and> file_accepted rel A C K E b0 addr sz bs h
           \<and> details_of rel A bs h0 hr0 h hr)
       else removed rel K n (sdev dv s) (sdev dv s'))"
  by (rule check_file_answer [OF assms])

theorem check_file_accepts_or_removes_witness:
  "\<exists>h. image_accepted demo_abi demo_crypto demo_config 0xC0 64 update_image h"
proof -
  have run: "\<exists>h hr s'. check_file demo_abi demo_crypto demo_config (ram_os demo_abi demo_config) ''ap'' 0xC0 64 False
      image_header_zero hw_rev_zero update_fw = Some ((True, h, hr), s')"
    by (simp add: check_file_def fw_eval)
  then show ?thesis
    using update_file check_file_accepts_or_removes [OF demo_fw_platform update_fw_ok,
        of "''ap''" "0xC0" 64 False image_header_zero hw_rev_zero] run
    by (auto simp: file_accepted_def)
qed

text \<open>
  C23. The search for the firmware information changes nothing and closes the file; what it reports
  stands at one of the allowed offsets of the file behind its magic, and on a reliable file system
  it is the one at the first such offset, if any.
\<close>

theorem fw_info_find_in_file_first:
  assumes "fw_platform rel dv E A C" and "fw_info_find_in_file A K E n s = (r, s')"
  shows "sdev dv s' = sdev dv s
    \<and> (case d_files (sdev dv s) (btldr_path K n) of
          None \<Rightarrow> r = None
        | Some bs \<Rightarrow> r = None \<and> \<not> rel \<or> fw_info_found rel A K bs (fw_info_allowed_offsets K) r)"
  using fw_info_find_in_file_answer [OF assms] by blast

theorem fw_info_find_in_file_first_witness:
  "fst (fw_info_find_in_file demo_abi demo_config (ram_os demo_abi demo_config) ''ap'' update_fw)
     = Some \<lparr>fi_magic = [0xF1], fi_version = 3, fi_address = 0xF0\<rparr>"
proof -
  have "fw_info_search demo_abi demo_config update_image (fw_info_allowed_offsets demo_config)
      = Some \<lparr>fi_magic = [0xF1], fi_version = 3, fi_address = 0xF0\<rparr>"
    by (simp add: fw_info_at_def demo_abi_def demo_config_def update_image_def bytes_at_def byte_n_def)
  then show ?thesis
    using update_file fw_info_find_in_file_first [OF demo_fw_platform prod.collapse [symmetric],
        of demo_config "''ap''" update_fw]
    by (simp add: fw_info_found_def)
qed

definition version_key :: "config \<Rightarrow> image_version \<Rightarrow> nat \<times> nat \<times> nat \<times> nat" where
  "version_key K v = (unat (iv_major v), unat (iv_minor v), unat (iv_revision v),
     if mcuboot_version_cmp_use_build_number K then unat (iv_build_num v) else 0)"

text \<open>
  C38. Comparing versions gives the order of the tuples of major, minor, revision and, where it
  is configured, build number; so it is antisymmetric, and transitive where it says newer or equal.
\<close>

theorem boot_version_cmp_lexicographic:
  "boot_version_cmp K v1 v2 =
     (if version_key K v2 < version_key K v1 then 1 else if version_key K v1 < version_key K v2 then - 1 else 0)
   \<and> boot_version_cmp K v2 v1 = - boot_version_cmp K v1 v2"
  by (auto simp: boot_version_cmp_def version_key_def word_less_nat_alt)

text \<open>
  C35. The prevention of downgrades by image version does not depend on the version of the image in
  the destination: once its header was loaded, an image for another slot than \<open>s0\<close> and \<open>s1\<close> always
  passes, and one for these passes when it is not older than the running MCUboot.
\<close>

theorem check_downgrade_prevention_ignores_destination:
  "fst (check_downgrade_prevention K E i h s) =
     (fst (fst (load_image_header E i image_header_zero (world s)))
      \<and> (if i = PM_ID_s0 K \<or> i = PM_ID_s1 K
         then 0 \<le> boot_version_cmp K (ih_ver h) (mcuboot_s0_s1_image_version K) else True))"
proof -
  have "boot_version_cmp K (ih_ver h) (ih_ver h) = 0"
    by (simp add: boot_version_cmp_def)
  then show ?thesis
    by (auto simp: check_downgrade_prevention_def on_world_def Let_def split: prod.split if_splits)
qed

end
