(* ===== verification/Fw_Update.thy ===== *)
theory Fw_Update
  imports Fw_Check Img_Op "HOL-Library.Sublist"
begin

section \<open>Installing updates (second half of \<open>mcuboot_fw_update.c\<close>)\<close>

text \<open>
  \<open>check_file_and_update\<close> installs a file that passes all checks into a partition and removes it;
  \<open>check_update_for_mcuboot\<close> checks an update of the MCUboot slot that is running, which only the
  other slot can install; \<open>check_updates_on_fs\<close> goes through the four update files, and
  \<open>mcuboot_fw_update\<close> mounts the file system around it and reboots when something was found.

  The file system is mounted from \<open>mcuboot_fw_update\<close> on; a reboot does not return, which is an
  exit value of its own.

  The theorems: all of it returns; what happens to the device is a sequence of three kinds of steps
  (removing an update file, installing an accepted file, invalidating \<open>s0\<close>); so the slot that is
  running is never written by a copy, other partitions and files are not touched, and a partition
  that changed holds the image of an accepted file.
\<close>

datatype 's exit_t = Returned 's | Rebooted 's

definition reboot_cold :: "'w os \<Rightarrow> ('w, 'x) btldr_scheme \<Rightarrow> ('w, 'x) btldr_scheme exit_t" where
  "reboot_cold E s =
     (let s = s\<lparr>world := k_msleep E 500 (world s)\<rparr>
      in Rebooted (s\<lparr>world := sys_reboot_cold E (world s)\<rparr>))"

definition img_invalidate :: "'w os \<Rightarrow> fa_id_t \<Rightarrow> 'w fw \<Rightarrow> bool \<times> 'w fw" where
  "img_invalidate E i s =
     (case on_world (flash_area_open E i) s of ((rc, fa), s) \<Rightarrow>
      if rc \<noteq> 0 then (False, s)
      else (case fw_info_find E (fa_off fa) (g_shared_img_buf s) (world s) of
        None \<Rightarrow> (False, s\<lparr>world := flash_area_close E fa (world s)\<rparr>)
      | Some (p_fw_info, _) \<Rightarrow>
          let s = s\<lparr>world := fw_info_invalidate E p_fw_info (world s)\<rparr>
          in (True, s\<lparr>world := flash_area_close E fa (world s)\<rparr>)))"

subsection \<open>One file\<close>

definition check_file_and_update ::
  "image_abi \<Rightarrow> 'c crypto \<Rightarrow> config \<Rightarrow> 'w os \<Rightarrow> string \<Rightarrow> fa_id_t \<Rightarrow> fw_image_hw_rev_t \<Rightarrow> bool
   \<Rightarrow> 'w fw \<Rightarrow> (bool \<times> 'w fw) option"
where
  "check_file_and_update A C K E file_name dst_fa_id p_hw_rev flag_validate_b0_signature s =
     (case on_world (get_flash_area_address_and_size E dst_fa_id) s of ((ok, dst_fa_addr, dst_fa_size), s) \<Rightarrow>
      if \<not> ok then Some (False, s)
      else do {
        ((ok, file_img_hdr, hw_rev), s) \<leftarrow> check_file A C K E file_name dst_fa_addr dst_fa_size
            flag_validate_b0_signature image_header_zero hw_rev_zero s;
        if \<not> ok then Some (False, s)
        else (case fw_info_find_in_file A K E file_name s of
          (None, s) \<Rightarrow> Some (False, snd (btldr_fs_unlink_file K E file_name s))
        | (Some file_fw_info, s) \<Rightarrow>
          (case fw_info_find E dst_fa_addr (g_shared_img_buf s) (world s) of
            None \<Rightarrow> Some (False, snd (btldr_fs_unlink_file K E file_name s))
          | Some (_, dst_fw_info) \<Rightarrow>
            if hw_rev_name p_hw_rev ! 0 \<noteq> 0
              \<and> c_string (hw_rev_name p_hw_rev) \<noteq> c_string (hw_rev_name hw_rev)
            then Some (False, snd (btldr_fs_unlink_file K E file_name s))
            else if fi_version dst_fw_info > fi_version file_fw_info
            then Some (False, snd (btldr_fs_unlink_file K E file_name s))
            else (case (if mcuboot_downgrade_prevention K
                        then check_downgrade_prevention K E dst_fa_id file_img_hdr s else (True, s)) of (ok, s) \<Rightarrow>
              if \<not> ok then Some (False, snd (btldr_fs_unlink_file K E file_name s))
              else (case btldr_fs_open_file K E file_name s of (file_t, s) \<Rightarrow>
                if filep file_t = None then Some (False, snd (btldr_fs_unlink_file K E file_name s))
                else (case on_world (mcuboot_img_op_copy E dst_fa_id file_t) s of (_, s) \<Rightarrow>
                  Some (True, snd (btldr_fs_unlink_file K E file_name (btldr_fs_close_file E file_t s))))))))
      })"

definition check_update_for_mcuboot ::
  "image_abi \<Rightarrow> 'c crypto \<Rightarrow> config \<Rightarrow> 'w os \<Rightarrow> string \<Rightarrow> fa_id_t \<Rightarrow> fw_image_hw_rev_t
   \<Rightarrow> 'w fw \<Rightarrow> (bool \<times> 'w fw) option"
where
  "check_update_for_mcuboot A C K E file_name dst_fa_id p_hw_rev s =
     (case btldr_fs_is_file_exist K E file_name s of (ex, s) \<Rightarrow>
      if \<not> ex then Some (False, s)
      else (case on_world (get_flash_area_address_and_size E dst_fa_id) s of ((ok, dst_fa_addr, dst_fa_size), s) \<Rightarrow>
      if \<not> ok then Some (False, s)
      else (case validate_b0_signature K E file_name dst_fa_addr dst_fa_size s of (valid, s) \<Rightarrow>
      if \<not> valid then Some (False, snd (btldr_fs_unlink_file K E file_name s))
      else do {
        ((_, _, hw_rev), s) \<leftarrow> validate_file A C K E file_name dst_fa_addr dst_fa_size image_header_zero hw_rev_zero s;
        (case fw_info_find_in_file A K E file_name s of
          (None, s) \<Rightarrow> Some (False, snd (btldr_fs_unlink_file K E file_name s))
        | (Some _, s) \<Rightarrow>
            if hw_rev_name p_hw_rev ! 0 \<noteq> 0
              \<and> c_string (hw_rev_name p_hw_rev) \<noteq> c_string (hw_rev_name hw_rev)
            then Some (False, snd (btldr_fs_unlink_file K E file_name s))
            else Some (True, s))
      })))"

subsection \<open>All files\<close>

definition check_updates_on_fs ::
  "image_abi \<Rightarrow> 'c crypto \<Rightarrow> config \<Rightarrow> 'w os \<Rightarrow> slot_id_t \<Rightarrow> fw_image_hw_rev_t \<Rightarrow> 'w fw \<Rightarrow> (bool \<times> 'w fw) option"
where
  "check_updates_on_fs A C K E mcuboot_active_slot p_hw_rev s = do {
     (flag_updates_found, reboot, s) \<leftarrow>
       (if mcuboot_active_slot = 0 then do {
          (r, s) \<leftarrow> check_file_and_update A C K E (RUUVI_FW_MCUBOOT1_FILE_NAME K) (PM_ID_s1 K) p_hw_rev True s;
          (u, s) \<leftarrow> check_update_for_mcuboot A C K E (RUUVI_FW_MCUBOOT0_FILE_NAME K) (PM_ID_s0 K) p_hw_rev s;
          if u then Some (r, True, snd (img_invalidate E (PM_ID_s0 K) s)) else Some (r, False, s)
        } else do {
          (r, s) \<leftarrow> check_file_and_update A C K E (RUUVI_FW_MCUBOOT0_FILE_NAME K) (PM_ID_s0 K) p_hw_rev True s;
          (u, s) \<leftarrow> check_update_for_mcuboot A C K E (RUUVI_FW_MCUBOOT1_FILE_NAME K) (PM_ID_s1 K) p_hw_rev s;
          if u then Some (r, True, s) else Some (r, False, s)
        });
     if reboot then Some (True, s)
     else do {
       (r, s) \<leftarrow> check_file_and_update A C K E (RUUVI_FW_LOADER_FILE_NAME K) (PM_ID_mcuboot_secondary K) p_hw_rev False s;
       let flag_updates_found = (if r then True else flag_updates_found);
       (r, s) \<leftarrow> check_file_and_update A C K E (RUUVI_FW_APP_FILE_NAME K) (PM_ID_mcuboot_primary K) p_hw_rev False s;
       let flag_updates_found = (if r then True else flag_updates_found);
       Some (flag_updates_found, s)
     }
   }"

definition mcuboot_fw_update ::
  "image_abi \<Rightarrow> 'c crypto \<Rightarrow> config \<Rightarrow> 'w os \<Rightarrow> slot_id_t \<Rightarrow> fw_image_hw_rev_t \<Rightarrow> 'w fw \<Rightarrow> 'w fw exit_t option"
where
  "mcuboot_fw_update A C K E mcuboot_active_slot p_hw_rev s =
     (case btldr_fs_mount K E s of (mounted, s) \<Rightarrow>
      if mounted then do {
        (found, s) \<leftarrow> check_updates_on_fs A C K E mcuboot_active_slot p_hw_rev s;
        if found then Some (reboot_cold E s)
        else Some (Returned (btldr_fs_unmount K E s))
      }
      else Some (Returned s))"

subsection \<open>What copying a file into a partition leaves behind\<close>

lemma opened_set_flash: "opened d p f d' \<Longrightarrow> opened (set_flash i fl d) p f (set_flash i fl d')"
  by (auto simp: opened_def set_flash_def)

lemma copy_and_close [spec]:
  assumes fs: "fs_spec rel dv E" and fl: "flash_spec rel dv E"
    and op: "opened d p f (sdev dv s)" and bs: "d_files d p = Some bs" and area: "d_area d i \<noteq> None"
    and run: "on_world (mcuboot_img_op_copy E i f) s = (ok, s')"
  shows "\<exists>fl. copied rel dv E d i bs fl \<and> sdev dv (btldr_fs_close_file E f s') = set_flash i fl d"
proof -
  let ?d1 = "sdev dv s"
  have at: "file_at ?d1 f = Some (bs, 0)"
    by (rule opened_at [OF op bs])
  have same: "d_flash d = d_flash ?d1" "d_area ?d1 = d_area d"
    using opened_frame [OF op] by simp_all
  obtain pos fl where fl: "sdev dv s' = set_pos f pos (set_flash i fl ?d1)" "copied rel dv E ?d1 i bs fl"
    using copy_outcome [OF fs fl at on_worldD(1) [OF run]] area same(2) by auto
  have rd: "reading rel dv E f bs (set_flash i fl ?d1) pos (world s')"
    using fs fl(1) at by (simp add: reading_def)
  have "sdev dv (btldr_fs_close_file E f s') = set_flash i fl d"
    by (rule btldr_fs_close_file_answer [OF rd opened_set_flash [OF op]])
  moreover have "copied rel dv E d i bs fl"
    by (rule copied_same [OF fl(2)]) (simp add: same(1))
  ultimately show ?thesis
    by blast
qed

subsection \<open>When an update is installed\<close>

text \<open>
  What has been established about a file with contents \<open>bs\<close> before it is copied into the area \<open>i\<close> of
  a device \<open>d\<close>: it carries the signature asked for; it is for this hardware; its firmware information
  is not older than that of the image in the destination; and, where downgrades are prevented by
  image version, an MCUboot image is not older than the running one.
\<close>

definition hw_matches :: "bool \<Rightarrow> image_abi \<Rightarrow> fw_image_hw_rev_t \<Rightarrow> byte list \<Rightarrow> bool" where
  "hw_matches rel A hr bs \<longleftrightarrow>
     hw_rev_name hr ! 0 = 0
     \<or> (\<exists>hr'. hw_rev_read rel A bs hr' \<and> c_string (hw_rev_name hr') = c_string (hw_rev_name hr))"

definition install_ok ::
  "bool \<Rightarrow> ('w \<Rightarrow> dev) \<Rightarrow> image_abi \<Rightarrow> 'c crypto \<Rightarrow> config \<Rightarrow> 'w os \<Rightarrow> fw_image_hw_rev_t \<Rightarrow> bool \<Rightarrow> fa_id_t
   \<Rightarrow> byte list \<Rightarrow> dev \<Rightarrow> bool"
where
  "install_ok rel dv A C K E hr b0 i bs d \<longleftrightarrow>
     (\<exists>fa h info. d_area d i = Some fa \<and> file_accepted rel A C K E b0 (fa_off fa) (fa_size fa) bs h
        \<and> hw_matches rel A hr bs
        \<and> fw_info_found rel A K bs (fw_info_allowed_offsets K) (Some info)
        \<and> (\<exists>w buf p dst. dv w = d \<and> fw_info_find E (fa_off fa) buf w = Some (p, dst)
              \<and> fi_version dst \<le> fi_version info)
        \<and> (mcuboot_downgrade_prevention K \<and> (i = PM_ID_s0 K \<or> i = PM_ID_s1 K)
             \<longrightarrow> 0 \<le> boot_version_cmp K (ih_ver h) (mcuboot_s0_s1_image_version K)))"

lemma c_string_zero: "c_string (hw_rev_name hw_rev_zero) = []"
  by (simp add: c_string_def hw_rev_zero_def FW_INFO_HW_REV_NAME_MAX_LEN_def)

lemma c_string_nonempty: "xs ! 0 \<noteq> 0 \<Longrightarrow> xs \<noteq> [] \<Longrightarrow> c_string xs \<noteq> []"
  by (cases xs) (simp_all add: c_string_def)

lemma hw_check:
  assumes "details_of rel A bs h0 hw_rev_zero h hr'" and "hw_rev_wf hr"
    and "\<not> (hw_rev_name hr ! 0 \<noteq> 0 \<and> c_string (hw_rev_name hr) \<noteq> c_string (hw_rev_name hr'))"
  shows "hw_matches rel A hr bs"
proof (cases "hw_rev_name hr ! 0 = 0")
  case False
  then have "c_string (hw_rev_name hr) \<noteq> []"
    using assms(2) by (intro c_string_nonempty) (auto simp: hw_rev_wf_def)
  then have "hr' \<noteq> hw_rev_zero"
    using assms(3) False c_string_zero by auto
  then have "hw_rev_read rel A bs hr'"
    using assms(1) by (auto simp: details_of_def)
  then show ?thesis
    using assms(3) False by (auto simp: hw_matches_def)
qed (simp add: hw_matches_def)

subsection \<open>One file: what is done to the device\<close>

lemma check_downgrade_prevention_answer [spec]:
  assumes plat: "fw_platform rel dv E A C"
    and run: "(if mcuboot_downgrade_prevention K then check_downgrade_prevention K E i h s else (True, s)) = (r, s')"
  shows "sdev dv s' = sdev dv s \<and> btldr_kept s s'
    \<and> (r \<longrightarrow> mcuboot_downgrade_prevention K \<and> (i = PM_ID_s0 K \<or> i = PM_ID_s1 K)
         \<longrightarrow> 0 \<le> boot_version_cmp K (ih_ver h) (mcuboot_s0_s1_image_version K))"
proof -
  obtain ok dh s1 where ld: "on_world (load_image_header E i image_header_zero) s = ((ok, dh), s1)"
    by (metis prod.exhaust)
  have "sdev dv s1 = sdev dv s" "btldr_kept s s1"
    using load_image_header_frame [OF fw_platformD(2,3) [OF plat] on_worldD(1) [OF ld]] btldr_kept_calls(1) [OF ld]
    by simp_all
  then show ?thesis
    using run by (auto simp: check_downgrade_prevention_def ld Let_def split: if_splits)
qed

text \<open>The end of \<open>check_file_and_update\<close>, where the file is copied and removed.\<close>

definition install_file ::
  "config \<Rightarrow> 'w os \<Rightarrow> string \<Rightarrow> fa_id_t \<Rightarrow> 'w fw \<Rightarrow> bool \<times> 'w fw"
where
  "install_file K E n i s =
     (case btldr_fs_open_file K E n s of (f, s) \<Rightarrow>
      if filep f = None then (False, snd (btldr_fs_unlink_file K E n s))
      else (case on_world (mcuboot_img_op_copy E i f) s of (_, s) \<Rightarrow>
        (True, snd (btldr_fs_unlink_file K E n (btldr_fs_close_file E f s)))))"

text \<open>The part before it: the checks, with the file removed where one of them fails.\<close>

definition checks_before_install ::
  "image_abi \<Rightarrow> 'c crypto \<Rightarrow> config \<Rightarrow> 'w os \<Rightarrow> string \<Rightarrow> fa_id_t \<Rightarrow> fw_image_hw_rev_t \<Rightarrow> bool
   \<Rightarrow> 'w fw \<Rightarrow> (bool \<times> 'w fw) option"
where
  "checks_before_install A C K E n i p_hw_rev b0 s =
     (case on_world (get_flash_area_address_and_size E i) s of ((ok, addr, sz), s) \<Rightarrow>
      if \<not> ok then Some (False, s)
      else do {
        ((ok, h, hw_rev), s) \<leftarrow> check_file A C K E n addr sz b0 image_header_zero hw_rev_zero s;
        if \<not> ok then Some (False, s)
        else (case fw_info_find_in_file A K E n s of
          (None, s) \<Rightarrow> Some (False, snd (btldr_fs_unlink_file K E n s))
        | (Some file_fw_info, s) \<Rightarrow>
          (case fw_info_find E addr (g_shared_img_buf s) (world s) of
            None \<Rightarrow> Some (False, snd (btldr_fs_unlink_file K E n s))
          | Some (_, dst_fw_info) \<Rightarrow>
            if hw_rev_name p_hw_rev ! 0 \<noteq> 0 \<and> c_string (hw_rev_name p_hw_rev) \<noteq> c_string (hw_rev_name hw_rev)
            then Some (False, snd (btldr_fs_unlink_file K E n s))
            else if fi_version dst_fw_info > fi_version file_fw_info
            then Some (False, snd (btldr_fs_unlink_file K E n s))
            else (case (if mcuboot_downgrade_prevention K then check_downgrade_prevention K E i h s else (True, s)) of (ok, s) \<Rightarrow>
              if \<not> ok then Some (False, snd (btldr_fs_unlink_file K E n s)) else Some (True, s))))
      })"

lemma check_file_and_update_split:
  "check_file_and_update A C K E n i hr b0 s = do {
     (ok, s) \<leftarrow> checks_before_install A C K E n i hr b0 s;
     Some (if ok then install_file K E n i s else (False, s))
   }"
proof -
  have inst: "(case btldr_fs_open_file K E n s of (f, s) \<Rightarrow>
      if filep f = None then Some (False, snd (btldr_fs_unlink_file K E n s))
      else (case on_world (mcuboot_img_op_copy E i f) s of (_, s) \<Rightarrow>
        Some (True, snd (btldr_fs_unlink_file K E n (btldr_fs_close_file E f s))))) = Some (install_file K E n i s)" for s
    by (cases "btldr_fs_open_file K E n s") (simp add: install_file_def split: prod.split)
  show ?thesis
    unfolding check_file_and_update_def checks_before_install_def inst
    by (auto split: prod.split option.split bind_splits)
qed

lemma install_file_answer:
  assumes plat: "fw_platform rel dv E A C" and ok: "fw_ok K s"
    and bs: "d_files (sdev dv s) (btldr_path K n) = Some bs" and area: "d_area (sdev dv s) i \<noteq> None"
    and run: "install_file K E n i s = (r, s')"
  shows "fw_ok K s' \<and> (if r then \<exists>img. copied rel dv E (sdev dv s) i bs img
      \<and> removed rel K n (set_flash i img (sdev dv s)) (sdev dv s') else removed rel K n (sdev dv s) (sdev dv s'))"
proof -
  note fs = fw_platformD(1) [OF plat] and fl = fw_platformD(2) [OF plat]
  obtain f s1 where op: "btldr_fs_open_file K E n s = (f, s1)"
    by (metis prod.exhaust)
  have ok1: "fw_ok K s1"
    using ok fw_kept(2) [OF op] by simp
  show ?thesis
  proof (cases "filep f = None")
    case True
    have "sdev dv s1 = sdev dv s"
      by (rule open_file_failed [OF fs op True])
    then show ?thesis
      using run True ok1 unlink_removes [OF fs, of K n s1] by (auto simp: install_file_def op)
  next
    case False
    obtain bs' where o: "opened (sdev dv s) (btldr_path K n) f (sdev dv s1)"
      by (rule open_fileE [OF fs op False])
    obtain cp s2 where cp: "on_world (mcuboot_img_op_copy E i f) s1 = (cp, s2)"
      by (metis prod.exhaust)
    obtain img where img: "copied rel dv E (sdev dv s) i bs img"
        "sdev dv (btldr_fs_close_file E f s2) = set_flash i img (sdev dv s)"
      using copy_and_close [OF fs fl o bs area cp] by blast
    have "removed rel K n (set_flash i img (sdev dv s)) (sdev dv (snd (btldr_fs_unlink_file K E n (btldr_fs_close_file E f s2))))"
      using unlink_removes [OF fs, of K n "btldr_fs_close_file E f s2"] img(2) by simp
    then show ?thesis
      using run False ok1 img(1) fw_kept(6) [OF cp] by (auto simp: install_file_def op cp)
  qed
qed

lemma checks_before_install_answer:
  assumes plat: "fw_platform rel dv E A C" and ok: "fw_ok K s" and wf: "hw_rev_wf hr"
  shows "\<exists>r s'. checks_before_install A C K E n i hr b0 s = Some (r, s') \<and> fw_ok K s'
    \<and> (if r then sdev dv s' = sdev dv s \<and> (\<exists>bs. d_files (sdev dv s) (btldr_path K n) = Some bs
            \<and> install_ok rel dv A C K E hr b0 i bs (sdev dv s)) \<and> d_area (sdev dv s) i \<noteq> None
       else removed rel K n (sdev dv s) (sdev dv s')
            \<or> sdev dv s' = sdev dv s \<and> \<not> (rel \<and> d_area (sdev dv s) i \<noteq> None))"
    (is "\<exists>r s'. ?run = Some (r, s') \<and> ?good r s'")
proof -
  note fs = fw_platformD(1) [OF plat] and fl = fw_platformD(2) [OF plat]
  have gone: "?good False (snd (btldr_fs_unlink_file K E n t))" if "fw_ok K t" "sdev dv t = sdev dv s" for t
    using unlink_removes [OF fs, of K n t] that by simp
  obtain okA addr sz s1 where ar: "on_world (get_flash_area_address_and_size E i) s = ((okA, addr, sz), s1)"
    by (metis prod.exhaust)
  have d1: "sdev dv s1 = sdev dv s" and ok1: "fw_ok K s1"
    and area: "okA \<Longrightarrow> \<exists>fa. d_area (sdev dv s) i = Some fa \<and> addr = fa_off fa \<and> sz = fa_size fa"
    and no_area: "\<not> okA \<Longrightarrow> \<not> (rel \<and> d_area (sdev dv s) i \<noteq> None)"
    using get_flash_area_address_and_size_answer [OF fl on_worldD(1) [OF ar]] ok fw_kept(6) [OF ar] by auto
  obtain r h hr' s2 where ch: "check_file A C K E n addr sz b0 image_header_zero hw_rev_zero s1
      = Some ((r, h, hr'), s2)"
    and ok2: "fw_ok K s2"
    and res: "if r then sdev dv s2 = sdev dv s
       \<and> (\<exists>bs. d_files (sdev dv s) (btldr_path K n) = Some bs \<and> file_accepted rel A C K E b0 addr sz bs h
         \<and> details_of rel A bs image_header_zero hw_rev_zero h hr')
     else removed rel K n (sdev dv s) (sdev dv s2)"
    using check_file_answer [OF plat ok1, unfolded d1] by blast
  obtain fi s3 where fi: "fw_info_find_in_file A K E n s2 = (fi, s3)"
    by (metis prod.exhaust)
  obtain ok4 s4 where dg: "(if mcuboot_downgrade_prevention K then check_downgrade_prevention K E i h s3
      else (True, s3)) = (ok4, s4)"
    by (metis prod.exhaust)
  let ?dst = "fw_info_find E addr (g_shared_img_buf s3) (world s3)"
  let ?hw = "hw_rev_name hr ! 0 \<noteq> 0 \<and> c_string (hw_rev_name hr) \<noteq> c_string (hw_rev_name hr')"
  define newer where "newer \<longleftrightarrow> (\<exists>info p dst. fi = Some info \<and> ?dst = Some (p, dst) \<and> \<not> ?hw \<and> fi_version dst \<le> fi_version info)"
  have run: "?run = (if \<not> okA then Some (False, s1) else if \<not> r then Some (False, s2)
      else if \<not> newer then Some (False, snd (btldr_fs_unlink_file K E n s3))
      else if \<not> ok4 then Some (False, snd (btldr_fs_unlink_file K E n s4)) else Some (True, s4))"
    using dg by (cases okA; cases r; cases fi; cases ?dst; cases "mcuboot_downgrade_prevention K")
      (auto simp: checks_before_install_def ar ch fi newer_def not_le)
  show ?thesis
  proof (cases "okA \<and> r")
    case False
    then have "?run = Some (False, if okA then s2 else s1) \<and> ?good False (if okA then s2 else s1)"
      using run no_area d1 ok1 ok2 res by auto
    then show ?thesis
      by blast
  next
    case True
    then obtain bs fa where d2: "sdev dv s2 = sdev dv s" and bs: "d_files (sdev dv s) (btldr_path K n) = Some bs"
      and acc: "file_accepted rel A C K E b0 addr sz bs h" "details_of rel A bs image_header_zero hw_rev_zero h hr'"
      and fa: "d_area (sdev dv s) i = Some fa" "addr = fa_off fa" "sz = fa_size fa"
      using res area by auto
    have d3: "sdev dv s3 = sdev dv s" and ok3: "fw_ok K s3"
      and found: "fi = None \<or> fw_info_found rel A K bs (fw_info_allowed_offsets K) fi"
      using fw_info_find_in_file_answer [OF plat fi] bs d2 ok2 fw_ok_kept [of s2 s3] by auto
    note dga = check_downgrade_prevention_answer [OF plat dg, unfolded d3]
    have d4: "sdev dv s4 = sdev dv s" and ok4': "fw_ok K s4"
      using dga ok3 fw_ok_kept [of s3 s4] by simp_all
    show ?thesis
    proof (cases "newer \<and> ok4")
      case False
      then have "?run = Some (False, snd (btldr_fs_unlink_file K E n (if newer then s4 else s3)))"
        using run True by auto
      moreover have "?good False (snd (btldr_fs_unlink_file K E n (if newer then s4 else s3)))"
        by (rule gone) (use d3 d4 ok3 ok4' in auto)
      ultimately show ?thesis
        by blast
    next
      case new: True
      then obtain info p dst where both: "fi = Some info" "?dst = Some (p, dst)" and hw: "\<not> ?hw"
        and ver: "fi_version dst \<le> fi_version info"
        by (auto simp: newer_def)
      have "hw_matches rel A hr bs"
        by (rule hw_check [OF acc(2) wf hw])
      then have "install_ok rel dv A C K E hr b0 i bs (sdev dv s)"
        using acc(1) fa found both ver d3 dga new unfolding install_ok_def by blast
      moreover have "?run = Some (True, s4)"
        using run new True by simp
      ultimately show ?thesis
        using bs fa(1) d4 ok4' by (intro exI [of _ True] exI [of _ s4]) auto
    qed
  qed
qed

lemma check_file_and_update_answer [spec]:
  assumes plat: "fw_platform rel dv E A C" and ok: "fw_ok K s" and wf: "hw_rev_wf hr"
  shows "\<exists>r s'. check_file_and_update A C K E n i hr b0 s = Some (r, s') \<and> fw_ok K s'
    \<and> (if r then \<exists>bs fl. d_files (sdev dv s) (btldr_path K n) = Some bs
            \<and> install_ok rel dv A C K E hr b0 i bs (sdev dv s) \<and> copied rel dv E (sdev dv s) i bs fl
            \<and> removed rel K n (set_flash i fl (sdev dv s)) (sdev dv s')
       else removed rel K n (sdev dv s) (sdev dv s')
            \<or> sdev dv s' = sdev dv s \<and> \<not> (rel \<and> d_area (sdev dv s) i \<noteq> None))"
proof -
  obtain ok1 s1 where ch: "checks_before_install A C K E n i hr b0 s = Some (ok1, s1)" and ok1: "fw_ok K s1"
    and res: "if ok1 then sdev dv s1 = sdev dv s \<and> (\<exists>bs. d_files (sdev dv s) (btldr_path K n) = Some bs
            \<and> install_ok rel dv A C K E hr b0 i bs (sdev dv s)) \<and> d_area (sdev dv s) i \<noteq> None
       else removed rel K n (sdev dv s) (sdev dv s1)
            \<or> sdev dv s1 = sdev dv s \<and> \<not> (rel \<and> d_area (sdev dv s) i \<noteq> None)"
    using checks_before_install_answer [OF assms, of n i b0] by blast
  show ?thesis
  proof (cases ok1)
    case False
    then show ?thesis
      using ch ok1 res by (intro exI [of _ False] exI [of _ s1]) (simp add: check_file_and_update_split)
  next
    case True
    obtain r s2 where ins: "install_file K E n i s1 = (r, s2)"
      by (metis prod.exhaust)
    obtain bs where d1: "sdev dv s1 = sdev dv s" and bs: "d_files (sdev dv s) (btldr_path K n) = Some bs"
      and acc: "install_ok rel dv A C K E hr b0 i bs (sdev dv s)" and ar: "d_area (sdev dv s) i \<noteq> None"
      using res True by auto
    have "fw_ok K s2 \<and> (if r then \<exists>img. copied rel dv E (sdev dv s) i bs img
        \<and> removed rel K n (set_flash i img (sdev dv s)) (sdev dv s2) else removed rel K n (sdev dv s) (sdev dv s2))"
      using install_file_answer [OF plat ok1 _ _ ins, unfolded d1, OF bs ar] .
    then show ?thesis
      using ch True ins bs acc by (intro exI [of _ r] exI [of _ s2]) (auto simp: check_file_and_update_split)
  qed
qed

text \<open>What has been established about an update of the slot that is running.\<close>

definition mcuboot_update_ok ::
  "bool \<Rightarrow> image_abi \<Rightarrow> config \<Rightarrow> 'w os \<Rightarrow> fw_image_hw_rev_t \<Rightarrow> fa_id_t \<Rightarrow> byte list \<Rightarrow> dev \<Rightarrow> bool"
where
  "mcuboot_update_ok rel A K E hr i bs d \<longleftrightarrow>
     (\<exists>fa info. d_area d i = Some fa \<and> b0_accepted rel K E (fa_off fa) (fa_size fa) bs
        \<and> hw_matches rel A hr bs \<and> fw_info_found rel A K bs (fw_info_allowed_offsets K) (Some info))"

lemma check_update_for_mcuboot_answer [spec]:
  assumes plat: "fw_platform rel dv E A C" and ok: "fw_ok K s" and wf: "hw_rev_wf hr"
  shows "\<exists>r s'. check_update_for_mcuboot A C K E n i hr s = Some (r, s') \<and> fw_ok K s'
    \<and> (if r then sdev dv s' = sdev dv s
            \<and> (\<exists>bs. d_files (sdev dv s) (btldr_path K n) = Some bs \<and> mcuboot_update_ok rel A K E hr i bs (sdev dv s))
       else removed rel K n (sdev dv s) (sdev dv s')
            \<or> sdev dv s' = sdev dv s \<and> \<not> (rel \<and> d_area (sdev dv s) i \<noteq> None))"
    (is "\<exists>r s'. ?run = Some (r, s') \<and> ?good r s'")
proof -
  note fs = fw_platformD(1) [OF plat] and fl = fw_platformD(2) [OF plat]
  have gone: "?good False (snd (btldr_fs_unlink_file K E n t))" if "fw_ok K t" "sdev dv t = sdev dv s" for t
    using unlink_removes [OF fs, of K n t] that by simp
  obtain ex s0 where ex: "btldr_fs_is_file_exist K E n s = (ex, s0)"
    by (metis prod.exhaust)
  have d0: "sdev dv s0 = sdev dv s" and ok0: "fw_ok K s0"
    and absent: "\<not> ex \<Longrightarrow> \<not> (rel \<and> d_files (sdev dv s) (btldr_path K n) \<noteq> None)"
    using btldr_fs_is_file_exist_answer [OF fs ex] ok fw_kept(1) [OF ex] by auto
  obtain okA addr sz s1 where ar: "on_world (get_flash_area_address_and_size E i) s0 = ((okA, addr, sz), s1)"
    by (metis prod.exhaust)
  have d1: "sdev dv s1 = sdev dv s" and ok1: "fw_ok K s1"
    and area: "okA \<Longrightarrow> \<exists>fa. d_area (sdev dv s) i = Some fa \<and> addr = fa_off fa \<and> sz = fa_size fa"
    and no_area: "\<not> okA \<Longrightarrow> \<not> (rel \<and> d_area (sdev dv s) i \<noteq> None)"
    using get_flash_area_address_and_size_answer [OF fl on_worldD(1) [OF ar]] d0 ok0 fw_kept(6) [OF ar] by auto
  obtain b s2 where b: "validate_b0_signature K E n addr sz s1 = (b, s2)"
    by (metis prod.exhaust)
  note b0 = validate_b0_signature_answer [OF plat ok1 b, unfolded d1]
  have d2: "sdev dv s2 = sdev dv s" and ok2: "fw_ok K s2"
    using b0 by simp_all
  obtain v h hr' s3 where v: "validate_file A C K E n addr sz image_header_zero hw_rev_zero s2 = Some ((v, h, hr'), s3)"
    and d3: "sdev dv s3 = sdev dv s" and ok3: "fw_ok K s3"
    and det: "case d_files (sdev dv s) (btldr_path K n) of
        None \<Rightarrow> \<not> v \<and> h = image_header_zero \<and> hr' = hw_rev_zero
      | Some bs \<Rightarrow> details_of rel A bs image_header_zero hw_rev_zero h hr' \<and> (v \<longrightarrow> image_accepted A C K addr sz bs h)"
    using validate_file_answer [OF plat ok2, of n addr sz image_header_zero hw_rev_zero, unfolded d2] by blast
  obtain fi s4 where fi: "fw_info_find_in_file A K E n s3 = (fi, s4)"
    by (metis prod.exhaust)
  note fia = fw_info_find_in_file_answer [OF plat fi, unfolded d3]
  have d4: "sdev dv s4 = sdev dv s" and ok4: "fw_ok K s4"
    using fia ok3 fw_ok_kept [of s3 s4] by simp_all
  note start = check_update_for_mcuboot_def ex ar b v fi
  let ?hw = "hw_rev_name hr ! 0 \<noteq> 0 \<and> c_string (hw_rev_name hr) \<noteq> c_string (hw_rev_name hr')"
  consider (absent) "\<not> ex" | (no_area) "ex" "\<not> okA" | (bad) "ex" "okA" "\<not> b"
    | (no_info) "ex" "okA" "b" "fi = None \<or> ?hw" | (good) "ex" "okA" "b" "fi \<noteq> None" "\<not> ?hw"
    by blast
  then show ?thesis
  proof cases
    case absent
    then have "?run = Some (False, s0) \<and> ?good False s0"
      using ok0 d0 \<open>\<not> ex \<Longrightarrow> _\<close> file_gone_absent [of "sdev dv s" K n] by (auto simp: start removed_def)
    then show ?thesis
      by blast
  next
    case no_area
    then have "?run = Some (False, s1) \<and> ?good False s1"
      using ok1 d1 \<open>\<not> okA \<Longrightarrow> _\<close> by (simp add: start)
    then show ?thesis
      by blast
  next
    case bad
    then have "?run = Some (False, snd (btldr_fs_unlink_file K E n s2))"
      by (simp add: start)
    then show ?thesis
      using gone [OF ok2 d2] by blast
  next
    case no_info
    then have "?run = Some (False, snd (btldr_fs_unlink_file K E n s4))"
      by (cases fi) (auto simp: start)
    then show ?thesis
      using gone [OF ok4 d4] by blast
  next
    case good
    then have run: "?run = Some (True, s4)"
      by (auto simp: start)
    obtain bs where bs: "d_files (sdev dv s) (btldr_path K n) = Some bs" "b0_accepted rel K E addr sz bs"
      using b0 good(3) unfolding b0_accepted_def by blast
    have "hw_matches rel A hr bs"
      by (rule hw_check [OF _ wf]) (use det bs(1) good(5) in auto)
    moreover obtain info where "fw_info_found rel A K bs (fw_info_allowed_offsets K) (Some info)"
      using fia bs(1) good(4) by auto
    moreover obtain fa where "d_area (sdev dv s) i = Some fa" "addr = fa_off fa" "sz = fa_size fa"
      using area good(2) by blast
    ultimately have "mcuboot_update_ok rel A K E hr i bs (sdev dv s)"
      using bs(2) unfolding mcuboot_update_ok_def by blast
    then have "?good True s4"
      using bs(1) ok4 d4 by simp
    then show ?thesis
      using run by blast
  qed
qed

subsection \<open>Invalidating an image\<close>

text \<open>
  What the SDK documents of \<open>fw_info_invalidate\<close>, called with the pointer that \<open>fw_info_find\<close> returned
  for the start of an area: it writes into that area and nowhere else.
\<close>

definition invalidate_spec :: "('w \<Rightarrow> dev) \<Rightarrow> 'w os \<Rightarrow> bool" where
  "invalidate_spec dv E \<longleftrightarrow>
     (\<forall>i fa buf w p info. d_area (dv w) i = Some fa \<longrightarrow> fw_info_find E (fa_off fa) buf w = Some (p, info) \<longrightarrow>
        (\<exists>fl. length fl = length (d_flash (dv w) i) \<and> dv (fw_info_invalidate E p w) = set_flash i fl (dv w)))"

text \<open>
  The contents that the area \<open>i\<close> of a device \<open>d\<close> has after \<open>fw_info_invalidate\<close> was called with the
  information found at the start of that area.
\<close>

definition invalidated :: "('w \<Rightarrow> dev) \<Rightarrow> 'w os \<Rightarrow> fa_id_t \<Rightarrow> dev \<Rightarrow> byte list \<Rightarrow> bool" where
  "invalidated dv E i d fl \<longleftrightarrow>
     (\<exists>fa buf w p info. d_area d i = Some fa \<and> d_area (dv w) i = Some fa \<and> d_flash (dv w) i = d_flash d i
        \<and> fw_info_find E (fa_off fa) buf w = Some (p, info) \<and> fl = d_flash (dv (fw_info_invalidate E p w)) i)"

lemma invalidated_same:
  "invalidated dv E i d fl \<Longrightarrow> d_area d' i = d_area d i \<Longrightarrow> d_flash d' i = d_flash d i \<Longrightarrow> invalidated dv E i d' fl"
  unfolding invalidated_def by metis

lemma img_invalidate_answer [spec]:
  assumes fl: "flash_spec rel dv E" and inv: "invalidate_spec dv E" and run: "img_invalidate E i s = (r, s')"
  shows "btldr_kept s s' \<and> (\<exists>img. length img = length (d_flash (sdev dv s) i)
    \<and> (img = d_flash (sdev dv s) i \<or> invalidated dv E i (sdev dv s) img)
    \<and> sdev dv s' = set_flash i img (sdev dv s)) \<and> (\<not> r \<longrightarrow> sdev dv s' = sdev dv s)"
proof -
  obtain rc fa s1 where op: "on_world (flash_area_open E i) s = ((rc, fa), s1)"
    by (metis prod.exhaust)
  have o: "sdev dv s1 = sdev dv s" "rc = 0 \<Longrightarrow> d_area (sdev dv s) i = Some fa"
    using flash_specD(1) [OF fl] on_worldD(1) [OF op] unfolding flash_open_spec_def by blast+
  have cl: "dv (flash_area_close E fa w) = dv w" for w
    using flash_specD(3) [OF fl] by (simp add: flash_close_spec_def)
  note k = btldr_kept_calls(1) [OF op]
  have same: "\<exists>img. length img = length (d_flash (sdev dv s) i)
      \<and> (img = d_flash (sdev dv s) i \<or> invalidated dv E i (sdev dv s) img) \<and> sdev dv s = set_flash i img (sdev dv s)"
    by (rule exI [of _ "d_flash (sdev dv s) i"]) simp
  show ?thesis
  proof (cases "rc = 0 \<and> fw_info_find E (fa_off fa) (g_shared_img_buf s1) (world s1) \<noteq> None")
    case False
    then have "\<not> r \<and> (s' = s1 \<or> s' = s1\<lparr>world := flash_area_close E fa (world s1)\<rparr>)"
      using run by (cases "rc = 0"; cases "fw_info_find E (fa_off fa) (g_shared_img_buf s1) (world s1)")
        (auto simp: img_invalidate_def op)
    then have "\<not> r" "sdev dv s' = sdev dv s" "btldr_kept s s'"
      using o cl k btldr_kept_trans [OF k btldr_kept_world] by auto
    then show ?thesis
      using same by simp
  next
    case True
    then obtain p info where found: "rc = 0" "fw_info_find E (fa_off fa) (g_shared_img_buf s1) (world s1) = Some (p, info)"
      by auto
    have res: "r" "s' = s1\<lparr>world := flash_area_close E fa (fw_info_invalidate E p (world s1))\<rparr>"
      using run found by (simp_all add: img_invalidate_def op Let_def)
    obtain img where img: "length img = length (d_flash (sdev dv s) i)"
        "dv (fw_info_invalidate E p (world s1)) = set_flash i img (sdev dv s)"
      using inv o found unfolding invalidate_spec_def by metis
    have "invalidated dv E i (sdev dv s) img"
      unfolding invalidated_def
      by (intro exI [of _ fa] exI [of _ "g_shared_img_buf s1"] exI [of _ "world s1"] exI [of _ p] exI [of _ info])
        (use o found img(2) in simp)
    then show ?thesis
      using res img cl btldr_kept_trans [OF k btldr_kept_world] by auto
  qed
qed

subsection \<open>The abstract machine: what an update does to the device\<close>

text \<open>
  The device changes in three kinds of steps, each with the conditions under which it is taken. The
  plan of a boot is the longest sequence of actions that the running slot may take.
\<close>

datatype update_action =
    Remove string
  | Install string fa_id_t bool
  | Invalidate string fa_id_t

inductive update_step ::
  "bool \<Rightarrow> ('w \<Rightarrow> dev) \<Rightarrow> image_abi \<Rightarrow> 'c crypto \<Rightarrow> config \<Rightarrow> 'w os \<Rightarrow> fw_image_hw_rev_t
   \<Rightarrow> update_action \<Rightarrow> dev \<Rightarrow> dev \<Rightarrow> bool"
  for rel dv A C K E hr
where
  remove: "update_step rel dv A C K E hr (Remove n) d (file_gone K n d)"
| install: "update_step rel dv A C K E hr (Install n i b0) d (set_flash i fl d)"
  if "d_files d (btldr_path K n) = Some bs" and "install_ok rel dv A C K E hr b0 i bs d" and "copied rel dv E d i bs fl"
| invalidate: "update_step rel dv A C K E hr (Invalidate n i) d (set_flash i fl d)"
  if "d_files d (btldr_path K n) = Some bs" and "mcuboot_update_ok rel A K E hr i bs d"
    and "length fl = length (d_flash d i)" and "fl = d_flash d i \<or> invalidated dv E i d fl"

inductive update_run ::
  "bool \<Rightarrow> ('w \<Rightarrow> dev) \<Rightarrow> image_abi \<Rightarrow> 'c crypto \<Rightarrow> config \<Rightarrow> 'w os \<Rightarrow> fw_image_hw_rev_t
   \<Rightarrow> update_action list \<Rightarrow> dev \<Rightarrow> dev \<Rightarrow> bool"
  for rel dv A C K E hr
where
  run_refl [intro]: "update_run rel dv A C K E hr [] d d"
| run_step [intro]: "update_run rel dv A C K E hr (a # t) d d''"
  if "update_step rel dv A C K E hr a d d'" and "update_run rel dv A C K E hr t d' d''"

inductive_simps update_step_simps:
  "update_step rel dv A C K E hr (Remove n) d d'"
  "update_step rel dv A C K E hr (Install n i b0) d d'"
  "update_step rel dv A C K E hr (Invalidate n i) d d'"

inductive_cases update_run_NilE: "update_run rel dv A C K E hr [] d d'"
inductive_cases update_run_ConsE: "update_run rel dv A C K E hr (a # t) d d'"

lemma update_run_one: "update_step rel dv A C K E hr a d d' \<Longrightarrow> update_run rel dv A C K E hr [a] d d'"
  by blast

lemma update_run_append [trans]:
  "update_run rel dv A C K E hr t d d' \<Longrightarrow> update_run rel dv A C K E hr u d' d''
   \<Longrightarrow> update_run rel dv A C K E hr (t @ u) d d''"
  by (induction rule: update_run.induct) auto

lemma update_run_removed:
  assumes "removed rel K n d d'"
  obtains t where "update_run rel dv A C K E hr t d d'" and "subseq t [Remove n]"
  using assms update_run_one [OF remove] by (fastforce simp: removed_def)

text \<open>What a run keeps, and where the contents of a partition come from.\<close>

lemma update_run_frame [frame]:
  assumes "update_run rel dv A C K E hr t d d'"
  shows "d_fds d' = d_fds d" and "d_area d' = d_area d" and "length (d_flash d' j) = length (d_flash d j)"
    and "d_files d' p = d_files d p \<or> d_files d' p = None"
    and "(\<forall>n. Remove n \<in> set t \<longrightarrow> btldr_path K n \<noteq> p) \<Longrightarrow> d_files d' p = d_files d p"
  using assms
  by (induction rule: update_run.induct) (auto elim!: update_step.cases dest: copied_length split: if_splits)

fun writes_to :: "fa_id_t \<Rightarrow> update_action \<Rightarrow> bool" where
  "writes_to j (Remove n) = False"
| "writes_to j (Install n i b0) = (i = j)"
| "writes_to j (Invalidate n i) = (i = j)"

lemma writes_to_iff: "writes_to j a \<longleftrightarrow> (\<exists>n b0. a = Install n j b0) \<or> (\<exists>n. a = Invalidate n j)"
  by (cases a) auto

lemma update_run_untouched:
  "update_run rel dv A C K E hr t d d' \<Longrightarrow> \<forall>a\<in>set t. \<not> writes_to j a \<Longrightarrow> d_flash d' j = d_flash d j"
  by (induction rule: update_run.induct) (auto elim!: update_step.cases)

lemma update_run_appendE:
  assumes "update_run rel dv A C K E hr (t @ u) d d''"
  obtains d' where "update_run rel dv A C K E hr t d d'" and "update_run rel dv A C K E hr u d' d''"
  using assms by (induction t arbitrary: d thesis) (auto elim!: update_run_ConsE)

text \<open>Where only one action of the run writes to a partition, that action decides what it holds.\<close>

lemma update_run_written:
  assumes run: "update_run rel dv A C K E hr t d d'" and once: "length (filter (writes_to j) t) \<le> 1"
  obtains (kept) "d_flash d' j = d_flash d j"
  | (written) past a d1 d2 where "a \<in> set t" and "writes_to j a" and "update_run rel dv A C K E hr past d d1"
      and "update_step rel dv A C K E hr a d1 d2"
      and "d_flash d1 j = d_flash d j" and "d_flash d' j = d_flash d2 j"
proof (cases "\<exists>a\<in>set t. writes_to j a")
  case False
  then show thesis
    using kept update_run_untouched [OF run] by blast
next
  case True
  then obtain past a todo where t: "t = past @ a # todo" and a: "writes_to j a" and past: "\<forall>b\<in>set past. \<not> writes_to j b"
    using split_list_first_prop [of t "writes_to j"] by blast
  have "filter (writes_to j) todo = []"
    using once a by (simp add: t)
  then have todo: "\<forall>b\<in>set todo. \<not> writes_to j b"
    by (simp add: filter_empty_conv)
  obtain d1 d2 where before: "update_run rel dv A C K E hr past d d1" and "update_step rel dv A C K E hr a d1 d2"
    and rest: "update_run rel dv A C K E hr todo d2 d'"
    using run unfolding t by (elim update_run_appendE update_run_ConsE) blast
  then show thesis
    using written [of a past d1 d2] a update_run_untouched [OF before past] update_run_untouched [OF rest todo] t by simp
qed

definition update_plan :: "config \<Rightarrow> slot_id_t \<Rightarrow> update_action list" where
  "update_plan K slot =
     (if slot = 0
      then [Install (RUUVI_FW_MCUBOOT1_FILE_NAME K) (PM_ID_s1 K) True, Remove (RUUVI_FW_MCUBOOT1_FILE_NAME K)]
           @ [Remove (RUUVI_FW_MCUBOOT0_FILE_NAME K), Invalidate (RUUVI_FW_MCUBOOT0_FILE_NAME K) (PM_ID_s0 K)]
      else [Install (RUUVI_FW_MCUBOOT0_FILE_NAME K) (PM_ID_s0 K) True, Remove (RUUVI_FW_MCUBOOT0_FILE_NAME K)]
           @ [Remove (RUUVI_FW_MCUBOOT1_FILE_NAME K)])
     @ [Install (RUUVI_FW_LOADER_FILE_NAME K) (PM_ID_mcuboot_secondary K) False, Remove (RUUVI_FW_LOADER_FILE_NAME K)]
     @ [Install (RUUVI_FW_APP_FILE_NAME K) (PM_ID_mcuboot_primary K) False, Remove (RUUVI_FW_APP_FILE_NAME K)]"

definition installs :: "update_action list \<Rightarrow> bool" where
  "installs t \<longleftrightarrow> (\<exists>n i b0. Install n i b0 \<in> set t)"

lemma installs_simps [simp]:
  "\<not> installs []" "installs (t @ u) \<longleftrightarrow> installs t \<or> installs u" "installs (Install n i b0 # t)"
  by (auto simp: installs_def)

lemma subseq_set: "subseq xs ys \<Longrightarrow> set xs \<subseteq> set ys"
  by (induction rule: list_emb.induct) auto

lemma subseq_Remove_installs: "subseq t [Remove n] \<Longrightarrow> \<not> installs t"
  using subseq_set [of t "[Remove n]"] by (auto simp: installs_def)

definition writes :: "update_action list \<Rightarrow> bool" where
  "writes t \<longleftrightarrow> installs t \<or> (\<exists>n i. Invalidate n i \<in> set t)"

lemma no_writes_to: "\<not> writes t \<Longrightarrow> \<forall>a\<in>set t. \<not> writes_to j a"
  by (auto simp: writes_def installs_def writes_to_iff)

lemma writes_append [simp]: "writes (t @ u) \<longleftrightarrow> writes t \<or> writes u"
  by (auto simp: writes_def)

lemma subseq_no_Invalidate: "subseq t [Install n i b0, Remove m] \<Longrightarrow> writes t \<longleftrightarrow> installs t"
  using subseq_set [of t "[Install n i b0, Remove m]"] by (auto simp: writes_def)

lemma subseq_Remove_writes: "subseq t [Remove n] \<Longrightarrow> \<not> writes t"
  using subseq_set [of t "[Remove n]"] by (auto simp: writes_def installs_def)

text \<open>One file takes at most the two actions for it, and the result says whether it was installed.\<close>

lemma check_file_and_update_run [spec]:
  assumes plat: "fw_platform rel dv E A C" and ok: "fw_ok K s" and wf: "hw_rev_wf hr"
  obtains r s' t where "check_file_and_update A C K E n i hr b0 s = Some (r, s')" and "fw_ok K s'"
    and "update_run rel dv A C K E hr t (sdev dv s) (sdev dv s')"
    and "subseq t [Install n i b0, Remove n]" and "r \<longleftrightarrow> installs t"
    and "rel \<and> d_area (sdev dv s) i \<noteq> None \<longrightarrow> d_files (sdev dv s') (btldr_path K n) = None"
proof -
  obtain r s' where run: "check_file_and_update A C K E n i hr b0 s = Some (r, s')" "fw_ok K s'"
    and res: "if r then \<exists>bs fl. d_files (sdev dv s) (btldr_path K n) = Some bs
            \<and> install_ok rel dv A C K E hr b0 i bs (sdev dv s) \<and> copied rel dv E (sdev dv s) i bs fl
            \<and> removed rel K n (set_flash i fl (sdev dv s)) (sdev dv s')
       else removed rel K n (sdev dv s) (sdev dv s')
            \<or> sdev dv s' = sdev dv s \<and> \<not> (rel \<and> d_area (sdev dv s) i \<noteq> None)"
    using check_file_and_update_answer [OF plat ok wf] by blast
  have gone: "rel \<and> d_area (sdev dv s) i \<noteq> None \<longrightarrow> d_files (sdev dv s') (btldr_path K n) = None"
    using res by (auto simp: removed_def split: if_splits)
  show thesis
  proof (cases r)
    case True
    then obtain bs fl where st: "update_step rel dv A C K E hr (Install n i b0) (sdev dv s) (set_flash i fl (sdev dv s))"
      and rm: "removed rel K n (set_flash i fl (sdev dv s)) (sdev dv s')"
      using res by (auto simp: update_step_simps)
    obtain t where t: "update_run rel dv A C K E hr t (set_flash i fl (sdev dv s)) (sdev dv s')" "subseq t [Remove n]"
      by (rule update_run_removed [OF rm])
    have "subseq (Install n i b0 # t) [Install n i b0, Remove n]"
      using t(2) by simp
    then show thesis
      using that [OF run run_step [OF st t(1)] _ _ gone] True by simp
  next
    case False
    then obtain t where t: "update_run rel dv A C K E hr t (sdev dv s) (sdev dv s')" "subseq t [Remove n]"
      using res update_run_removed [of rel K n "sdev dv s" "sdev dv s'"] by (metis list_emb_Nil run_refl)
    then show thesis
      using that [OF run t(1) _ _ gone] False subseq_Remove_installs [OF t(2)] by auto
  qed
qed

text \<open>The update of the running slot: it waits for the other slot, or its file is removed.\<close>

definition pending :: "bool \<Rightarrow> image_abi \<Rightarrow> config \<Rightarrow> 'w os \<Rightarrow> fw_image_hw_rev_t \<Rightarrow> string \<Rightarrow> fa_id_t \<Rightarrow> dev \<Rightarrow> bool"
where
  "pending rel A K E hr n i d \<longleftrightarrow>
     (\<exists>bs. d_files d (btldr_path K n) = Some bs \<and> mcuboot_update_ok rel A K E hr i bs d)"

lemma pending_same:
  "pending rel A K E hr n i d \<Longrightarrow> d_area d' i = d_area d i \<Longrightarrow> d_files d' (btldr_path K n) = d_files d (btldr_path K n)
   \<Longrightarrow> pending rel A K E hr n i d'"
  by (simp add: pending_def mcuboot_update_ok_def)

lemma pending_before:
  assumes run: "update_run rel dv A C K E hr t d d'" and "pending rel A K E hr n i d'"
  shows "pending rel A K E hr n i d"
proof (rule pending_same [OF assms(2)])
  show "d_files d (btldr_path K n) = d_files d' (btldr_path K n)"
    using assms(2) update_run_frame(4) [OF run, of "btldr_path K n"] by (auto simp: pending_def)
qed (simp add: update_run_frame(2) [OF run])

lemma check_update_for_mcuboot_run [spec]:
  assumes plat: "fw_platform rel dv E A C" and ok: "fw_ok K s" and wf: "hw_rev_wf hr"
  obtains r s' t where "check_update_for_mcuboot A C K E n i hr s = Some (r, s')" and "fw_ok K s'"
    and "update_run rel dv A C K E hr t (sdev dv s) (sdev dv s')" and "subseq t [Remove n]"
    and "r \<Longrightarrow> sdev dv s' = sdev dv s \<and> pending rel A K E hr n i (sdev dv s)"
    and "\<not> r \<and> rel \<and> d_area (sdev dv s) i \<noteq> None \<longrightarrow> d_files (sdev dv s') (btldr_path K n) = None"
proof -
  obtain r s' where run: "check_update_for_mcuboot A C K E n i hr s = Some (r, s')" "fw_ok K s'"
    and res: "if r then sdev dv s' = sdev dv s
            \<and> (\<exists>bs. d_files (sdev dv s) (btldr_path K n) = Some bs \<and> mcuboot_update_ok rel A K E hr i bs (sdev dv s))
       else removed rel K n (sdev dv s) (sdev dv s')
            \<or> sdev dv s' = sdev dv s \<and> \<not> (rel \<and> d_area (sdev dv s) i \<noteq> None)"
    using check_update_for_mcuboot_answer [OF plat ok wf] by blast
  have pend: "sdev dv s' = sdev dv s \<and> pending rel A K E hr n i (sdev dv s)" if r
    using that res by (auto simp: pending_def)
  have gone: "\<not> r \<and> rel \<and> d_area (sdev dv s) i \<noteq> None \<longrightarrow> d_files (sdev dv s') (btldr_path K n) = None"
    using res by (auto simp: removed_def split: if_splits)
  obtain t where "update_run rel dv A C K E hr t (sdev dv s) (sdev dv s')" "subseq t [Remove n]"
    using res update_run_removed [of rel K n "sdev dv s" "sdev dv s'"] by (metis list_emb_Nil run_refl)
  then show thesis
    using that [OF run _ _ pend gone] by blast
qed

text \<open>The part of \<open>check_updates_on_fs\<close> for the two MCUboot slots.\<close>

lemma mcuboot_slots_run:
  assumes plat: "fw_platform rel dv E A C" and inv: "invalidate_spec dv E" and ok: "fw_ok K s" and wf: "hw_rev_wf hr"
  obtains r u s' t where "(do {
      (r, s) \<leftarrow> check_file_and_update A C K E n i hr True s;
      (u, s) \<leftarrow> check_update_for_mcuboot A C K E n2 i2 hr s;
      if u then Some (r, True, if q then snd (img_invalidate E i2 s) else s) else Some (r, False, s) })
        = Some (r, u, s')"
    and "fw_ok K s'" and "update_run rel dv A C K E hr t (sdev dv s) (sdev dv s')"
    and "subseq t ([Install n i True, Remove n] @ [Remove n2] @ (if q then [Invalidate n2 i2] else []))"
    and "r \<longleftrightarrow> installs t"
    and "u \<Longrightarrow> \<exists>t d. update_run rel dv A C K E hr t (sdev dv s) d \<and> subseq t [Install n i True, Remove n]
      \<and> pending rel A K E hr n2 i2 d" and "writes t \<longrightarrow> r \<or> u"
    and "rel \<and> d_area (sdev dv s) i \<noteq> None \<and> d_area (sdev dv s) i2 \<noteq> None \<longrightarrow>
      d_files (sdev dv s') (btldr_path K n) = None \<and> (\<not> u \<longrightarrow> d_files (sdev dv s') (btldr_path K n2) = None)"
proof -
  obtain r s1 t1 where c1: "check_file_and_update A C K E n i hr True s = Some (r, s1)" "fw_ok K s1"
    and t1: "update_run rel dv A C K E hr t1 (sdev dv s) (sdev dv s1)" "subseq t1 [Install n i True, Remove n]"
      "r \<longleftrightarrow> installs t1"
      "rel \<and> d_area (sdev dv s) i \<noteq> None \<longrightarrow> d_files (sdev dv s1) (btldr_path K n) = None"
    by (rule check_file_and_update_run [OF plat ok wf, where n = n and i = i and ?b0.0 = True])
  obtain u s2 t2 where c2: "check_update_for_mcuboot A C K E n2 i2 hr s1 = Some (u, s2)" "fw_ok K s2"
    and t2: "update_run rel dv A C K E hr t2 (sdev dv s1) (sdev dv s2)" "subseq t2 [Remove n2]"
      "u \<Longrightarrow> sdev dv s2 = sdev dv s1 \<and> pending rel A K E hr n2 i2 (sdev dv s1)"
      "\<not> u \<and> rel \<and> d_area (sdev dv s1) i2 \<noteq> None \<longrightarrow> d_files (sdev dv s2) (btldr_path K n2) = None"
    by (rule check_update_for_mcuboot_run [OF plat c1(2) wf, where n = n2 and i = i2]) blast
  have t12: "update_run rel dv A C K E hr (t1 @ t2) (sdev dv s) (sdev dv s2)"
    by (rule update_run_append [OF t1(1) t2(1)])
  have no2: "\<not> installs t2"
    by (rule subseq_Remove_installs [OF t2(2)])
  have gone: "rel \<and> d_area (sdev dv s) i \<noteq> None \<and> d_area (sdev dv s) i2 \<noteq> None \<longrightarrow>
      d_files (sdev dv s2) (btldr_path K n) = None \<and> (\<not> u \<longrightarrow> d_files (sdev dv s2) (btldr_path K n2) = None)"
    using t1(4) t2(4) update_run_frame(2) [OF t1(1)] update_run_frame(4) [OF t2(1)] by metis
  have pend: "\<exists>t d. update_run rel dv A C K E hr t (sdev dv s) d \<and> subseq t [Install n i True, Remove n]
      \<and> pending rel A K E hr n2 i2 d" if u
    using t1(1,2) t2(3) [OF that] by blast
  have wr: "writes (t1 @ t2) \<longrightarrow> r"
    using subseq_no_Invalidate [OF t1(2)] subseq_Remove_writes [OF t2(2)] t1(3) by simp
  show thesis
  proof (cases "u \<and> q")
    case False
    show thesis
    proof (rule that)
      show "(do {
        (r, s) \<leftarrow> check_file_and_update A C K E n i hr True s;
        (u, s) \<leftarrow> check_update_for_mcuboot A C K E n2 i2 hr s;
        if u then Some (r, True, if q then snd (img_invalidate E i2 s) else s) else Some (r, False, s) })
          = Some (r, u, s2)"
        using False c1 c2 by auto
      show "subseq (t1 @ t2) ([Install n i True, Remove n] @ [Remove n2] @ (if q then [Invalidate n2 i2] else []))"
        using list_emb_append_mono [OF t1(2) list_emb_append_mono [OF t2(2) list_emb_Nil]] by simp
      show "r \<longleftrightarrow> installs (t1 @ t2)"
        using t1(3) no2 by simp
    qed (use t12 c2 pend gone wr in auto)
  next
    case True
    obtain iv s3 where iv: "img_invalidate E i2 s2 = (iv, s3)"
      by (metis prod.exhaust)
    obtain img where a: "btldr_kept s2 s3" "length img = length (d_flash (sdev dv s2) i2)"
        "sdev dv s3 = set_flash i2 img (sdev dv s2)"
        "img = d_flash (sdev dv s2) i2 \<or> invalidated dv E i2 (sdev dv s2) img"
      using img_invalidate_answer [OF fw_platformD(2) [OF plat] inv iv] by blast
    have "update_step rel dv A C K E hr (Invalidate n2 i2) (sdev dv s2) (sdev dv s3)"
      using t2(3) True a(2-4) unfolding update_step_simps pending_def by metis
    then have t3: "update_run rel dv A C K E hr ((t1 @ t2) @ [Invalidate n2 i2]) (sdev dv s) (sdev dv s3)"
      using t12 update_run_append update_run_one by blast
    show thesis
    proof (rule that)
      show "(do {
        (r, s) \<leftarrow> check_file_and_update A C K E n i hr True s;
        (u, s) \<leftarrow> check_update_for_mcuboot A C K E n2 i2 hr s;
        if u then Some (r, True, if q then snd (img_invalidate E i2 s) else s) else Some (r, False, s) })
          = Some (r, u, s3)"
        using True c1 c2 iv by auto
      show "subseq ((t1 @ t2) @ [Invalidate n2 i2])
          ([Install n i True, Remove n] @ [Remove n2] @ (if q then [Invalidate n2 i2] else []))"
        using t1(2) t2(2) True unfolding append_assoc by (intro list_emb_append_mono) auto
      show "r \<longleftrightarrow> installs ((t1 @ t2) @ [Invalidate n2 i2])"
        using t1(3) no2 by (auto simp: installs_def)
    qed (use t3 c2 a(1,3) pend gone True fw_ok_kept [of s2 s3] in auto)
  qed
qed

text \<open>The name and the area of the slot that is running.\<close>

definition own_file :: "config \<Rightarrow> slot_id_t \<Rightarrow> string" where
  "own_file K slot = (if slot = 0 then RUUVI_FW_MCUBOOT0_FILE_NAME K else RUUVI_FW_MCUBOOT1_FILE_NAME K)"

definition own_area :: "config \<Rightarrow> slot_id_t \<Rightarrow> fa_id_t" where
  "own_area K slot = (if slot = 0 then PM_ID_s0 K else PM_ID_s1 K)"

definition pending_after ::
  "bool \<Rightarrow> ('w \<Rightarrow> dev) \<Rightarrow> image_abi \<Rightarrow> 'c crypto \<Rightarrow> config \<Rightarrow> 'w os \<Rightarrow> fw_image_hw_rev_t \<Rightarrow> slot_id_t
   \<Rightarrow> dev \<Rightarrow> bool"
where
  "pending_after rel dv A C K E hr slot d \<longleftrightarrow>
     (\<exists>t d'. update_run rel dv A C K E hr t d d' \<and> subseq t (update_plan K slot)
        \<and> pending rel A K E hr (own_file K slot) (own_area K slot) d')"

definition update_files :: "config \<Rightarrow> string set" where
  "update_files K = {RUUVI_FW_MCUBOOT0_FILE_NAME K, RUUVI_FW_MCUBOOT1_FILE_NAME K,
     RUUVI_FW_LOADER_FILE_NAME K, RUUVI_FW_APP_FILE_NAME K}"

definition update_areas :: "config \<Rightarrow> fa_id_t set" where
  "update_areas K = {PM_ID_s0 K, PM_ID_s1 K, PM_ID_mcuboot_secondary K, PM_ID_mcuboot_primary K}"

text \<open>
  The updates of MCUboot for either slot, as one computation; and the two updates after them, of the
  firmware loader and of the application.
\<close>

lemma check_updates_on_fs_alt:
  "check_updates_on_fs A C K E slot hr s = do {
     (flag, reboot, s) \<leftarrow> do {
       (r, s) \<leftarrow> check_file_and_update A C K E (own_file K (1 - slot)) (own_area K (1 - slot)) hr True s;
       (u, s) \<leftarrow> check_update_for_mcuboot A C K E (own_file K slot) (own_area K slot) hr s;
       if u then Some (r, True, if slot = 0 then snd (img_invalidate E (own_area K slot) s) else s) else Some (r, False, s) };
     if reboot then Some (True, s)
     else do {
       (r2, s) \<leftarrow> check_file_and_update A C K E (RUUVI_FW_LOADER_FILE_NAME K) (PM_ID_mcuboot_secondary K) hr False s;
       (r3, s) \<leftarrow> check_file_and_update A C K E (RUUVI_FW_APP_FILE_NAME K) (PM_ID_mcuboot_primary K) hr False s;
       Some (flag \<or> r2 \<or> r3, s)
     }
   }"
proof -
  have other: "own_file K (1 - slot) = (if slot = 0 then RUUVI_FW_MCUBOOT1_FILE_NAME K else RUUVI_FW_MCUBOOT0_FILE_NAME K)"
    "own_area K (1 - slot) = (if slot = 0 then PM_ID_s1 K else PM_ID_s0 K)"
    by (simp_all add: own_file_def own_area_def)
  have flag: "(if r3 then True else if r2 then True else f) = (f \<or> r2 \<or> r3)" for f r2 r3 :: bool
    by simp
  show ?thesis
    unfolding check_updates_on_fs_def other Let_def flag unfolding own_file_def own_area_def
    by (cases "slot = 0") (simp_all only: if_True if_False simp_thms)
qed

lemma loader_and_app_run:
  fixes K
  assumes plat: "fw_platform rel dv E A C" and ok: "fw_ok K s" and wf: "hw_rev_wf hr"
  defines "ld \<equiv> RUUVI_FW_LOADER_FILE_NAME K" and "ap \<equiv> RUUVI_FW_APP_FILE_NAME K"
    and "li \<equiv> PM_ID_mcuboot_secondary K" and "ai \<equiv> PM_ID_mcuboot_primary K"
  obtains r2 s2 r3 s3 t where "check_file_and_update A C K E ld li hr False s = Some (r2, s2)"
    and "check_file_and_update A C K E ap ai hr False s2 = Some (r3, s3)" and "fw_ok K s3"
    and "update_run rel dv A C K E hr t (sdev dv s) (sdev dv s3)"
    and "subseq t ([Install ld li False, Remove ld] @ [Install ap ai False, Remove ap])"
    and "r2 \<or> r3 \<longleftrightarrow> installs t" and "writes t \<longrightarrow> r2 \<or> r3"
    and "rel \<and> d_area (sdev dv s) li \<noteq> None \<and> d_area (sdev dv s) ai \<noteq> None \<longrightarrow>
      d_files (sdev dv s3) (btldr_path K ld) = None \<and> d_files (sdev dv s3) (btldr_path K ap) = None"
proof -
  obtain r2 s2 t2 where c2: "check_file_and_update A C K E ld li hr False s = Some (r2, s2)" "fw_ok K s2"
    and t2: "update_run rel dv A C K E hr t2 (sdev dv s) (sdev dv s2)"
      "subseq t2 [Install ld li False, Remove ld]" "r2 \<longleftrightarrow> installs t2"
      "rel \<and> d_area (sdev dv s) li \<noteq> None \<longrightarrow> d_files (sdev dv s2) (btldr_path K ld) = None"
    by (rule check_file_and_update_run [OF plat ok wf])
  obtain r3 s3 t3 where c3: "check_file_and_update A C K E ap ai hr False s2 = Some (r3, s3)" "fw_ok K s3"
    and t3: "update_run rel dv A C K E hr t3 (sdev dv s2) (sdev dv s3)"
      "subseq t3 [Install ap ai False, Remove ap]" "r3 \<longleftrightarrow> installs t3"
      "rel \<and> d_area (sdev dv s2) ai \<noteq> None \<longrightarrow> d_files (sdev dv s3) (btldr_path K ap) = None"
    by (rule check_file_and_update_run [OF plat c2(2) wf])
  show ?thesis
  proof (rule that [OF c2(1) c3(1,2) update_run_append [OF t2(1) t3(1)] list_emb_append_mono [OF t2(2) t3(2)]])
    show "r2 \<or> r3 \<longleftrightarrow> installs (t2 @ t3)"
      using t2(3) t3(3) by simp
    show "writes (t2 @ t3) \<longrightarrow> r2 \<or> r3"
      using subseq_no_Invalidate [OF t2(2)] subseq_no_Invalidate [OF t3(2)] t2(3) t3(3) by simp
    show "rel \<and> d_area (sdev dv s) li \<noteq> None \<and> d_area (sdev dv s) ai \<noteq> None \<longrightarrow>
      d_files (sdev dv s3) (btldr_path K ld) = None \<and> d_files (sdev dv s3) (btldr_path K ap) = None"
      using t2(4) t3(4) update_run_frame(2) [OF t2(1)] update_run_frame(4) [OF t3(1), of "btldr_path K ld"]
      by auto
  qed
qed

lemma check_updates_on_fs_run [spec]:
  assumes plat: "fw_platform rel dv E A C" and inv: "invalidate_spec dv E" and ok: "fw_ok K s" and wf: "hw_rev_wf hr"
  shows "\<exists>r s' t. check_updates_on_fs A C K E slot hr s = Some (r, s') \<and> fw_ok K s'
    \<and> update_run rel dv A C K E hr t (sdev dv s) (sdev dv s') \<and> subseq t (update_plan K slot)
    \<and> (writes t \<longrightarrow> r) \<and> (r \<longrightarrow> installs t \<or> pending_after rel dv A C K E hr slot (sdev dv s))
    \<and> (rel \<and> (\<forall>i\<in>update_areas K. d_area (sdev dv s) i \<noteq> None) \<longrightarrow>
        r \<and> pending_after rel dv A C K E hr slot (sdev dv s)
          \<and> d_files (sdev dv s') (btldr_path K (own_file K (1 - slot))) = None
        \<or> (\<forall>n\<in>update_files K. d_files (sdev dv s') (btldr_path K n) = None))"
proof -
  let ?n1 = "own_file K (1 - slot)" and ?i1 = "own_area K (1 - slot)"
  let ?n2 = "own_file K slot" and ?i2 = "own_area K slot"
  let ?slots = "[Install ?n1 ?i1 True, Remove ?n1] @ [Remove ?n2] @ (if slot = 0 then [Invalidate ?n2 ?i2] else [])"
  let ?ld = "RUUVI_FW_LOADER_FILE_NAME K" and ?ap = "RUUVI_FW_APP_FILE_NAME K"
  obtain r u s1 t1 where c1: "(do {
      (r, s) \<leftarrow> check_file_and_update A C K E ?n1 ?i1 hr True s;
      (u, s) \<leftarrow> check_update_for_mcuboot A C K E ?n2 ?i2 hr s;
      if u then Some (r, True, if slot = 0 then snd (img_invalidate E ?i2 s) else s) else Some (r, False, s) })
        = Some (r, u, s1)"
    and ok1: "fw_ok K s1" and t1: "update_run rel dv A C K E hr t1 (sdev dv s) (sdev dv s1)"
    "subseq t1 ?slots" "r \<longleftrightarrow> installs t1" "u \<Longrightarrow> \<exists>t d. update_run rel dv A C K E hr t (sdev dv s) d \<and> subseq t [Install ?n1 ?i1 True, Remove ?n1]
      \<and> pending rel A K E hr ?n2 ?i2 d"
    "writes t1 \<longrightarrow> r \<or> u"
    "rel \<and> d_area (sdev dv s) ?i1 \<noteq> None \<and> d_area (sdev dv s) ?i2 \<noteq> None \<longrightarrow>
      d_files (sdev dv s1) (btldr_path K ?n1) = None \<and> (\<not> u \<longrightarrow> d_files (sdev dv s1) (btldr_path K ?n2) = None)"
    by (rule mcuboot_slots_run [OF plat inv ok wf, where n = "?n1" and i = "?i1" and ?n2.0 = "?n2"
        and ?i2.0 = "?i2" and q = "slot = 0"]) blast
  obtain r2 s2 r3 s3 t2 where c2: "check_file_and_update A C K E ?ld (PM_ID_mcuboot_secondary K) hr False s1 = Some (r2, s2)"
      "check_file_and_update A C K E ?ap (PM_ID_mcuboot_primary K) hr False s2 = Some (r3, s3)" "fw_ok K s3"
    and t2: "update_run rel dv A C K E hr t2 (sdev dv s1) (sdev dv s3)"
      "subseq t2 ([Install ?ld (PM_ID_mcuboot_secondary K) False, Remove ?ld]
         @ [Install ?ap (PM_ID_mcuboot_primary K) False, Remove ?ap])"
      "r2 \<or> r3 \<longleftrightarrow> installs t2" "writes t2 \<longrightarrow> r2 \<or> r3"
      "rel \<and> d_area (sdev dv s1) (PM_ID_mcuboot_secondary K) \<noteq> None \<and> d_area (sdev dv s1) (PM_ID_mcuboot_primary K) \<noteq> None
        \<longrightarrow> d_files (sdev dv s3) (btldr_path K ?ld) = None \<and> d_files (sdev dv s3) (btldr_path K ?ap) = None"
    by (rule loader_and_app_run [OF plat ok1 wf])
  have plan: "update_plan K slot = ?slots @ [Install ?ld (PM_ID_mcuboot_secondary K) False, Remove ?ld]
      @ [Install ?ap (PM_ID_mcuboot_primary K) False, Remove ?ap]"
    by (simp add: update_plan_def own_file_def own_area_def)
  have run: "check_updates_on_fs A C K E slot hr s = (if u then Some (True, s1) else Some (r \<or> r2 \<or> r3, s3))"
    unfolding check_updates_on_fs_alt c1 by (simp add: c2)
  show ?thesis
  proof (cases u)
    case True
    have "subseq t1 (update_plan K slot)"
      unfolding plan using list_emb_append_mono [OF t1(2) list_emb_Nil] unfolding append_Nil2 .
    moreover have "pending_after rel dv A C K E hr slot (sdev dv s)"
    proof -
      obtain v d where v: "update_run rel dv A C K E hr v (sdev dv s) d" "subseq v [Install ?n1 ?i1 True, Remove ?n1]"
          "pending rel A K E hr ?n2 ?i2 d"
        using t1(4) [OF True] by blast
      have "subseq v (update_plan K slot)"
        unfolding plan append_assoc using list_emb_append_mono [OF v(2) list_emb_Nil] unfolding append_Nil2 .
      then show ?thesis
        using v(1,3) unfolding pending_after_def by blast
    qed
    moreover have "check_updates_on_fs A C K E slot hr s = Some (True, s1)"
      using run True by simp
    moreover have "rel \<and> (\<forall>i\<in>update_areas K. d_area (sdev dv s) i \<noteq> None) \<longrightarrow>
        d_files (sdev dv s1) (btldr_path K (own_file K (1 - slot))) = None"
      using t1(6) by (simp add: update_areas_def own_file_def own_area_def split: if_splits)
    ultimately show ?thesis
      using ok1 t1(1) by (intro exI [of _ True] exI [of _ s1] exI [of _ t1]) blast
  next
    case False
    have "subseq (t1 @ t2) (update_plan K slot)"
      unfolding plan by (intro list_emb_append_mono t1(2) t2(2))
    moreover have "update_run rel dv A C K E hr (t1 @ t2) (sdev dv s) (sdev dv s3)"
      by (rule update_run_append [OF t1(1) t2(1)])
    moreover have "r \<or> r2 \<or> r3 \<longleftrightarrow> installs (t1 @ t2)" and "writes (t1 @ t2) \<longrightarrow> r \<or> r2 \<or> r3"
      using t1(3,5) t2(3,4) False by simp_all
    moreover have "\<forall>n\<in>update_files K. d_files (sdev dv s3) (btldr_path K n) = None"
      if "rel \<and> (\<forall>i\<in>update_areas K. d_area (sdev dv s) i \<noteq> None)"
    proof -
      have "d_area (sdev dv s) ?i1 \<noteq> None" "d_area (sdev dv s) ?i2 \<noteq> None"
        using that by (simp_all add: update_areas_def own_area_def)
      then have "d_files (sdev dv s3) (btldr_path K ?n1) = None" "d_files (sdev dv s3) (btldr_path K ?n2) = None"
        using that t1(6) False update_run_frame(4) [OF t2(1), of "btldr_path K ?n1"]
          update_run_frame(4) [OF t2(1), of "btldr_path K ?n2"] by auto
      moreover have "d_files (sdev dv s3) (btldr_path K ?ld) = None" "d_files (sdev dv s3) (btldr_path K ?ap) = None"
        using that t2(5) update_run_frame(2) [OF t1(1)] by (simp_all add: update_areas_def)
      ultimately show ?thesis
        by (simp add: update_files_def own_file_def split: if_splits)
    qed
    ultimately show ?thesis
      using run False c2(3) by (intro exI [of _ "r \<or> r2 \<or> r3"] exI [of _ s3] exI [of _ "t1 @ t2"]) simp
  qed
qed

subsection \<open>From mounting to rebooting\<close>

text \<open>
  What Zephyr documents of the remaining calls. Mounting, unmounting and erasing the partition of
  the file system change that partition and the files one sees; a reboot keeps flash; opening an
  area returns 0 or a negative error.
\<close>

definition storage_step :: "config \<Rightarrow> dev \<Rightarrow> dev \<Rightarrow> bool" where
  "storage_step K d d' \<longleftrightarrow>
     (\<exists>files fl. length fl = length (d_flash d (PM_ID_littlefs_storage1 K))
        \<and> d' = set_flash (PM_ID_littlefs_storage1 K) fl (d\<lparr>d_files := files\<rparr>))"

definition boot_spec :: "('w \<Rightarrow> dev) \<Rightarrow> config \<Rightarrow> 'w os \<Rightarrow> bool" where
  "boot_spec dv K E \<longleftrightarrow>
     (\<forall>p w rc w'. fs_mount E p w = (rc, w') \<longrightarrow> storage_step K (dv w) (dv w'))
     \<and> (\<forall>p w rc w'. fs_statvfs E p w = (rc, w') \<longrightarrow> dv w' = dv w)
     \<and> (\<forall>p w rc w'. fs_unmount E p w = (rc, w') \<longrightarrow> storage_step K (dv w) (dv w'))
     \<and> (\<forall>fa off n w rc w'. flash_area_flatten E fa off n w = (rc, w')
          \<longrightarrow> d_area (dv w) (PM_ID_littlefs_storage1 K) = Some fa \<longrightarrow> storage_step K (dv w) (dv w'))
     \<and> (\<forall>i w rc fa w'. flash_area_open E i w = ((rc, fa), w') \<longrightarrow> rc \<le> 0)
     \<and> (\<forall>w. d_area (dv (sys_reboot_cold E w)) = d_area (dv w) \<and> d_flash (dv (sys_reboot_cold E w)) = d_flash (dv w))"

lemma boot_specD:
  assumes "boot_spec dv K E"
  shows "fs_mount E p w = (rc, w') \<Longrightarrow> storage_step K (dv w) (dv w')"
    and "fs_statvfs E p w = (rc, w') \<Longrightarrow> dv w' = dv w"
    and "fs_unmount E p w = (rc, w') \<Longrightarrow> storage_step K (dv w) (dv w')"
    and "flash_area_flatten E fa off n w = (rc, w') \<Longrightarrow> d_area (dv w) (PM_ID_littlefs_storage1 K) = Some fa
      \<Longrightarrow> storage_step K (dv w) (dv w')"
    and "flash_area_open E i w = ((rc, fa), w') \<Longrightarrow> rc \<le> 0"
    and "d_area (dv (sys_reboot_cold E w)) = d_area (dv w)" and "d_flash (dv (sys_reboot_cold E w)) = d_flash (dv w)"
  using assms by (auto simp: boot_spec_def) (metis prod.collapse)

lemma storage_step_refl [simp]: "storage_step K d d"
  unfolding storage_step_def
  by (rule exI [of _ "d_files d"], rule exI [of _ "d_flash d (PM_ID_littlefs_storage1 K)"]) (simp add: set_flash_def)

lemma storage_step_trans [trans]:
  "storage_step K d d' \<Longrightarrow> storage_step K d' d'' \<Longrightarrow> storage_step K d d''"
  by (fastforce simp: storage_step_def set_flash_def)

lemma storage_step_frame [frame]:
  assumes "storage_step K d d'"
  shows "d_fds d' = d_fds d" "d_area d' = d_area d"
    "j \<noteq> PM_ID_littlefs_storage1 K \<Longrightarrow> d_flash d' j = d_flash d j"
    "length (d_flash d' j) = length (d_flash d j)"
  using assms by (auto simp: storage_step_def)

lemma btldr_fs_mount_answer [spec]:
  assumes fl: "flash_spec rel dv E" and boot: "boot_spec dv K E" and run: "btldr_fs_mount K E s = (r, s')"
  shows "storage_step K (sdev dv s) (sdev dv s')"
proof -
  let ?mp = "RUUVI_FW_UPDATE_MOUNT_POINT K"
  have erase: "storage_step K (sdev dv t) (sdev dv t')" if er: "btldr_fs_flash_erase K E t = (b, t')" for t t' b
  proof -
    obtain rc fa t1 where op: "on_world (flash_area_open E (PM_ID_littlefs_storage1 K)) t = ((rc, fa), t1)"
      by (metis prod.exhaust)
    obtain rc2 t2 where ft: "on_world (flash_area_flatten E fa 0 (unat (fa_size fa))) t1 = (rc2, t2)"
      by (metis prod.exhaust)
    have o: "sdev dv t1 = sdev dv t" "rc = 0 \<Longrightarrow> d_area (sdev dv t) (PM_ID_littlefs_storage1 K) = Some fa"
      using flash_specD(1) [OF fl] on_worldD(1) [OF op] unfolding flash_open_spec_def by blast+
    have le: "rc \<le> 0"
      by (rule boot_specD(5) [OF boot on_worldD(1) [OF op]])
    have cl: "dv (flash_area_close E fa w) = dv w" for w
      using flash_specD(3) [OF fl] by (simp add: flash_close_spec_def)
    show ?thesis
    proof (cases "rc = 0")
      case True
      then have "storage_step K (sdev dv t) (sdev dv t2)"
        using boot_specD(4) [OF boot on_worldD(1) [OF ft]] o by simp
      then show ?thesis
        using er True cl by (auto simp: btldr_fs_flash_erase_def op ft split: if_splits)
    next
      case False
      then show ?thesis
        using er o le by (simp add: btldr_fs_flash_erase_def op)
    qed
  qed
  obtain rc s1 where mt: "on_world (fs_mount E ?mp) s = (rc, s1)"
    by (metis prod.exhaust)
  obtain rc2 s2 where st: "on_world (fs_statvfs E ?mp) s1 = (rc2, s2)"
    by (metis prod.exhaust)
  have a: "storage_step K (sdev dv s) (sdev dv s1)" "sdev dv s2 = sdev dv s1"
    by (rule boot_specD(1) [OF boot on_worldD(1) [OF mt]], rule boot_specD(2) [OF boot on_worldD(1) [OF st]])
  show ?thesis
  proof (cases "rc = 0")
    case True
    then show ?thesis
      using run a by (auto simp: btldr_fs_mount_def mt st split: if_splits)
  next
    case False
    then have "s' = snd (btldr_fs_flash_erase K E s1)"
      using run by (simp add: btldr_fs_mount_def mt)
    then show ?thesis
      using a(1) erase [OF prod.collapse [symmetric], of s1] storage_step_trans by blast
  qed
qed

text \<open>A file system that mounts shows the files that were there; a reboot keeps them.\<close>

definition files_persist :: "('w \<Rightarrow> dev) \<Rightarrow> 'w os \<Rightarrow> bool" where
  "files_persist dv E \<longleftrightarrow>
     (\<forall>p w w'. fs_mount E p w = (0, w') \<longrightarrow> d_files (dv w') = d_files (dv w))
     \<and> (\<forall>w. d_files (dv (sys_reboot_cold E w)) = d_files (dv w))"

lemma mount_keeps_files:
  assumes "boot_spec dv K E" and "files_persist dv E" and "btldr_fs_mount K E s = (True, s')"
  shows "d_files (sdev dv s') = d_files (sdev dv s)" and "d_area (sdev dv s') = d_area (sdev dv s)"
proof -
  let ?mp = "RUUVI_FW_UPDATE_MOUNT_POINT K"
  obtain rc s1 where mt: "on_world (fs_mount E ?mp) s = (rc, s1)"
    by (metis prod.exhaust)
  obtain rc2 s2 where st: "on_world (fs_statvfs E ?mp) s1 = (rc2, s2)"
    by (metis prod.exhaust)
  have "rc = 0" "s' = s2"
    using assms(3) by (auto simp: btldr_fs_mount_def mt st split: if_splits)
  moreover have "storage_step K (sdev dv s) (sdev dv s1)" "sdev dv s2 = sdev dv s1"
    by (rule boot_specD(1) [OF assms(1) on_worldD(1) [OF mt]], rule boot_specD(2) [OF assms(1) on_worldD(1) [OF st]])
  ultimately show "d_files (sdev dv s') = d_files (sdev dv s)" and "d_area (sdev dv s') = d_area (sdev dv s)"
    using assms(2) on_worldD(1) [OF mt] storage_step_frame(2) unfolding files_persist_def by metis+
qed

lemma mcuboot_fw_update_run [spec]:
  assumes plat: "fw_platform rel dv E A C" and inv: "invalidate_spec dv E" and boot: "boot_spec dv K E"
    and ok: "fw_ok K s" and wf: "hw_rev_wf hr"
  obtains e d1 d2 t where "mcuboot_fw_update A C K E slot hr s = Some e"
    and "storage_step K (sdev dv s) d1" and "update_run rel dv A C K E hr t d1 d2" and "subseq t (update_plan K slot)"
    and "case e of
        Returned s' \<Rightarrow> storage_step K d2 (sdev dv s') \<and> \<not> writes t \<and> fw_ok K s'
      | Rebooted s' \<Rightarrow> d_area (sdev dv s') = d_area d2 \<and> d_flash (sdev dv s') = d_flash d2
          \<and> (installs t \<or> pending_after rel dv A C K E hr slot d1)
          \<and> (files_persist dv E \<longrightarrow> d_files d1 = d_files (sdev dv s) \<and> d_files (sdev dv s') = d_files d2)"
proof -
  obtain m s1 where mt: "btldr_fs_mount K E s = (m, s1)"
    by (metis prod.exhaust)
  have st: "storage_step K (sdev dv s) (sdev dv s1)" and ok1: "fw_ok K s1"
    using btldr_fs_mount_answer [OF fw_platformD(2) [OF plat] boot mt] ok fw_ok_kept [OF btldr_kept_calls(3) [OF mt]]
    by simp_all
  show thesis
  proof (cases m)
    case False
    then have "mcuboot_fw_update A C K E slot hr s = Some (Returned s1)"
      by (simp add: mcuboot_fw_update_def mt)
    from that [OF this st run_refl] show thesis
      using ok1 by (simp add: writes_def)
  next
    case True
    obtain r s2 t where c: "check_updates_on_fs A C K E slot hr s1 = Some (r, s2)" "fw_ok K s2"
        "update_run rel dv A C K E hr t (sdev dv s1) (sdev dv s2)" "subseq t (update_plan K slot)"
        "writes t \<longrightarrow> r" "r \<longrightarrow> installs t \<or> pending_after rel dv A C K E hr slot (sdev dv s1)"
      using check_updates_on_fs_run [OF plat inv ok1 wf, of slot] by (elim exE conjE) (rule that; assumption)
    show thesis
    proof (cases r)
      case r: True
      have e: "mcuboot_fw_update A C K E slot hr s = Some (reboot_cold E s2)"
        using True r c(1) by (simp add: mcuboot_fw_update_def mt)
      have "dv (k_msleep E 500 (world s2)) = sdev dv s2"
        using fw_platformD(3) [OF plat] by (simp add: query_spec_def)
      then show thesis
        using that [OF e st c(3,4)] c(6) r mount_keeps_files(1) [OF boot _ mt [unfolded iffD2 [OF eq_True True]]]
        by (simp add: reboot_cold_def boot_specD(6,7) [OF boot] Let_def files_persist_def)
    next
      case False
      have e: "mcuboot_fw_update A C K E slot hr s = Some (Returned (btldr_fs_unmount K E s2))"
        using True False c(1) by (simp add: mcuboot_fw_update_def mt)
      have "storage_step K (sdev dv s2) (sdev dv (btldr_fs_unmount K E s2))"
        using boot_specD(3) [OF boot] by (auto simp: btldr_fs_unmount_def on_world_def split: prod.split)
      moreover have "fw_ok K (btldr_fs_unmount K E s2)"
        using c(2) fw_ok_kept [OF btldr_kept_calls(4)] by blast
      ultimately show thesis
        using that [OF e st c(3,4)] c(5) False by simp
    qed
  qed
qed

text \<open>The state in which a call ended, and what the plan contains.\<close>

fun exit_state :: "'s exit_t \<Rightarrow> 's" where
  "exit_state (Returned s) = s"
| "exit_state (Rebooted s) = s"

definition areas_distinct :: "config \<Rightarrow> bool" where
  "areas_distinct K \<longleftrightarrow> distinct [PM_ID_s0 K, PM_ID_s1 K, PM_ID_mcuboot_secondary K, PM_ID_mcuboot_primary K,
     PM_ID_littlefs_storage1 K]"

text \<open>The file, the area and the kind of signature that the plan of a slot names.\<close>

definition plan_targets :: "config \<Rightarrow> slot_id_t \<Rightarrow> (string \<times> fa_id_t \<times> bool) set" where
  "plan_targets K slot =
     {if slot = 0 then (RUUVI_FW_MCUBOOT1_FILE_NAME K, PM_ID_s1 K, True)
      else (RUUVI_FW_MCUBOOT0_FILE_NAME K, PM_ID_s0 K, True),
      (RUUVI_FW_LOADER_FILE_NAME K, PM_ID_mcuboot_secondary K, False),
      (RUUVI_FW_APP_FILE_NAME K, PM_ID_mcuboot_primary K, False)}"

lemma plan_actions:
  "Install n i b0 \<in> set (update_plan K slot) \<longleftrightarrow> (n, i, b0) \<in> plan_targets K slot"
  "Invalidate n i \<in> set (update_plan K slot) \<longleftrightarrow> slot = 0 \<and> n = own_file K slot \<and> i = own_area K slot"
  by (auto simp: update_plan_def plan_targets_def own_file_def own_area_def)

lemma plan_target_unique:
  assumes "areas_distinct K" and "(n, i, b0) \<in> plan_targets K slot"
  shows "(m, i, c0) \<in> plan_targets K slot \<longleftrightarrow> m = n \<and> c0 = b0" and "i \<noteq> own_area K slot"
    and "i \<noteq> PM_ID_littlefs_storage1 K" and "i \<in> update_areas K"
  using assms unfolding areas_distinct_def plan_targets_def own_area_def update_areas_def
  by (cases "slot = 0"; simp; elim disjE conjE; simp)+

text \<open>Every partition is the target of one action of a plan at most.\<close>

lemma planned_once:
  assumes K: "areas_distinct K" and sub: "subseq t (update_plan K slot)"
  shows "length (filter (writes_to j) t) \<le> 1"
proof -
  have "length (filter (writes_to j) (update_plan K slot)) \<le> 1"
    using K unfolding areas_distinct_def update_plan_def own_area_def by auto
  moreover have "length (filter (writes_to j) t) \<le> length (filter (writes_to j) (update_plan K slot))"
    by (rule list_emb_length) (rule subseq_filter [OF sub])
  ultimately show ?thesis
    by simp
qed

text \<open>
  The contents \<open>fl\<close> of the area \<open>i\<close>, which differ from those on the device \<open>d\<close>, come from the update file \<open>n\<close>
  of \<open>d\<close>: that file was accepted, on a device that shows the same file and the same old contents of the
  area, and \<open>fl\<close> is what its copy left.
\<close>

definition installed_from ::
  "bool \<Rightarrow> ('w \<Rightarrow> dev) \<Rightarrow> image_abi \<Rightarrow> 'c crypto \<Rightarrow> config \<Rightarrow> 'w os \<Rightarrow> fw_image_hw_rev_t
   \<Rightarrow> string \<Rightarrow> fa_id_t \<Rightarrow> bool \<Rightarrow> dev \<Rightarrow> byte list \<Rightarrow> bool"
where
  "installed_from rel dv A C K E hr n i b0 d fl \<longleftrightarrow>
     fl \<noteq> d_flash d i
     \<and> (\<exists>bs d1. d_files d (btldr_path K n) = Some bs
          \<and> d_files d1 (btldr_path K n) = Some bs \<and> d_area d1 = d_area d \<and> d_flash d1 i = d_flash d i
          \<and> install_ok rel dv A C K E hr b0 i bs d1 \<and> copied rel dv E d i bs fl)"

lemma installed_from_same:
  assumes "installed_from rel dv A C K E hr n i b0 d fl"
    and "d_files d' (btldr_path K n) = d_files d (btldr_path K n)" and "d_area d' = d_area d" and "d_flash d' i = d_flash d i"
  shows "installed_from rel dv A C K E hr n i b0 d' fl"
  using assms copied_same [of rel dv E d i _ fl d'] unfolding installed_from_def by metis

text \<open>On a reliable platform it is the file, padded, for a partition that is a multiple of the write block.\<close>

lemma installed_from_whole:
  assumes "installed_from True dv A C K E hr n i b0 d fl" and "4 dvd length (d_flash d i)"
  obtains bs where "d_files d (btldr_path K n) = Some bs"
    and "fl = pad4 bs @ replicate (length (d_flash d i) - length (pad4 bs)) 0xFF"
proof -
  obtain bs where bs: "d_files d (btldr_path K n) = Some bs" "copied True dv E d i bs fl" "fl \<noteq> d_flash d i"
    using assms(1) unfolding installed_from_def by blast
  then have "length bs \<le> length (d_flash d i)"
    by (auto simp: copied_def Let_def split: if_splits)
  then show thesis
    using that bs copied_whole [OF bs(2) _ _ assms(2)] by blast
qed

lemma planned_run_contents:
  assumes K: "areas_distinct K" and run: "update_run rel dv A C K E hr t d1 d2" and sub: "subseq t (update_plan K slot)"
  shows "(n, i, b0) \<in> plan_targets K slot \<Longrightarrow> d_flash d2 i = d_flash d1 i
      \<or> installed_from rel dv A C K E hr n i b0 d1 (d_flash d2 i)"
    and "j \<notin> update_areas K \<Longrightarrow> d_flash d2 j = d_flash d1 j"
    and "d_flash d2 (own_area K slot) = d_flash d1 (own_area K slot)
      \<or> slot = 0 \<and> (\<exists>n. Invalidate n (own_area K slot) \<in> set t)
        \<and> pending rel A K E hr (own_file K slot) (own_area K slot) d1
        \<and> invalidated dv E (own_area K slot) d1 (d_flash d2 (own_area K slot))"
proof -
  have acts: "Install n i b0 \<in> set t \<Longrightarrow> (n, i, b0) \<in> plan_targets K slot"
    "Invalidate n i \<in> set t \<Longrightarrow> slot = 0 \<and> n = own_file K slot \<and> i = own_area K slot" for n i b0
    using subseq_set [OF sub] plan_actions by blast+
  have own: "own_area K slot \<in> update_areas K"
    by (simp add: own_area_def update_areas_def)
  note once = planned_once [OF K sub]
  show "d_flash d2 i = d_flash d1 i \<or> installed_from rel dv A C K E hr n i b0 d1 (d_flash d2 i)"
    if tgt: "(n, i, b0) \<in> plan_targets K slot"
  proof (cases rule: update_run_written [OF run once [of i], case_names kept written])
    case (written past a e1 e2)
    have "a \<noteq> Invalidate m i" for m
      using acts(2) plan_target_unique(2) [OF K tgt] written(1) by blast
    then obtain m c where "a = Install m i c"
      using written(2) by (cases a) auto
    then have a: "a = Install n i b0"
      using acts(1) plan_target_unique(1) [OF K tgt] written(1) by blast
    obtain bs fl where "d_files e1 (btldr_path K n) = Some bs" "install_ok rel dv A C K E hr b0 i bs e1"
        "copied rel dv E e1 i bs fl" "d_flash d2 i = fl"
      using written(4,6) unfolding a update_step_simps by auto
    moreover have "d_files d1 (btldr_path K n) = Some bs" "d_area e1 = d_area d1"
      using update_run_frame(2,4) [OF written(3)] calculation(1) by (metis option.distinct(1))+
    moreover have "copied rel dv E d1 i bs fl"
      using copied_same [OF calculation(3)] written(5) by simp
    ultimately show ?thesis
      using written(5) unfolding installed_from_def by blast
  qed simp
  show "d_flash d2 j = d_flash d1 j" if j: "j \<notin> update_areas K"
  proof (rule update_run_untouched [OF run])
    have "Install m j c \<notin> set t" and "Invalidate m j \<notin> set t" for m c
      using acts own plan_target_unique(4) [OF K] j by blast+
    then show "\<forall>a\<in>set t. \<not> writes_to j a"
      unfolding writes_to_iff by blast
  qed
  show "d_flash d2 (own_area K slot) = d_flash d1 (own_area K slot)
      \<or> slot = 0 \<and> (\<exists>n. Invalidate n (own_area K slot) \<in> set t)
        \<and> pending rel A K E hr (own_file K slot) (own_area K slot) d1
        \<and> invalidated dv E (own_area K slot) d1 (d_flash d2 (own_area K slot))"
  proof (cases rule: update_run_written [OF run once [of "own_area K slot"], case_names kept written])
    case (written past a e1 e2)
    let ?i = "own_area K slot"
    have "a \<noteq> Install m ?i c" for m c
      using acts(1) plan_target_unique(2) [OF K] written(1) by blast
    then obtain m where a: "a = Invalidate m ?i"
      using written(2) by (cases a) auto
    then have m: "slot = 0" "m = own_file K slot"
      using acts(2) written(1) by blast+
    obtain bs fl where st: "d_files e1 (btldr_path K m) = Some bs" "mcuboot_update_ok rel A K E hr ?i bs e1"
        "fl = d_flash e1 ?i \<or> invalidated dv E ?i e1 fl" "d_flash d2 ?i = fl"
      using written(4,6) unfolding a update_step_simps by (elim exE conjE) (rule that; simp)
    have "pending rel A K E hr m ?i e1"
      using st(1,2) unfolding pending_def by blast
    then have "pending rel A K E hr m ?i d1"
      by (rule pending_before [OF written(3)])
    moreover have "invalidated dv E ?i d1 fl" if "invalidated dv E ?i e1 fl"
      by (rule invalidated_same [OF that]) (use written(5) update_run_frame(2) [OF written(3)] in simp_all)
    ultimately show ?thesis
      using st(3,4) written(1,5) a m by auto
  qed simp
qed

text \<open>A boot that goes on has not written outside the file system.\<close>

lemma mcuboot_fw_update_returned:
  assumes "fw_platform rel dv E A C" and "invalidate_spec dv E" and "boot_spec dv K E"
    and "fw_ok K s" and "hw_rev_wf hr"
    and "mcuboot_fw_update A C K E slot hr s = Some (Returned s')"
  shows "d_fds (sdev dv s') = d_fds (sdev dv s)" and "d_area (sdev dv s') = d_area (sdev dv s)"
    and "j \<noteq> PM_ID_littlefs_storage1 K \<Longrightarrow> d_flash (sdev dv s') j = d_flash (sdev dv s) j"
proof -
  obtain e d1 d2 t where e: "mcuboot_fw_update A C K E slot hr s = Some e" and d1: "storage_step K (sdev dv s) d1"
    and t: "update_run rel dv A C K E hr t d1 d2"
    and fin: "case e of
        Returned s' \<Rightarrow> storage_step K d2 (sdev dv s') \<and> \<not> writes t \<and> fw_ok K s'
      | Rebooted s' \<Rightarrow> d_area (sdev dv s') = d_area d2 \<and> d_flash (sdev dv s') = d_flash d2
          \<and> (installs t \<or> pending_after rel dv A C K E hr slot d1)
          \<and> (files_persist dv E \<longrightarrow> d_files d1 = d_files (sdev dv s) \<and> d_files (sdev dv s') = d_files d2)"
    by (rule mcuboot_fw_update_run [OF assms(1-5)])
  have f: "storage_step K d2 (sdev dv s')" "\<not> writes t"
    using fin e assms(6) by auto
  have "d_flash d2 j = d_flash d1 j" for j
    using update_run_untouched [OF t no_writes_to [OF f(2)]] .
  then show "d_fds (sdev dv s') = d_fds (sdev dv s)" and "d_area (sdev dv s') = d_area (sdev dv s)"
    and "j \<noteq> PM_ID_littlefs_storage1 K \<Longrightarrow> d_flash (sdev dv s') j = d_flash (sdev dv s) j"
    using storage_step_frame [OF d1] storage_step_frame [OF f(1)] update_run_frame(1,2) [OF t] by simp_all
qed

text \<open>Without update files there is nothing to do.\<close>

lemma plan_names:
  "Install n i b0 \<in> set (update_plan K slot) \<Longrightarrow> n \<in> update_files K"
  "Invalidate n i \<in> set (update_plan K slot) \<Longrightarrow> n \<in> update_files K"
  "Remove n \<in> set (update_plan K slot) \<Longrightarrow> n \<in> update_files K"
  by (auto simp: update_plan_def update_files_def split: if_splits)

lemma idle_run:
  assumes "update_run rel dv A C K E hr t d d'" and "subseq t (update_plan K slot)"
    and "\<forall>n\<in>update_files K. d_files d (btldr_path K n) = None"
  shows "\<not> installs t \<and> d' = d"
proof -
  have "set t \<subseteq> set (update_plan K slot)"
    by (rule subseq_set [OF assms(2)])
  then show ?thesis
    using assms(1,3)
  proof (induction t arbitrary: d)
    case Nil
    then show ?case
      by (auto elim: update_run_NilE)
  next
    case (Cons a t)
    obtain d1 where st: "update_step rel dv A C K E hr a d d1" and rest: "update_run rel dv A C K E hr t d1 d'"
      using Cons.prems(2) by (auto elim: update_run_ConsE)
    have a: "a \<in> set (update_plan K slot)"
      using Cons.prems(1) by simp
    from st obtain n where n: "a = Remove n" "d1 = file_gone K n d"
      using plan_names(1,2) a Cons.prems(3) by cases fastforce+
    then have "n \<in> update_files K"
      using plan_names(3) a by simp
    then have "d_files d (btldr_path K n) = None"
      using Cons.prems(3) by blast
    then have "d1 = d"
      using n(2) file_gone_absent by simp
    then show ?case
      using Cons.IH [of d] Cons.prems rest n(1) by (auto simp: installs_def)
  qed
qed

lemma idle_pending:
  assumes "\<forall>n\<in>update_files K. d_files d (btldr_path K n) = None"
  shows "\<not> pending_after rel dv A C K E hr slot d"
proof
  assume "pending_after rel dv A C K E hr slot d"
  then have "pending rel A K E hr (own_file K slot) (own_area K slot) d"
    unfolding pending_after_def using idle_run [OF _ _ assms] by blast
  moreover have "own_file K slot \<in> update_files K"
    by (simp add: own_file_def update_files_def)
  ultimately show False
    using assms by (auto simp: pending_def)
qed

text \<open>All that a boot's update step may have done to the partitions and to the files.\<close>

lemma mcuboot_fw_update_effect:
  assumes "fw_platform rel dv E A C" and "invalidate_spec dv E" and "boot_spec dv K E" and keep: "files_persist dv E"
    and "fw_ok K s" and "hw_rev_wf hr" and K: "areas_distinct K"
  obtains e where "mcuboot_fw_update A C K E slot hr s = Some e"
    and "\<And>j. j \<notin> update_areas K \<Longrightarrow> j \<noteq> PM_ID_littlefs_storage1 K
      \<Longrightarrow> d_flash (sdev dv (exit_state e)) j = d_flash (sdev dv s) j"
    and "d_flash (sdev dv (exit_state e)) (own_area K slot) = d_flash (sdev dv s) (own_area K slot)
      \<or> slot = 0 \<and> (\<exists>s'. e = Rebooted s') \<and> pending rel A K E hr (own_file K slot) (own_area K slot) (sdev dv s)
        \<and> invalidated dv E (own_area K slot) (sdev dv s) (d_flash (sdev dv (exit_state e)) (own_area K slot))"
    and "\<And>n i b0. (n, i, b0) \<in> plan_targets K slot \<Longrightarrow> d_flash (sdev dv (exit_state e)) i = d_flash (sdev dv s) i
      \<or> (\<exists>s'. e = Rebooted s')
        \<and> installed_from rel dv A C K E hr n i b0 (sdev dv s) (d_flash (sdev dv (exit_state e)) i)"
    and "d_area (sdev dv (exit_state e)) = d_area (sdev dv s)"
    and "\<And>j. length (d_flash (sdev dv (exit_state e)) j) = length (d_flash (sdev dv s) j)"
    and "\<And>s' p. e = Rebooted s' \<Longrightarrow> d_files (sdev dv s') p = d_files (sdev dv s) p \<or> d_files (sdev dv s') p = None"
proof -
  obtain e d1 d2 t where e: "mcuboot_fw_update A C K E slot hr s = Some e" and d1: "storage_step K (sdev dv s) d1"
    and t: "update_run rel dv A C K E hr t d1 d2" "subseq t (update_plan K slot)"
    and fin: "case e of
        Returned s' \<Rightarrow> storage_step K d2 (sdev dv s') \<and> \<not> writes t \<and> fw_ok K s'
      | Rebooted s' \<Rightarrow> d_area (sdev dv s') = d_area d2 \<and> d_flash (sdev dv s') = d_flash d2
          \<and> (installs t \<or> pending_after rel dv A C K E hr slot d1)
          \<and> (files_persist dv E \<longrightarrow> d_files d1 = d_files (sdev dv s) \<and> d_files (sdev dv s') = d_files d2)"
    by (rule mcuboot_fw_update_run [OF assms(1-3,5,6)])
  have area1: "d_area d1 = d_area (sdev dv s)"
    by (rule storage_step_frame(2) [OF d1])
  have len: "length (d_flash (sdev dv (exit_state e)) j) = length (d_flash (sdev dv s) j)" for j
    using storage_step_frame(4) [OF d1] update_run_frame(3) [OF t(1)] fin
    by (cases e) (auto dest: storage_step_frame(4))
  have own: "own_area K slot \<noteq> PM_ID_littlefs_storage1 K"
    using K by (auto simp: areas_distinct_def own_area_def)
  show thesis
  proof (cases e)
    case (Returned s')
    then have f: "storage_step K d2 (sdev dv s')" "\<not> writes t"
      using fin by auto
    have "j \<noteq> PM_ID_littlefs_storage1 K \<Longrightarrow> d_flash (sdev dv s') j = d_flash (sdev dv s) j" for j
      using update_run_untouched [OF t(1) no_writes_to [OF f(2)]] storage_step_frame(3) [OF d1] storage_step_frame(3) [OF f(1)]
      by simp
    moreover have "d_area (sdev dv s') = d_area (sdev dv s)"
      using storage_step_frame(2) [OF f(1)] update_run_frame(2) [OF t(1)] area1 by simp
    ultimately show thesis
      using e own plan_target_unique(3) [OF K] len unfolding Returned by (intro that [OF e [unfolded Returned]]) auto
  next
    case (Rebooted s')
    then have f: "d_area (sdev dv s') = d_area d2" "d_flash (sdev dv s') = d_flash d2"
        "d_files d1 = d_files (sdev dv s)" "d_files (sdev dv s') = d_files d2"
      using fin keep by auto
    have flash1: "j \<noteq> PM_ID_littlefs_storage1 K \<Longrightarrow> d_flash d1 j = d_flash (sdev dv s) j" for j
      by (rule storage_step_frame(3) [OF d1])
    note cont = planned_run_contents [OF K t, folded f(2)]
    show thesis
    proof (rule that [OF e])
      show "d_area (sdev dv (exit_state e)) = d_area (sdev dv s)"
        using f(1) area1 update_run_frame(2) [OF t(1)] by (simp add: Rebooted)
      show "d_flash (sdev dv (exit_state e)) j = d_flash (sdev dv s) j"
        if "j \<notin> update_areas K" and "j \<noteq> PM_ID_littlefs_storage1 K" for j
        using cont(2) [OF that(1)] flash1 [OF that(2)] by (simp add: Rebooted)
      show "length (d_flash (sdev dv (exit_state e)) j) = length (d_flash (sdev dv s) j)" for j
        by (rule len)
      have "pending rel A K E hr (own_file K slot) (own_area K slot) (sdev dv s)"
        if "pending rel A K E hr (own_file K slot) (own_area K slot) d1"
        by (rule pending_same [OF that]) (simp_all add: area1 f(3))
      moreover have "invalidated dv E (own_area K slot) (sdev dv s) fl" if "invalidated dv E (own_area K slot) d1 fl" for fl
        by (rule invalidated_same [OF that]) (simp_all add: area1 flash1 [OF own])
      ultimately show "d_flash (sdev dv (exit_state e)) (own_area K slot) = d_flash (sdev dv s) (own_area K slot)
        \<or> slot = 0 \<and> (\<exists>s'. e = Rebooted s') \<and> pending rel A K E hr (own_file K slot) (own_area K slot) (sdev dv s)
          \<and> invalidated dv E (own_area K slot) (sdev dv s) (d_flash (sdev dv (exit_state e)) (own_area K slot))"
        using cont(3) flash1 [OF own] by (auto simp: Rebooted)
      show "d_flash (sdev dv (exit_state e)) i = d_flash (sdev dv s) i
        \<or> (\<exists>s'. e = Rebooted s')
          \<and> installed_from rel dv A C K E hr n i b0 (sdev dv s) (d_flash (sdev dv (exit_state e)) i)"
        if tgt: "(n, i, b0) \<in> plan_targets K slot" for n i b0
      proof -
        have i: "i \<noteq> PM_ID_littlefs_storage1 K"
          by (rule plan_target_unique(3) [OF K tgt])
        show ?thesis
          using cont(1) [OF tgt] flash1 [OF i] installed_from_same [of rel dv A C K E hr n i b0 d1 _ "sdev dv s"] area1 f(3)
          by (auto simp: Rebooted)
      qed
      show "d_files (sdev dv s'') p = d_files (sdev dv s) p \<or> d_files (sdev dv s'') p = None" if "e = Rebooted s''" for s'' p
        using that update_run_frame(4) [OF t(1), of p] f(3,4) by (simp add: Rebooted)
    qed
  qed
qed

text \<open>
  An accepted update of the running secondary slot asks for a reboot and changes nothing that
  would make the next boot take another course: the file is still there and no partition differs.
  (The primary slot is invalidated in the same situation.) Such a device reboots forever.
\<close>

lemma pending_secondary_update_only_reboots:
  assumes "fw_platform rel dv E A C" and "fw_ok K s" and "hw_rev_wf hr" and "slot \<noteq> 0"
    and "check_file_and_update A C K E (RUUVI_FW_MCUBOOT0_FILE_NAME K) (PM_ID_s0 K) hr True s = Some (False, s1)"
    and "check_update_for_mcuboot A C K E (RUUVI_FW_MCUBOOT1_FILE_NAME K) (PM_ID_s1 K) hr s1 = Some (True, s2)"
  shows "check_updates_on_fs A C K E slot hr s = Some (True, s2)
    \<and> d_flash (sdev dv s2) = d_flash (sdev dv s)
    \<and> d_files (sdev dv s2) (btldr_path K (RUUVI_FW_MCUBOOT1_FILE_NAME K)) \<noteq> None
    \<and> (\<forall>p. p \<noteq> btldr_path K (RUUVI_FW_MCUBOOT0_FILE_NAME K) \<longrightarrow> d_files (sdev dv s2) p = d_files (sdev dv s) p)"
proof -
  have s1: "removed rel K (RUUVI_FW_MCUBOOT0_FILE_NAME K) (sdev dv s) (sdev dv s1) \<or> sdev dv s1 = sdev dv s"
    and ok1: "fw_ok K s1"
    using check_file_and_update_answer [OF assms(1-3), of "RUUVI_FW_MCUBOOT0_FILE_NAME K" "PM_ID_s0 K" True] assms(5)
    by auto
  have s2: "sdev dv s2 = sdev dv s1" "d_files (sdev dv s1) (btldr_path K (RUUVI_FW_MCUBOOT1_FILE_NAME K)) \<noteq> None"
    using check_update_for_mcuboot_answer [OF assms(1) ok1 assms(3), of "RUUVI_FW_MCUBOOT1_FILE_NAME K" "PM_ID_s1 K"] assms(6)
    by auto
  have "check_updates_on_fs A C K E slot hr s = Some (True, s2)"
    using assms(4-6) by (simp add: check_updates_on_fs_def)
  then show ?thesis
    using s1 s2 by (auto simp: removed_def)
qed

subsection \<open>The device in memory keeps what is documented\<close>

lemma demo_invalidate_spec: "invalidate_spec ram_view (ram_os demo_abi demo_config)"
  unfolding invalidate_spec_def
proof (intro allI impI)
  fix i fa buf and w :: ram and p info
  show "\<exists>fl. length fl = length (d_flash (ram_view w) i)
      \<and> ram_view (fw_info_invalidate (ram_os demo_abi demo_config) p w) = set_flash i fl (ram_view w)"
    by (rule exI [of _ "d_flash (ram_view w) i"]) (simp add: ram_os_def set_flash_def)
qed

lemma demo_boot_spec: "boot_spec ram_view demo_config (ram_os demo_abi demo_config)"
proof -
  let ?st = "PM_ID_littlefs_storage1 demo_config"
  have "storage_step demo_config (ram_view w) (ram_view w')"
    if run: "ram_fa_erase fa off n w = (rc, w')" and fa: "d_area (ram_view w) ?st = Some fa" for fa off n rc and w w' :: ram
  proof -
    have id: "fa_id fa = ?st"
      using fa by (auto simp: ram_view_def split: option.splits if_splits)
    let ?fl = "d_flash (r_dev w) ?st"
    show ?thesis
    proof (cases "0 \<le> off \<and> nat off + n \<le> length ?fl")
      case True
      let ?new = "patch (nat off) (replicate n 0xFF) ?fl"
      have "ram_view w' = set_flash ?st ?new (ram_view w)" "length ?new = length ?fl"
        using run True id by (auto simp: ram_fa_erase_def Let_def)
      then show ?thesis
        unfolding storage_step_def by (intro exI [of _ "d_files (ram_view w)"] exI [of _ ?new]) simp
    next
      case False
      then have "w' = w"
        using run id by (auto simp: ram_fa_erase_def Let_def split: if_splits)
      then show ?thesis
        by simp
    qed
  qed
  then show ?thesis
    by (auto simp: boot_spec_def ram_os_def ram_fa_open_def split: option.splits)
qed

lemma demo_areas_distinct: "areas_distinct demo_config"
  by (simp add: areas_distinct_def demo_config_def)

subsection \<open>Properties\<close>

text \<open>
  C10. Handling one update file returns, whatever the platform does. It reports success only when the
  file existed, carried the signature asked for, was made for this hardware, and was not older than
  the image in the destination, and its copy was attempted: no other partition has changed, a file that
  is longer than the destination has changed nothing there, and on a reliable platform a file that fits,
  into a destination that is a multiple of the write block, fills it with its padded contents and is
  removed. Elsewhere \<open>copied\<close> says what a copy that failed leaves, and the file may stay where it
  could not be unlinked: success is reported all the same. When it reports failure no partition has
  changed, and on a reliable platform the file is gone or the destination does not exist.
\<close>

theorem check_file_and_update_installs_checked:
  assumes "fw_platform rel dv E A C" and "fw_ok K s" and "hw_rev_wf hr"
  shows "\<exists>r s'. check_file_and_update A C K E n i hr b0 s = Some (r, s') \<and> fw_ok K s'
    \<and> (if r then \<exists>bs fl. d_files (sdev dv s) (btldr_path K n) = Some bs
            \<and> install_ok rel dv A C K E hr b0 i bs (sdev dv s) \<and> copied rel dv E (sdev dv s) i bs fl
            \<and> removed rel K n (set_flash i fl (sdev dv s)) (sdev dv s')
            \<and> (length (d_flash (sdev dv s) i) < length bs \<longrightarrow> fl = d_flash (sdev dv s) i)
            \<and> (rel \<and> length bs \<le> length (d_flash (sdev dv s) i) \<and> 4 dvd length (d_flash (sdev dv s) i) \<longrightarrow>
                 sdev dv s' = file_gone K n (set_flash i
                   (pad4 bs @ replicate (length (d_flash (sdev dv s) i) - length (pad4 bs)) 0xFF) (sdev dv s)))
       else removed rel K n (sdev dv s) (sdev dv s')
            \<or> sdev dv s' = sdev dv s \<and> \<not> (rel \<and> d_area (sdev dv s) i \<noteq> None))"
proof -
  have small: "fl = d_flash d i" if "copied rel dv E d i bs fl" "length (d_flash d i) < length bs" for d bs fl
    using that by (simp add: copied_def Let_def split: if_splits)
  have whole: "d' = file_gone K n (set_flash i (pad4 bs @ replicate (length (d_flash d i) - length (pad4 bs)) 0xFF) d)"
    if "copied rel dv E d i bs fl" "removed rel K n (set_flash i fl d) d'" "d_files d (btldr_path K n) = Some bs"
      "rel \<and> length bs \<le> length (d_flash d i) \<and> 4 dvd length (d_flash d i)" for d bs fl d'
    using that copied_whole [OF that(1)] by (auto simp: removed_def)
  obtain r s' where run: "check_file_and_update A C K E n i hr b0 s = Some (r, s')" "fw_ok K s'"
    and res: "if r then \<exists>bs fl. d_files (sdev dv s) (btldr_path K n) = Some bs
            \<and> install_ok rel dv A C K E hr b0 i bs (sdev dv s) \<and> copied rel dv E (sdev dv s) i bs fl
            \<and> removed rel K n (set_flash i fl (sdev dv s)) (sdev dv s')
       else removed rel K n (sdev dv s) (sdev dv s')
            \<or> sdev dv s' = sdev dv s \<and> \<not> (rel \<and> d_area (sdev dv s) i \<noteq> None)"
    using check_file_and_update_answer [OF assms] by blast
  show ?thesis
  proof (cases r)
    case True
    then obtain bs fl where a: "d_files (sdev dv s) (btldr_path K n) = Some bs"
        "install_ok rel dv A C K E hr b0 i bs (sdev dv s)" "copied rel dv E (sdev dv s) i bs fl"
        "removed rel K n (set_flash i fl (sdev dv s)) (sdev dv s')"
      using res by auto
    have "\<exists>bs fl. d_files (sdev dv s) (btldr_path K n) = Some bs
        \<and> install_ok rel dv A C K E hr b0 i bs (sdev dv s) \<and> copied rel dv E (sdev dv s) i bs fl
        \<and> removed rel K n (set_flash i fl (sdev dv s)) (sdev dv s')
        \<and> (length (d_flash (sdev dv s) i) < length bs \<longrightarrow> fl = d_flash (sdev dv s) i)
        \<and> (rel \<and> length bs \<le> length (d_flash (sdev dv s) i) \<and> 4 dvd length (d_flash (sdev dv s) i) \<longrightarrow>
             sdev dv s' = file_gone K n (set_flash i
               (pad4 bs @ replicate (length (d_flash (sdev dv s) i) - length (pad4 bs)) 0xFF) (sdev dv s)))"
      using a small [OF a(3)] whole [OF a(3,4,1)] by (intro exI [of _ bs] exI [of _ fl] conjI impI) assumption+
    then show ?thesis
      using run True by (intro exI [of _ True] exI [of _ s']) simp
  next
    case False
    then show ?thesis
      using run res by (intro exI [of _ False] exI [of _ s']) simp
  qed
qed

theorem check_file_and_update_installs_checked_witness:
  "\<exists>s'. check_file_and_update demo_abi demo_crypto demo_config (ram_os demo_abi demo_config) ''ap'' 3 hw_rev_zero False
      update_fw = Some (True, s')
    \<and> d_flash (sdev ram_view s') 3 = pad4 update_image @ replicate 28 0xFF"
proof -
  have run: "\<exists>s'. check_file_and_update demo_abi demo_crypto demo_config (ram_os demo_abi demo_config) ''ap'' 3
      hw_rev_zero False update_fw = Some (True, s')"
    by (simp add: check_file_and_update_def check_file_def get_flash_area_address_and_size_def fw_info_find_in_file_def
        fw_info_check_in_file_def c_string_def check_downgrade_prevention_def load_image_header_def boot_version_cmp_def
        btldr_fs_unlink_file_def old_image_def fw_eval split: prod.split)
  have view: "sdev ram_view update_fw = r_dev update_ram"
    by (simp add: update_fw_def update_view)
  then have flash: "d_flash (sdev ram_view update_fw) 3 = old_image" "length old_image = 64" "length update_image = 35"
    by (simp_all add: update_ram_def old_image_def update_image_def)
  have pad: "length (pad4 update_image) = 36"
    by (simp add: pad4_def chunk_padding_def flash(3))
  obtain s' bs where s': "check_file_and_update demo_abi demo_crypto demo_config (ram_os demo_abi demo_config) ''ap'' 3
      hw_rev_zero False update_fw = Some (True, s')"
    and bs: "d_files (sdev ram_view update_fw) (btldr_path demo_config ''ap'') = Some bs"
    and fl: "length bs \<le> 64 \<longrightarrow> sdev ram_view s' = file_gone demo_config ''ap'' (set_flash 3
      (pad4 bs @ replicate (64 - length (pad4 bs)) 0xFF) (sdev ram_view update_fw))"
    using check_file_and_update_installs_checked [OF demo_fw_platform update_fw_ok hw_rev_wf_zero, of "''ap''" 3 False]
      run [simplified view] flash
    by (auto simp del: ram_view_frame)
  have "bs = update_image"
    using bs update_file by simp
  then have "d_flash (sdev ram_view s') 3 = pad4 update_image @ replicate 28 0xFF"
    using fl flash(3) pad by (simp add: file_gone_def del: ram_view_frame)
  then show ?thesis
    using s' by blast
qed

text \<open>
  C22. Checking an update of the running MCUboot slot writes no partition: either it is accepted, the
  device is unchanged and the file stays for the other slot to install, or the file is removed.
\<close>

theorem check_update_for_mcuboot_decides:
  assumes "fw_platform rel dv E A C" and "fw_ok K s" and "hw_rev_wf hr"
  shows "\<exists>r s'. check_update_for_mcuboot A C K E n i hr s = Some (r, s') \<and> fw_ok K s'
    \<and> (if r then sdev dv s' = sdev dv s
            \<and> (\<exists>bs. d_files (sdev dv s) (btldr_path K n) = Some bs \<and> mcuboot_update_ok rel A K E hr i bs (sdev dv s))
       else removed rel K n (sdev dv s) (sdev dv s')
            \<or> sdev dv s' = sdev dv s \<and> \<not> (rel \<and> d_area (sdev dv s) i \<noteq> None))"
  by (rule check_update_for_mcuboot_answer [OF assms])

theorem check_update_for_mcuboot_decides_witness:
  "\<exists>r s'. check_update_for_mcuboot demo_abi demo_crypto demo_config (ram_os demo_abi demo_config) ''ap'' 3 hw_rev_zero
      update_fw = Some (r, s')
    \<and> d_flash (sdev ram_view s') = d_flash (sdev ram_view update_fw)"
proof -
  obtain r s' where "check_update_for_mcuboot demo_abi demo_crypto demo_config (ram_os demo_abi demo_config) ''ap'' 3
      hw_rev_zero update_fw = Some (r, s')"
    and "if r then sdev ram_view s' = sdev ram_view update_fw
           \<and> (\<exists>bs. d_files (sdev ram_view update_fw) (btldr_path demo_config ''ap'') = Some bs
               \<and> mcuboot_update_ok True demo_abi demo_config (ram_os demo_abi demo_config) hw_rev_zero 3 bs
                   (sdev ram_view update_fw))
         else removed True demo_config ''ap'' (sdev ram_view update_fw) (sdev ram_view s')
            \<or> sdev ram_view s' = sdev ram_view update_fw \<and> \<not> (True \<and> d_area (sdev ram_view update_fw) 3 \<noteq> None)"
    using check_update_for_mcuboot_decides [OF demo_fw_platform update_fw_ok hw_rev_wf_zero, of "''ap''" 3] by blast
  then show ?thesis
    by (intro exI [of _ r] exI [of _ s']) (auto simp: removed_def simp del: ram_view_frame split: if_splits)
qed

text \<open>
  C9. Going through the update files returns, and is a run of the abstract machine that follows the
  plan of the running slot: every change of the device is one of the plan's actions, taken in the
  plan's order under its conditions. The result asks for a reboot whenever a partition was written,
  and otherwise only for an accepted update of the running slot itself.
\<close>

theorem check_updates_on_fs_follows_plan:
  assumes "fw_platform rel dv E A C" and "invalidate_spec dv E" and "fw_ok K s" and "hw_rev_wf hr"
  shows "\<exists>r s' t. check_updates_on_fs A C K E slot hr s = Some (r, s')
    \<and> update_run rel dv A C K E hr t (sdev dv s) (sdev dv s') \<and> subseq t (update_plan K slot)
    \<and> (writes t \<longrightarrow> r) \<and> (r \<longrightarrow> installs t \<or> pending_after rel dv A C K E hr slot (sdev dv s))"
  using check_updates_on_fs_run [OF assms, of slot] by (elim exE conjE) (intro exI conjI; assumption)

theorem check_updates_on_fs_follows_plan_witness:
  "\<exists>r s' t. check_updates_on_fs demo_abi demo_crypto demo_config (ram_os demo_abi demo_config) 0 hw_rev_zero update_fw
      = Some (r, s') \<and> subseq t (update_plan demo_config 0) \<and> (writes t \<longrightarrow> r)"
  using check_updates_on_fs_follows_plan [OF demo_fw_platform demo_invalidate_spec update_fw_ok hw_rev_wf_zero, of 0]
  by blast

text \<open>
  C16. Reboots for updates come to an end: on a reliable platform that has the four partitions, going
  through the update files either leaves an accepted update of the running slot for the other slot,
  or leaves no update file at all; and without update files nothing changes and no reboot is asked for.
\<close>

theorem check_updates_on_fs_progress:
  assumes "fw_platform True dv E A C" and "invalidate_spec dv E" and "fw_ok K s" and "hw_rev_wf hr"
    and "\<forall>i\<in>update_areas K. d_area (sdev dv s) i \<noteq> None"
  shows "\<exists>r s'. check_updates_on_fs A C K E slot hr s = Some (r, s')
    \<and> (r \<and> pending_after True dv A C K E hr slot (sdev dv s)
       \<or> (\<forall>n\<in>update_files K. d_files (sdev dv s') (btldr_path K n) = None))
    \<and> ((\<forall>n\<in>update_files K. d_files (sdev dv s) (btldr_path K n) = None) \<longrightarrow> \<not> r \<and> sdev dv s' = sdev dv s)"
proof -
  obtain r s' t where run: "check_updates_on_fs A C K E slot hr s = Some (r, s')"
    and t: "update_run True dv A C K E hr t (sdev dv s) (sdev dv s')" "subseq t (update_plan K slot)"
    and r: "r \<longrightarrow> installs t \<or> pending_after True dv A C K E hr slot (sdev dv s)"
    and left: "True \<and> (\<forall>i\<in>update_areas K. d_area (sdev dv s) i \<noteq> None) \<longrightarrow>
        r \<and> pending_after True dv A C K E hr slot (sdev dv s)
          \<and> d_files (sdev dv s') (btldr_path K (own_file K (1 - slot))) = None
        \<or> (\<forall>n\<in>update_files K. d_files (sdev dv s') (btldr_path K n) = None)"
    using check_updates_on_fs_run [OF assms(1-4), of slot] by (elim exE conjE) (rule that; assumption)
  have "\<not> r \<and> sdev dv s' = sdev dv s" if none: "\<forall>n\<in>update_files K. d_files (sdev dv s) (btldr_path K n) = None"
    using idle_run [OF t none] r idle_pending [OF none] by blast
  then show ?thesis
    using run left assms(5) by blast
qed

theorem check_updates_on_fs_progress_witness:
  "\<exists>r s'. check_updates_on_fs demo_abi demo_crypto demo_config (ram_os demo_abi demo_config) 0 hw_rev_zero update_fw
      = Some (r, s')
    \<and> (r \<or> (\<forall>n\<in>update_files demo_config. d_files (sdev ram_view s') (btldr_path demo_config n) = None))"
proof -
  have "\<forall>i\<in>update_areas demo_config. d_area (sdev ram_view update_fw) i \<noteq> None"
    by (simp add: update_fw_def update_view)
      (simp add: update_ram_def update_areas_def demo_config_def demo_area_def)
  from check_updates_on_fs_progress [OF demo_fw_platform demo_invalidate_spec update_fw_ok hw_rev_wf_zero this, of 0]
  show ?thesis
    by blast
qed

lemma demo_files_persist: "files_persist ram_view (ram_os demo_abi demo_config)"
  by (simp add: files_persist_def ram_os_def)

text \<open>
  C8. The update step of a boot returns or reboots, and protects what it must not write, whatever calls
  fail: partitions other than the four slots and the file system keep their contents, and so does the
  slot that is running. Only \<open>s0\<close> may differ, after a reboot: then there was an update file for it that
  the immutable bootloader accepts, and its contents are what \<open>fw_info_invalidate\<close> makes of the old ones.
\<close>

theorem mcuboot_fw_update_protects:
  assumes "fw_platform rel dv E A C" and "invalidate_spec dv E" and "boot_spec dv K E" and "files_persist dv E"
    and "fw_ok K s" and "hw_rev_wf hr" and "areas_distinct K"
  shows "\<exists>e. mcuboot_fw_update A C K E slot hr s = Some e
    \<and> (\<forall>j. j \<notin> update_areas K \<and> j \<noteq> PM_ID_littlefs_storage1 K
          \<longrightarrow> d_flash (sdev dv (exit_state e)) j = d_flash (sdev dv s) j)
    \<and> (d_flash (sdev dv (exit_state e)) (own_area K slot) = d_flash (sdev dv s) (own_area K slot)
       \<or> slot = 0 \<and> (\<exists>s'. e = Rebooted s') \<and> pending rel A K E hr (own_file K slot) (own_area K slot) (sdev dv s)
         \<and> invalidated dv E (own_area K slot) (sdev dv s) (d_flash (sdev dv (exit_state e)) (own_area K slot)))"
  by (rule mcuboot_fw_update_effect [OF assms, of slot]) (intro exI conjI allI impI; (assumption | elim conjE | blast))

theorem mcuboot_fw_update_protects_witness:
  "\<exists>e. mcuboot_fw_update demo_abi demo_crypto demo_config (ram_os demo_abi demo_config) 1 hw_rev_zero update_fw = Some e
    \<and> d_flash (sdev ram_view (exit_state e)) 2 = old_image"
proof -
  have "own_area demo_config 1 = 2" and "d_flash (sdev ram_view update_fw) 2 = old_image"
    by (simp_all add: own_area_def demo_config_def update_fw_def update_view update_ram_def)
  with mcuboot_fw_update_protects [OF demo_fw_platform demo_invalidate_spec demo_boot_spec demo_files_persist update_fw_ok
      hw_rev_wf_zero demo_areas_distinct, of 1]
  show ?thesis
    by auto
qed

text \<open>
  C4. After the update step every slot that the running slot may install into holds what it held
  before, or has been changed, before a reboot, by the copy of the update file that the plan names for
  it, as that file was when the step began. The file had been accepted: for application and loader
  as an authentic image that fits, for the other MCUboot slot by the immutable bootloader; for the
  right hardware, and not older than what it replaces. On a reliable platform, for a slot that is a
  multiple of the write block, the changed slot holds the whole file, padded; otherwise a copy that
  failed may have left a part of it, or what a failed call of the flash driver leaves.
\<close>

theorem mcuboot_fw_update_installs_accepted:
  assumes "fw_platform rel dv E A C" and "invalidate_spec dv E" and "boot_spec dv K E" and "files_persist dv E"
    and "fw_ok K s" and "hw_rev_wf hr" and "areas_distinct K"
  shows "\<exists>e. mcuboot_fw_update A C K E slot hr s = Some e
    \<and> (\<forall>(n, i, b0) \<in> plan_targets K slot.
         d_flash (sdev dv (exit_state e)) i = d_flash (sdev dv s) i
         \<or> (\<exists>s'. e = Rebooted s')
           \<and> installed_from rel dv A C K E hr n i b0 (sdev dv s) (d_flash (sdev dv (exit_state e)) i)
           \<and> (rel \<and> 4 dvd length (d_flash (sdev dv s) i) \<longrightarrow>
               (\<exists>bs. d_files (sdev dv s) (btldr_path K n) = Some bs \<and> d_flash (sdev dv (exit_state e)) i
                   = pad4 bs @ replicate (length (d_flash (sdev dv s) i) - length (pad4 bs)) 0xFF)))"
proof (rule mcuboot_fw_update_effect [OF assms, of slot])
  fix e
  assume e: "mcuboot_fw_update A C K E slot hr s = Some e"
    and inst: "\<And>n i b0. (n, i, b0) \<in> plan_targets K slot \<Longrightarrow> d_flash (sdev dv (exit_state e)) i = d_flash (sdev dv s) i
      \<or> (\<exists>s'. e = Rebooted s')
        \<and> installed_from rel dv A C K E hr n i b0 (sdev dv s) (d_flash (sdev dv (exit_state e)) i)"
  have "\<exists>bs. d_files (sdev dv s) (btldr_path K n) = Some bs \<and> fl
      = pad4 bs @ replicate (length (d_flash (sdev dv s) i) - length (pad4 bs)) 0xFF"
    if "installed_from rel dv A C K E hr n i b0 (sdev dv s) fl" "rel" "4 dvd length (d_flash (sdev dv s) i)" for n i b0 fl
    using installed_from_whole [of dv A C K E hr n i b0 "sdev dv s" fl] that by auto
  then show ?thesis
    using e inst by (intro exI [of _ e] conjI ballI) (assumption, clarify, metis)
qed

theorem mcuboot_fw_update_installs_accepted_witness:
  "\<exists>e. mcuboot_fw_update demo_abi demo_crypto demo_config (ram_os demo_abi demo_config) 1 hw_rev_zero update_fw = Some e
    \<and> (d_flash (sdev ram_view (exit_state e)) 3 = old_image
       \<or> installed_from True ram_view demo_abi demo_crypto demo_config (ram_os demo_abi demo_config) hw_rev_zero ''ap'' 3
           False (sdev ram_view update_fw) (d_flash (sdev ram_view (exit_state e)) 3))"
proof -
  have "(''ap'', 3, False) \<in> plan_targets demo_config 1" and "d_flash (sdev ram_view update_fw) 3 = old_image"
    by (simp_all add: plan_targets_def demo_config_def update_fw_def update_view update_ram_def)
  with mcuboot_fw_update_installs_accepted [OF demo_fw_platform demo_invalidate_spec demo_boot_spec demo_files_persist
      update_fw_ok hw_rev_wf_zero demo_areas_distinct, of 1]
  show ?thesis
    by fastforce
qed

text \<open>
  C15. When the update step returns, so that the boot goes on, no partition but that of the file
  system has changed, and every handle it opened has been passed to \<open>fs_close\<close>: an image is never started in the boot
  that wrote to its partition.
\<close>

theorem mcuboot_fw_update_returns_unwritten:
  assumes "fw_platform rel dv E A C" and "invalidate_spec dv E" and "boot_spec dv K E"
    and "fw_ok K s" and "hw_rev_wf hr"
    and "mcuboot_fw_update A C K E slot hr s = Some (Returned s')"
  shows "d_fds (sdev dv s') = d_fds (sdev dv s) \<and> d_area (sdev dv s') = d_area (sdev dv s)
    \<and> (\<forall>j. j \<noteq> PM_ID_littlefs_storage1 K \<longrightarrow> d_flash (sdev dv s') j = d_flash (sdev dv s) j)"
  using mcuboot_fw_update_returned [OF assms] by blast

definition idle_fw :: "ram fw" where
  "idle_fw = update_fw\<lparr>world := update_ram\<lparr>r_dev := (r_dev update_ram)\<lparr>d_files := Map.empty\<rparr>\<rparr>\<rparr>"

theorem mcuboot_fw_update_returns_unwritten_witness:
  "\<exists>s'. mcuboot_fw_update demo_abi demo_crypto demo_config (ram_os demo_abi demo_config) 0 hw_rev_zero idle_fw
      = Some (Returned s')
    \<and> d_flash (sdev ram_view s') 3 = d_flash (sdev ram_view idle_fw) 3"
proof -
  have run: "\<exists>s'. mcuboot_fw_update demo_abi demo_crypto demo_config (ram_os demo_abi demo_config) 0 hw_rev_zero idle_fw
      = Some (Returned s')"
    by (simp add: mcuboot_fw_update_def check_updates_on_fs_def check_file_and_update_def check_update_for_mcuboot_def
        check_file_def btldr_fs_mount_def btldr_fs_is_file_exist_def get_flash_area_address_and_size_def
        btldr_run ENOENT_def ram_eval idle_fw_def update_fw_def update_ram_def demo_area_def demo_config_def)
  have ok: "fw_ok demo_config idle_fw"
    using update_fw_ok by (simp add: idle_fw_def)
  have "PM_ID_littlefs_storage1 demo_config \<noteq> 3"
    by (simp add: demo_config_def)
  then show ?thesis
    using run mcuboot_fw_update_returns_unwritten [OF demo_fw_platform demo_invalidate_spec demo_boot_spec ok hw_rev_wf_zero]
    by fastforce
qed

text \<open>A file for \<open>s1\<close> that the stand-in for the immutable bootloader accepts.\<close>

definition s1_image :: "byte list" where
  "s1_image = [0x3D, 8, 0, 12, 0, 2, 0, 0,  0, 0, 0, 0,  0x84, 0, 0, 0,  0xF1, 3, 0xB0, 0]"

text \<open>
  C30. Going through the update files keeps the shape of the state: the static buffers keep the sizes
  they are declared with, every partition keeps its length and its descriptor, every handle that was
  opened is closed, and no file is created or written: each is as it was or gone.
\<close>

theorem check_updates_on_fs_keeps_shape:
  assumes "fw_platform rel dv E A C" and "invalidate_spec dv E" and "fw_ok K s" and "hw_rev_wf hr"
  shows "\<exists>r s'. check_updates_on_fs A C K E slot hr s = Some (r, s')
    \<and> length (g_shared_img_buf s') = shared_img_buf_size K \<and> length (validate_tmp_buf s') = 256
    \<and> d_fds (sdev dv s') = d_fds (sdev dv s) \<and> d_area (sdev dv s') = d_area (sdev dv s)
    \<and> (\<forall>j. length (d_flash (sdev dv s') j) = length (d_flash (sdev dv s) j))
    \<and> (\<forall>p. d_files (sdev dv s') p = d_files (sdev dv s) p \<or> d_files (sdev dv s') p = None)"
proof -
  obtain r s' t where run: "check_updates_on_fs A C K E slot hr s = Some (r, s')" and ok: "fw_ok K s'"
    and t: "update_run rel dv A C K E hr t (sdev dv s) (sdev dv s')"
    using check_updates_on_fs_run [OF assms, of slot] by (elim exE conjE) (rule that; assumption)
  note f = update_run_frame(1-4) [OF t]
  show ?thesis
    by (intro exI [of _ r] exI [of _ s'] conjI allI) (use run ok f in \<open>simp_all add: fw_ok_def\<close>)
qed

theorem check_updates_on_fs_keeps_shape_witness:
  "\<exists>r s'. check_updates_on_fs demo_abi demo_crypto demo_config (ram_os demo_abi demo_config) 0 hw_rev_zero update_fw
      = Some (r, s')
    \<and> length (g_shared_img_buf s') = 64 \<and> length (d_flash (sdev ram_view s') 3) = 64"
proof -
  have "length (d_flash (sdev ram_view update_fw) 3) = 64" and "shared_img_buf_size demo_config = 64"
    by (simp_all add: update_fw_def update_view update_ram_def old_image_def demo_config_def)
  with check_updates_on_fs_keeps_shape [OF demo_fw_platform demo_invalidate_spec update_fw_ok hw_rev_wf_zero, of 0]
  show ?thesis
    by metis
qed

end
