(* ===== verification/Board_Io.thy ===== *)
theory Board_Io
  imports Prelude
begin

section \<open>Board input and output (\<open>mcuboot_gpio_input.c\<close>, \<open>mcuboot_button.c\<close>, \<open>mcuboot_led.c\<close>, \<open>mcuboot_led_err.c\<close>,
  \<open>mcuboot_supercap.c\<close>, \<open>mcuboot_ext_flash_power.c\<close>, \<open>mcuboot_early_init.c\<close>, \<open>mcuboot_err_handler.c\<close>)\<close>

text \<open>
  Pins and what is done with them: the pinhole button, the red and the green LED, the supercap
  detection of the first board revision, the power switch of the external flash, and the blinking
  that a fatal error ends in. The GPIO driver, the kernel's busy wait, power-off and reboot are
  parameters, in the record \<open>board\<close>; its constants are the flags of the driver's header and the
  pins of the device tree.

  Calls that do not return (a reboot, a power-off) end the run: \<open>Inl\<close> of the world they left. The
  blinking goes on until the button is pressed, so it is a partial function.

  The main theorem says when the blinking ends: at the first time the button is found pressed after
  it has been found released, and that the button is looked at every 100 milliseconds.
\<close>

type_synonym gpio_flags_t = u32

record gpio_dt_spec =
  gs_port :: nat
  gs_pin :: nat

datatype board_rev = REV_1 | REV_2

record 'w board =
  device_is_ready :: "nat \<Rightarrow> 'w \<Rightarrow> bool"
  gpio_is_ready_dt :: "gpio_dt_spec \<Rightarrow> 'w \<Rightarrow> bool"
  gpio_pin_configure_dt :: "gpio_dt_spec \<Rightarrow> gpio_flags_t \<Rightarrow> 'w \<Rightarrow> int \<times> 'w"
  gpio_pin_interrupt_configure_dt :: "gpio_dt_spec \<Rightarrow> gpio_flags_t \<Rightarrow> 'w \<Rightarrow> int \<times> 'w"
  gpio_pin_get_dt :: "gpio_dt_spec \<Rightarrow> 'w \<Rightarrow> int \<times> 'w"
  gpio_pin_set_dt :: "gpio_dt_spec \<Rightarrow> int \<Rightarrow> 'w \<Rightarrow> 'w"
  gpio_init_callback :: "nat \<Rightarrow> nat \<Rightarrow> u32 \<Rightarrow> 'w \<Rightarrow> 'w"
  gpio_add_callback :: "nat \<Rightarrow> nat \<Rightarrow> 'w \<Rightarrow> 'w"
  io_led_set :: "bool \<Rightarrow> 'w \<Rightarrow> 'w"
  k_busy_wait :: "nat \<Rightarrow> 'w \<Rightarrow> 'w"
  arch_irq_lock :: "'w \<Rightarrow> 'w"
  sys_poweroff :: "'w \<Rightarrow> 'w"
  sys_reboot :: "'w \<Rightarrow> 'w"
  board_revision :: board_rev
  led_red :: gpio_dt_spec
  button0 :: gpio_dt_spec
  g_supercap_active :: gpio_dt_spec
  gpio_enable_sensors :: gpio_dt_spec
  g_supercap_active_isr_gpio_cb_data :: nat
  isr_cb_supercap_active_address :: nat
  GPIO_INPUT :: gpio_flags_t
  GPIO_OUTPUT :: gpio_flags_t
  GPIO_OUTPUT_INACTIVE :: gpio_flags_t
  GPIO_OUTPUT_INIT_LOW :: gpio_flags_t
  GPIO_OUTPUT_INIT_HIGH :: gpio_flags_t
  GPIO_DISCONNECTED :: gpio_flags_t
  GPIO_PULL_UP :: gpio_flags_t
  GPIO_PULL_DOWN :: gpio_flags_t
  GPIO_INT_ENABLE :: gpio_flags_t
  GPIO_INT_DISABLE :: gpio_flags_t
  GPIO_INT_EDGE_FALLING :: gpio_flags_t
  GPIO_INT_LEVEL_HIGH :: gpio_flags_t

subsection \<open>Inputs\<close>

text \<open>A callback and its handler are given by their addresses; \<open>None\<close> is a null pointer.\<close>

definition mcuboot_gpio_input_init ::
  "'w board \<Rightarrow> gpio_dt_spec \<Rightarrow> gpio_flags_t \<Rightarrow> nat option \<Rightarrow> nat option \<Rightarrow> gpio_flags_t \<Rightarrow> 'w \<Rightarrow> 'w"
where
  "mcuboot_gpio_input_init G p_gpio_dt extra_flags p_gpio_callback cb_handler int_flags w =
     (if \<not> gpio_is_ready_dt G p_gpio_dt w then w
      else (case gpio_pin_configure_dt G p_gpio_dt (Bit_Operations.or (GPIO_INPUT G) extra_flags) w of (ret, w) \<Rightarrow>
      if ret \<noteq> 0 then w
      else if Bit_Operations.and int_flags (GPIO_INT_ENABLE G) \<noteq> 0 then
        (case gpio_pin_interrupt_configure_dt G p_gpio_dt int_flags w of (ret, w) \<Rightarrow>
         if ret \<noteq> 0 then w
         else (case (cb_handler, p_gpio_callback) of
           (Some h, Some cb) \<Rightarrow> gpio_add_callback G (gs_port p_gpio_dt) cb
              (gpio_init_callback G cb h (push_bit (gs_pin p_gpio_dt) 1) w)
         | _ \<Rightarrow> w))
      else snd (gpio_pin_interrupt_configure_dt G p_gpio_dt (GPIO_INT_DISABLE G) w)))"

definition mcuboot_button_init :: "'w board \<Rightarrow> 'w \<Rightarrow> 'w" where
  "mcuboot_button_init G w = mcuboot_gpio_input_init G (button0 G) (GPIO_PULL_UP G) None None 0 w"

definition mcuboot_button_deinit :: "'w board \<Rightarrow> 'w \<Rightarrow> 'w" where
  "mcuboot_button_deinit G w =
     (if \<not> device_is_ready G (gs_port (button0 G)) w then w
      else snd (gpio_pin_configure_dt G (button0 G) (GPIO_DISCONNECTED G) w))"

definition mcuboot_button_get :: "'w board \<Rightarrow> 'w \<Rightarrow> bool \<times> 'w" where
  "mcuboot_button_get G w =
     (case gpio_pin_get_dt G (button0 G) w of (rc, w) \<Rightarrow> if rc < 0 then (False, w) else (rc \<noteq> 0, w))"

subsection \<open>LEDs\<close>

definition mcuboot_led_init_gpio :: "'w board \<Rightarrow> gpio_dt_spec \<Rightarrow> 'w \<Rightarrow> 'w" where
  "mcuboot_led_init_gpio G p_led_spec w =
     (if \<not> device_is_ready G (gs_port p_led_spec) w then w
      else snd (gpio_pin_configure_dt G p_led_spec (GPIO_OUTPUT_INACTIVE G) w))"

definition mcuboot_led_init :: "'w board \<Rightarrow> 'w \<Rightarrow> 'w" where
  "mcuboot_led_init G w = mcuboot_led_init_gpio G (led_red G) w"

definition mcuboot_led_deinit_gpio :: "'w board \<Rightarrow> gpio_dt_spec \<Rightarrow> 'w \<Rightarrow> 'w" where
  "mcuboot_led_deinit_gpio G p_led_spec w =
     (if \<not> device_is_ready G (gs_port p_led_spec) w then w
      else snd (gpio_pin_configure_dt G p_led_spec (GPIO_DISCONNECTED G) (gpio_pin_set_dt G p_led_spec 0 w)))"

definition mcuboot_led_deinit :: "'w board \<Rightarrow> 'w \<Rightarrow> 'w" where
  "mcuboot_led_deinit G w = mcuboot_led_deinit_gpio G (led_red G) w"

definition mcuboot_led_red_set :: "'w board \<Rightarrow> bool \<Rightarrow> 'w \<Rightarrow> 'w" where
  "mcuboot_led_red_set G is_on w = gpio_pin_set_dt G (led_red G) (if is_on then 1 else 0) w"

definition mcuboot_led_green_set :: "'w board \<Rightarrow> bool \<Rightarrow> 'w \<Rightarrow> 'w" where
  "mcuboot_led_green_set G is_on w = io_led_set G is_on w"

definition mcuboot_led_red_on :: "'w board \<Rightarrow> 'w \<Rightarrow> 'w" where
  "mcuboot_led_red_on G w = mcuboot_led_red_set G True w"

definition mcuboot_led_red_off :: "'w board \<Rightarrow> 'w \<Rightarrow> 'w" where
  "mcuboot_led_red_off G w = mcuboot_led_red_set G False w"

definition mcuboot_led_green_on :: "'w board \<Rightarrow> 'w \<Rightarrow> 'w" where
  "mcuboot_led_green_on G w = mcuboot_led_green_set G True w"

definition mcuboot_led_green_off :: "'w board \<Rightarrow> 'w \<Rightarrow> 'w" where
  "mcuboot_led_green_off G w = mcuboot_led_green_set G False w"

subsection \<open>Supercap and the power of the external flash\<close>

definition mcuboot_on_supercap_active :: "'w board \<Rightarrow> 'w \<Rightarrow> 'w" where
  "mcuboot_on_supercap_active G w =
     sys_poweroff G (snd (gpio_pin_interrupt_configure_dt G (g_supercap_active G) (GPIO_INT_LEVEL_HIGH G)
       (mcuboot_led_deinit G (mcuboot_button_deinit G w))))"

definition mcuboot_isr_cb_supercap_active :: "'w board \<Rightarrow> 'w \<Rightarrow> 'w" where
  "mcuboot_isr_cb_supercap_active G w = mcuboot_on_supercap_active G w"

definition mcuboot_supercap_init :: "'w board \<Rightarrow> 'w \<Rightarrow> 'w + 'w" where
  "mcuboot_supercap_init G w =
     (let w = mcuboot_gpio_input_init G (g_supercap_active G) 0 (Some (g_supercap_active_isr_gpio_cb_data G))
                (Some (isr_cb_supercap_active_address G)) (GPIO_INT_EDGE_FALLING G) w in
      case gpio_pin_get_dt G (g_supercap_active G) w of (rc, w) \<Rightarrow>
      if rc < 0 then Inr w
      else let is_supercap_active = (rc \<noteq> 0) in
        if is_supercap_active then Inl (mcuboot_on_supercap_active G w) else Inr w)"

definition mcuboot_ext_flash_power_on :: "'w board \<Rightarrow> 'w \<Rightarrow> 'w" where
  "mcuboot_ext_flash_power_on G w =
     (if \<not> gpio_is_ready_dt G (gpio_enable_sensors G) w then w
      else (case board_revision G of
        REV_1 \<Rightarrow> snd (gpio_pin_configure_dt G (gpio_enable_sensors G)
                   (Bit_Operations.or (GPIO_INPUT G) (GPIO_PULL_DOWN G)) w)
      | REV_2 \<Rightarrow> snd (gpio_pin_configure_dt G (gpio_enable_sensors G)
                   (Bit_Operations.or (GPIO_OUTPUT G) (GPIO_OUTPUT_INIT_LOW G)) w)))"

definition mcuboot_ext_flash_power_off :: "'w board \<Rightarrow> 'w \<Rightarrow> 'w" where
  "mcuboot_ext_flash_power_off G w =
     (if \<not> gpio_is_ready_dt G (gpio_enable_sensors G) w then w
      else (case board_revision G of
        REV_1 \<Rightarrow> snd (gpio_pin_configure_dt G (gpio_enable_sensors G)
                   (Bit_Operations.or (GPIO_OUTPUT G) (GPIO_OUTPUT_INIT_HIGH G)) w)
      | REV_2 \<Rightarrow> snd (gpio_pin_configure_dt G (gpio_enable_sensors G) (GPIO_DISCONNECTED G) w)))"

definition mcuboot_early_init_post_kernel :: "'w board \<Rightarrow> 'w \<Rightarrow> 'w + (int \<times> 'w)" where
  "mcuboot_early_init_post_kernel G w =
     (case (case board_revision G of REV_1 \<Rightarrow> mcuboot_supercap_init G w | REV_2 \<Rightarrow> Inr w) of
        Inl w \<Rightarrow> Inl w
      | Inr w \<Rightarrow> Inr (0, mcuboot_ext_flash_power_on G (mcuboot_button_init G (mcuboot_led_init G w))))"

definition mcuboot_early_init_application :: "'w \<Rightarrow> int \<times> 'w" where
  "mcuboot_early_init_application w = (0, w)"

subsection \<open>Blinking after a fatal error\<close>

definition NUM_RED_LED_BLINKS_ON_HALT_SYSTEM :: nat where "NUM_RED_LED_BLINKS_ON_HALT_SYSTEM = 3"

definition NUM_RED_LED_BLINKS_ON_ASSERT :: nat where "NUM_RED_LED_BLINKS_ON_ASSERT = 4"

text \<open>Times are in microseconds where they are passed to \<open>k_busy_wait\<close>.\<close>

definition DELAY_BEFORE_REBOOT_MS :: nat where "DELAY_BEFORE_REBOOT_MS = 100"

definition LED_FLASH_DURATION_MS :: nat where "LED_FLASH_DURATION_MS = 100"

definition BUTTON_PRESS_CHECK_PERIOD_MS :: nat where "BUTTON_PRESS_CHECK_PERIOD_MS = 100"

definition DELAY_BETWEEN_BLINKS_MS :: nat where "DELAY_BETWEEN_BLINKS_MS = 900"

definition DELAY_AFTER_FIRST_BLINK_MS :: nat where "DELAY_AFTER_FIRST_BLINK_MS = 500"

definition USEC_PER_MSEC :: nat where "USEC_PER_MSEC = 1000"

text \<open>The result, and the flag behind \<open>p_is_button_released\<close>.\<close>

definition check_if_button_released_and_pressed :: "'w board \<Rightarrow> bool \<Rightarrow> 'w \<Rightarrow> (bool \<times> bool) \<times> 'w" where
  "check_if_button_released_and_pressed G is_button_released w =
     (case mcuboot_button_get G w of (pressed, w) \<Rightarrow>
      if \<not> is_button_released then
        (if \<not> pressed then ((False, True), w) else ((False, False), w))
      else
        (if pressed then ((True, True), k_busy_wait G (DELAY_BEFORE_REBOOT_MS * USEC_PER_MSEC) w)
         else ((False, True), w)))"

text \<open>Waiting and checking, with the reboot when the check says so.\<close>

definition wait_and_check :: "'w board \<Rightarrow> nat \<Rightarrow> bool \<times> 'w \<Rightarrow> 'w + (bool \<times> 'w)" where
  "wait_and_check G ms st =
     (case st of (is_button_released, w) \<Rightarrow>
      case check_if_button_released_and_pressed G is_button_released (k_busy_wait G (ms * USEC_PER_MSEC) w) of
        ((pressed, is_button_released), w) \<Rightarrow>
      if pressed then Inl (sys_reboot G w) else Inr (is_button_released, w))"

fun wait_loop :: "'w board \<Rightarrow> nat \<Rightarrow> bool \<times> 'w \<Rightarrow> 'w + (bool \<times> 'w)" where
  "wait_loop G 0 st = Inr st"
| "wait_loop G (Suc n) st =
     (case wait_and_check G BUTTON_PRESS_CHECK_PERIOD_MS st of Inl w \<Rightarrow> Inl w | Inr st \<Rightarrow> wait_loop G n st)"

definition red :: "'w board \<Rightarrow> bool \<Rightarrow> bool \<times> 'w \<Rightarrow> bool \<times> 'w" where
  "red G is_on st = (fst st, (if is_on then mcuboot_led_red_on else mcuboot_led_red_off) G (snd st))"

fun red_blinks_loop :: "'w board \<Rightarrow> nat \<Rightarrow> bool \<times> 'w \<Rightarrow> 'w + (bool \<times> 'w)" where
  "red_blinks_loop G 0 st = Inr st"
| "red_blinks_loop G (Suc n) st =
     (case wait_and_check G LED_FLASH_DURATION_MS (red G True st) of Inl w \<Rightarrow> Inl w
      | Inr st \<Rightarrow> (case wait_and_check G BUTTON_PRESS_CHECK_PERIOD_MS (red G False st) of Inl w \<Rightarrow> Inl w
      | Inr st \<Rightarrow> red_blinks_loop G n st))"

definition blink_once :: "'w board \<Rightarrow> nat \<Rightarrow> bool \<times> 'w \<Rightarrow> 'w + (bool \<times> 'w)" where
  "blink_once G num_red_blinks st =
     (case wait_and_check G LED_FLASH_DURATION_MS (red G True st) of Inl w \<Rightarrow> Inl w
      | Inr st \<Rightarrow>
     (case wait_loop G (DELAY_AFTER_FIRST_BLINK_MS div BUTTON_PRESS_CHECK_PERIOD_MS) (red G False st) of Inl w \<Rightarrow> Inl w
      | Inr st \<Rightarrow>
     (case red_blinks_loop G num_red_blinks st of Inl w \<Rightarrow> Inl w
      | Inr st \<Rightarrow> wait_loop G (DELAY_BETWEEN_BLINKS_MS div BUTTON_PRESS_CHECK_PERIOD_MS) st)))"

partial_function (option) blink_loop :: "'w board \<Rightarrow> nat \<Rightarrow> bool \<times> 'w \<Rightarrow> 'w option" where
  "blink_loop G num_red_blinks st =
     (case blink_once G num_red_blinks st of Inl w \<Rightarrow> Some w | Inr st \<Rightarrow> blink_loop G num_red_blinks st)"

text \<open>The world after the reboot, if it ever comes to that.\<close>

definition mcuboot_led_err_blink_red_led :: "'w board \<Rightarrow> nat \<Rightarrow> 'w \<Rightarrow> 'w option" where
  "mcuboot_led_err_blink_red_led G num_red_blinks w =
     (case mcuboot_button_get G w of (pressed, w) \<Rightarrow>
      blink_loop G num_red_blinks (\<not> pressed, mcuboot_led_green_off G w))"

definition arch_system_halt :: "'w board \<Rightarrow> 'w \<Rightarrow> 'w option" where
  "arch_system_halt G w =
     mcuboot_led_err_blink_red_led G NUM_RED_LED_BLINKS_ON_HALT_SYSTEM (arch_irq_lock G w)"

definition k_sys_fatal_error_handler :: "'w board \<Rightarrow> 'w \<Rightarrow> 'w option" where
  "k_sys_fatal_error_handler G w = arch_system_halt G w"

definition assert_post_action :: "'w board \<Rightarrow> 'w \<Rightarrow> 'w option" where
  "assert_post_action G w = mcuboot_led_err_blink_red_led G NUM_RED_LED_BLINKS_ON_ASSERT w"

subsection \<open>What the driver and the kernel document\<close>

text \<open>
  How often the button was read (\<open>polls\<close>), what it showed each time (\<open>smp\<close>), and for how long the
  processor has waited (\<open>waited\<close>, in microseconds). Setting LEDs, locking interrupts and rebooting do
  not touch either.
\<close>

definition button_view ::
  "'w board \<Rightarrow> (nat \<Rightarrow> bool) \<Rightarrow> ('w \<Rightarrow> nat) \<Rightarrow> ('w \<Rightarrow> nat) \<Rightarrow> bool"
where
  "button_view G smp polls waited \<longleftrightarrow>
     (\<forall>w v w'. gpio_pin_get_dt G (button0 G) w = (v, w') \<longrightarrow>
        (0 < v \<longleftrightarrow> smp (polls w)) \<and> polls w' = Suc (polls w) \<and> waited w' = waited w)
     \<and> (\<forall>p x w. polls (gpio_pin_set_dt G p x w) = polls w \<and> waited (gpio_pin_set_dt G p x w) = waited w)
     \<and> (\<forall>b w. polls (io_led_set G b w) = polls w \<and> waited (io_led_set G b w) = waited w)
     \<and> (\<forall>t w. polls (k_busy_wait G t w) = polls w \<and> waited (k_busy_wait G t w) = waited w + t)
     \<and> (\<forall>w. polls (sys_reboot G w) = polls w \<and> waited (sys_reboot G w) = waited w)
     \<and> (\<forall>w. polls (arch_irq_lock G w) = polls w \<and> waited (arch_irq_lock G w) = waited w)"

lemma button_viewD:
  assumes "button_view G smp polls waited"
  shows "gpio_pin_get_dt G (button0 G) w = (v, w') \<Longrightarrow> (0 < v \<longleftrightarrow> smp (polls w))"
    and "gpio_pin_get_dt G (button0 G) w = (v, w') \<Longrightarrow> polls w' = Suc (polls w)"
    and "gpio_pin_get_dt G (button0 G) w = (v, w') \<Longrightarrow> waited w' = waited w"
    and "polls (gpio_pin_set_dt G p x w) = polls w" and "waited (gpio_pin_set_dt G p x w) = waited w"
    and "polls (io_led_set G b w) = polls w" and "waited (io_led_set G b w) = waited w"
    and "polls (k_busy_wait G t w) = polls w" and "waited (k_busy_wait G t w) = waited w + t"
    and "polls (sys_reboot G w) = polls w" and "waited (sys_reboot G w) = waited w"
    and "polls (arch_irq_lock G w) = polls w" and "waited (arch_irq_lock G w) = waited w"
  using assms unfolding button_view_def by blast+

lemma button_get_view:
  assumes "button_view G smp polls waited" and "mcuboot_button_get G w = (b, w')"
  shows "b = smp (polls w)" and "polls w' = Suc (polls w)" and "waited w' = waited w"
proof -
  obtain v w1 where g: "gpio_pin_get_dt G (button0 G) w = (v, w1)"
    by (metis prod.exhaust)
  have "b \<longleftrightarrow> 0 < v" "w' = w1"
    using assms(2) g by (auto simp: mcuboot_button_get_def split: if_splits)
  then show "b = smp (polls w)" "polls w' = Suc (polls w)" "waited w' = waited w"
    using button_viewD(1-3) [OF assms(1) g] by simp_all
qed

subsection \<open>When the blinking ends\<close>

text \<open>The button is pressed at look \<open>n\<close>, after it was found released at a look since \<open>n0\<close>.\<close>

definition released :: "(nat \<Rightarrow> bool) \<Rightarrow> nat \<Rightarrow> nat \<Rightarrow> bool" where
  "released smp n0 n \<longleftrightarrow> (\<exists>i. n0 \<le> i \<and> i < n \<and> \<not> smp i)"

definition fires :: "(nat \<Rightarrow> bool) \<Rightarrow> nat \<Rightarrow> nat \<Rightarrow> bool" where
  "fires smp n0 n \<longleftrightarrow> released smp n0 n \<and> smp n"

lemma released_Suc: "released smp n0 (Suc n) \<longleftrightarrow> released smp n0 n \<or> n0 \<le> n \<and> \<not> smp n"
  by (auto simp: released_def less_Suc_eq)

text \<open>
  What a piece of the loop did that looks at the button \<open>m\<close> times, each time after 100 ms: it ended
  at the first look at which the loop has to end, or went past \<open>m\<close> looks at which it must not.
\<close>

definition watched ::
  "(nat \<Rightarrow> bool) \<Rightarrow> ('w \<Rightarrow> nat) \<Rightarrow> ('w \<Rightarrow> nat) \<Rightarrow> nat \<Rightarrow> nat \<Rightarrow> 'w \<Rightarrow> 'w + (bool \<times> 'w) \<Rightarrow> bool"
where
  "watched smp polls waited n0 m w r \<longleftrightarrow>
     (case r of
        Inl w' \<Rightarrow> \<exists>k<m. fires smp n0 (polls w + k) \<and> (\<forall>i<k. \<not> fires smp n0 (polls w + i))
           \<and> polls w' = polls w + Suc k \<and> waited w' = waited w + Suc k * 100000 + 100000
      | Inr (rel, w') \<Rightarrow> rel = released smp n0 (polls w') \<and> (\<forall>i<m. \<not> fires smp n0 (polls w + i))
           \<and> polls w' = polls w + m \<and> waited w' = waited w + m * 100000)"

lemma watched_seq:
  assumes "watched smp polls waited n0 m w r"
    and "\<And>st. r = Inr st \<Longrightarrow> watched smp polls waited n0 n (snd st) (f st)"
  shows "watched smp polls waited n0 (m + n) w (case r of Inl w \<Rightarrow> Inl w | Inr st \<Rightarrow> f st)"
proof (cases r)
  case (Inl w')
  then obtain k where "k < m" "fires smp n0 (polls w + k)" "\<forall>i<k. \<not> fires smp n0 (polls w + i)"
      "polls w' = polls w + Suc k" "waited w' = waited w + Suc k * 100000 + 100000"
    using assms(1) by (auto simp: watched_def)
  then show ?thesis
    using Inl by (auto simp: watched_def intro!: exI [of _ k])
next
  case (Inr st)
  obtain rel w1 where st: "st = (rel, w1)"
    by (cases st)
  have a: "\<forall>i<m. \<not> fires smp n0 (polls w + i)" "polls w1 = polls w + m" "waited w1 = waited w + m * 100000"
    using assms(1) Inr st by (simp_all add: watched_def)
  have past: "\<not> fires smp n0 (polls w + i)" if "i < m + k" "\<forall>i<k. \<not> fires smp n0 (polls w + m + i)" for i k
    using a(1) that(1) that(2) [rule_format, of "i - m"] by (cases "i < m") simp_all
  have b: "watched smp polls waited n0 n w1 (f st)"
    using assms(2) [OF Inr] st by simp
  show ?thesis
  proof (cases "f st")
    case (Inl w')
    then obtain k where "k < n" "fires smp n0 (polls w1 + k)" "\<forall>i<k. \<not> fires smp n0 (polls w1 + i)"
        "polls w' = polls w1 + Suc k" "waited w' = waited w1 + Suc k * 100000 + 100000"
      using b by (auto simp: watched_def)
    then show ?thesis
      using Inr Inl a past by (auto simp: watched_def add.assoc intro!: exI [of _ "m + k"])
  next
    case Inr2: (Inr st2)
    then show ?thesis
      using Inr b a past by (auto simp: watched_def split: prod.splits)
  qed
qed

lemma wait_and_check_watched:
  assumes v: "button_view G smp polls waited" and st: "fst st = released smp n0 (polls (snd st))" and "n0 \<le> polls (snd st)"
  shows "watched smp polls waited n0 1 (snd st) (wait_and_check G 100 st)"
proof -
  obtain rel w where s: "st = (rel, w)"
    by (cases st)
  obtain b w1 where g: "mcuboot_button_get G (k_busy_wait G 100000 w) = (b, w1)"
    by (metis prod.exhaust)
  note gv = button_get_view [OF v g] and view = button_viewD(4-) [OF v]
  show ?thesis
    using st assms(3) gv unfolding s wait_and_check_def check_if_button_released_and_pressed_def
    by (cases rel; cases b)
      (simp_all add: g watched_def fires_def released_Suc view USEC_PER_MSEC_def DELAY_BEFORE_REBOOT_MS_def)
qed

text \<open>Every piece keeps the flag in step with what was seen, so the pieces compose.\<close>

definition in_step :: "(nat \<Rightarrow> bool) \<Rightarrow> ('w \<Rightarrow> nat) \<Rightarrow> nat \<Rightarrow> bool \<times> 'w \<Rightarrow> bool" where
  "in_step smp polls n0 st \<longleftrightarrow> fst st = released smp n0 (polls (snd st)) \<and> n0 \<le> polls (snd st)"

lemma watched_in_step:
  "watched smp polls waited n0 m w (Inr st) \<Longrightarrow> n0 \<le> polls w \<Longrightarrow> in_step smp polls n0 st"
  by (cases st) (simp add: watched_def in_step_def)

lemma red_view:
  assumes "button_view G smp polls waited"
  shows "in_step smp polls n0 (red G b st) = in_step smp polls n0 st"
    and "watched smp polls waited n0 m (snd (red G b st)) r = watched smp polls waited n0 m (snd st) r"
proof -
  have "fst (red G b st) = fst st" "polls (snd (red G b st)) = polls (snd st)" "waited (snd (red G b st)) = waited (snd st)"
    using button_viewD(4,5) [OF assms] by (simp_all add: red_def mcuboot_led_red_on_def mcuboot_led_red_off_def mcuboot_led_red_set_def)
  then show "in_step smp polls n0 (red G b st) = in_step smp polls n0 st"
    and "watched smp polls waited n0 m (snd (red G b st)) r = watched smp polls waited n0 m (snd st) r"
    unfolding in_step_def watched_def by (simp_all split: sum.split prod.split)
qed

lemma check_watched:
  assumes "button_view G smp polls waited" and "in_step smp polls n0 st"
  shows "watched smp polls waited n0 1 (snd st) (wait_and_check G 100 st)"
  using wait_and_check_watched [OF assms(1)] assms(2) by (simp add: in_step_def)

lemma in_stepD: "in_step smp polls n0 st \<Longrightarrow> n0 \<le> polls (snd st)"
  by (simp add: in_step_def)

lemma wait_loop_watched:
  assumes "button_view G smp polls waited" and "in_step smp polls n0 st"
  shows "watched smp polls waited n0 n (snd st) (wait_loop G n st)"
  using assms(2)
proof (induction n arbitrary: st)
  case 0
  then show ?case
    by (cases st) (simp add: watched_def in_step_def)
next
  case (Suc n)
  have "watched smp polls waited n0 (1 + n) (snd st)
      (case wait_and_check G 100 st of Inl w \<Rightarrow> Inl w | Inr st \<Rightarrow> wait_loop G n st)"
    by (rule watched_seq [OF check_watched [OF assms(1) Suc.prems]])
      (use Suc.IH watched_in_step in_stepD [OF Suc.prems] check_watched [OF assms(1) Suc.prems] in metis)
  then show ?case
    by (simp add: BUTTON_PRESS_CHECK_PERIOD_MS_def)
qed

lemma red_blinks_watched:
  assumes v: "button_view G smp polls waited" and "in_step smp polls n0 st"
  shows "watched smp polls waited n0 (2 * n) (snd st) (red_blinks_loop G n st)"
  using assms(2)
proof (induction n arbitrary: st)
  case 0
  then show ?case
    by (cases st) (simp add: watched_def in_step_def)
next
  case (Suc n)
  let ?on = "wait_and_check G 100 (red G True st)"
  have on: "watched smp polls waited n0 1 (snd st) ?on"
    using check_watched [OF v, of n0 "red G True st"] Suc.prems by (simp add: red_view [OF v])
  have off: "watched smp polls waited n0 (1 + 2 * n) (snd st1)
      (case wait_and_check G 100 (red G False st1) of Inl w \<Rightarrow> Inl w | Inr st \<Rightarrow> red_blinks_loop G n st)"
    if "?on = Inr st1" for st1
  proof -
    have s1: "in_step smp polls n0 st1"
      using on that watched_in_step in_stepD [OF Suc.prems] by metis
    then have c: "watched smp polls waited n0 1 (snd st1) (wait_and_check G 100 (red G False st1))"
      using check_watched [OF v, of n0 "red G False st1"] by (simp add: red_view [OF v])
    show ?thesis
      by (rule watched_seq [OF c]) (use Suc.IH c watched_in_step in_stepD [OF s1] in metis)
  qed
  have "watched smp polls waited n0 (1 + (1 + 2 * n)) (snd st) (case ?on of Inl w \<Rightarrow> Inl w | Inr st1 \<Rightarrow>
      (case wait_and_check G 100 (red G False st1) of Inl w \<Rightarrow> Inl w | Inr st \<Rightarrow> red_blinks_loop G n st))"
    by (rule watched_seq [OF on off])
  moreover have "1 + (1 + 2 * n) = 2 * Suc n"
    by simp
  ultimately show ?case
    by (simp only: red_blinks_loop.simps BUTTON_PRESS_CHECK_PERIOD_MS_def LED_FLASH_DURATION_MS_def)
qed

lemma blink_once_watched:
  assumes v: "button_view G smp polls waited" and st: "in_step smp polls n0 st"
  shows "watched smp polls waited n0 (1 + (5 + (2 * n + 9))) (snd st) (blink_once G n st)"
proof -
  let ?on = "wait_and_check G 100 (red G True st)"
  have on: "watched smp polls waited n0 1 (snd st) ?on"
    using check_watched [OF v, of n0 "red G True st"] st by (simp add: red_view [OF v])
  have last: "watched smp polls waited n0 (2 * n + 9) (snd st2)
      (case red_blinks_loop G n st2 of Inl w \<Rightarrow> Inl w | Inr st \<Rightarrow> wait_loop G 9 st)"
    if "in_step smp polls n0 st2" for st2
    by (rule watched_seq [OF red_blinks_watched [OF v that]])
      (use wait_loop_watched [OF v] red_blinks_watched [OF v that] watched_in_step in_stepD [OF that] in metis)
  have mid: "watched smp polls waited n0 (5 + (2 * n + 9)) (snd st1)
      (case wait_loop G 5 (red G False st1) of Inl w \<Rightarrow> Inl w | Inr st2 \<Rightarrow>
        (case red_blinks_loop G n st2 of Inl w \<Rightarrow> Inl w | Inr st \<Rightarrow> wait_loop G 9 st))"
    if "?on = Inr st1" for st1
  proof -
    have s1: "in_step smp polls n0 st1"
      using on that watched_in_step in_stepD [OF st] by metis
    then have c: "watched smp polls waited n0 5 (snd st1) (wait_loop G 5 (red G False st1))"
      using wait_loop_watched [OF v, of n0 "red G False st1" 5] by (simp add: red_view [OF v])
    show ?thesis
      by (rule watched_seq [OF c]) (use last c watched_in_step in_stepD [OF s1] in metis)
  qed
  have ms: "DELAY_AFTER_FIRST_BLINK_MS div BUTTON_PRESS_CHECK_PERIOD_MS = 5"
    "DELAY_BETWEEN_BLINKS_MS div BUTTON_PRESS_CHECK_PERIOD_MS = 9" "LED_FLASH_DURATION_MS = 100"
    by (simp_all add: BUTTON_PRESS_CHECK_PERIOD_MS_def LED_FLASH_DURATION_MS_def DELAY_AFTER_FIRST_BLINK_MS_def
        DELAY_BETWEEN_BLINKS_MS_def)
  show ?thesis
    unfolding blink_once_def ms by (rule watched_seq [OF on mid])
qed

lemma blink_loop_ends:
  assumes v: "button_view G smp polls waited" and "in_step smp polls n0 st"
    and "fires smp n0 (polls (snd st) + k)" and "\<forall>i<k. \<not> fires smp n0 (polls (snd st) + i)"
  shows "\<exists>w'. blink_loop G n st = Some w' \<and> polls w' = polls (snd st) + Suc k
    \<and> waited w' = waited (snd st) + Suc k * 100000 + 100000"
  using assms(2-4)
proof (induction k arbitrary: st rule: less_induct)
  case (less k)
  let ?m = "1 + (5 + (2 * n + 9))"
  have o: "watched smp polls waited n0 ?m (snd st) (blink_once G n st)"
    by (rule blink_once_watched [OF v less.prems(1)])
  show ?case
  proof (cases "blink_once G n st")
    case (Inl w')
    then obtain j where j: "fires smp n0 (polls (snd st) + j)" "\<forall>i<j. \<not> fires smp n0 (polls (snd st) + i)"
        "polls w' = polls (snd st) + Suc j" "waited w' = waited (snd st) + Suc j * 100000 + 100000"
      using o by (auto simp: watched_def)
    have "j = k"
      using j(1,2) less.prems(2,3) by (metis linorder_neqE_nat)
    moreover have "blink_loop G n st = Some w'"
      by (subst blink_loop.simps) (simp add: Inl)
    ultimately show ?thesis
      using j by blast
  next
    case (Inr st1)
    obtain rel w1 where st1: "st1 = (rel, w1)"
      by (cases st1)
    have a: "\<forall>i<?m. \<not> fires smp n0 (polls (snd st) + i)" "polls w1 = polls (snd st) + ?m"
        "waited w1 = waited (snd st) + ?m * 100000"
      using o Inr st1 by (simp_all add: watched_def)
    have "?m \<le> k"
      using a(1) less.prems(2) not_le by blast
    then have k: "polls w1 + (k - ?m) = polls (snd st) + k"
      using a(2) by simp
    have "in_step smp polls n0 st1"
      using o Inr watched_in_step in_stepD [OF less.prems(1)] by metis
    moreover have "fires smp n0 (polls (snd st1) + (k - ?m))"
      using less.prems(2) k st1 by simp
    moreover have "\<forall>i<k - ?m. \<not> fires smp n0 (polls (snd st1) + i)"
      using less.prems(3) a(2) st1 by (simp add: add.assoc)
    moreover have "k - ?m < k"
      using \<open>?m \<le> k\<close> by simp
    ultimately obtain w' where "blink_loop G n st1 = Some w'" "polls w' = polls (snd st1) + Suc (k - ?m)"
        "waited w' = waited (snd st1) + Suc (k - ?m) * 100000 + 100000"
      using less.IH [of "k - ?m" st1] by blast
    moreover have "blink_loop G n st = blink_loop G n st1"
      by (subst blink_loop.simps) (simp add: Inr)
    moreover have "Suc (k - ?m) * 100000 + ?m * 100000 = Suc k * (100000 :: nat)"
      using \<open>?m \<le> k\<close> by (simp add: algebra_simps flip: add_mult_distrib)
    ultimately show ?thesis
      using a(2,3) k st1 by auto
  qed
qed

lemma blink_loop_fires:
  assumes "blink_loop G n st = Some w'" and "button_view G smp polls waited" and "in_step smp polls n0 st"
  shows "\<exists>j. fires smp n0 j"
proof -
  have "button_view G smp polls waited \<longrightarrow> in_step smp polls n0 st \<longrightarrow> (\<exists>j. fires smp n0 j)"
  proof (rule blink_loop.raw_induct [where P = "\<lambda>G n st w'. button_view G smp polls waited \<longrightarrow>
        in_step smp polls n0 st \<longrightarrow> (\<exists>j. fires smp n0 j)", OF _ assms(1)])
    fix loop :: "'a board \<Rightarrow> nat \<Rightarrow> bool \<times> 'a \<Rightarrow> 'a option" and G n st w'
    assume ih: "\<And>G n st w'. loop G n st = Some w' \<Longrightarrow> button_view G smp polls waited \<longrightarrow>
        in_step smp polls n0 st \<longrightarrow> (\<exists>j. fires smp n0 j)"
      and run: "(case blink_once G n st of Inl w \<Rightarrow> Some w | Inr st \<Rightarrow> loop G n st) = Some w'"
    show "button_view G smp polls waited \<longrightarrow> in_step smp polls n0 st \<longrightarrow> (\<exists>j. fires smp n0 j)"
    proof (intro impI)
      assume v: "button_view G smp polls waited" and st: "in_step smp polls n0 st"
      have o: "watched smp polls waited n0 (1 + (5 + (2 * n + 9))) (snd st) (blink_once G n st)"
        by (rule blink_once_watched [OF v st])
      show "\<exists>j. fires smp n0 j"
      proof (cases "blink_once G n st")
        case (Inl w)
        then show ?thesis
          using o by (auto simp: watched_def)
      next
        case (Inr st1)
        then have "in_step smp polls n0 st1"
          using o watched_in_step in_stepD [OF st] by metis
        then show ?thesis
          using ih run Inr v by auto
      qed
    qed
  qed
  then show ?thesis
    using assms(2,3) by blast
qed

subsection \<open>How the pins are configured\<close>

text \<open>
  On a driver that is ready and does not fail, configuring a pin sets its mode, and no other call
  changes a mode.
\<close>

definition mode_view :: "'w board \<Rightarrow> ('w \<Rightarrow> gpio_dt_spec \<Rightarrow> gpio_flags_t) \<Rightarrow> bool" where
  "mode_view G mode \<longleftrightarrow>
     (\<forall>p w. device_is_ready G p w) \<and> (\<forall>p w. gpio_is_ready_dt G p w)
     \<and> (\<forall>p fl w. \<exists>w'. gpio_pin_configure_dt G p fl w = (0, w') \<and> mode w' = (mode w)(p := fl))
     \<and> (\<forall>p fl w. mode (snd (gpio_pin_interrupt_configure_dt G p fl w)) = mode w)
     \<and> (\<forall>p w. mode (snd (gpio_pin_get_dt G p w)) = mode w)
     \<and> (\<forall>p x w. mode (gpio_pin_set_dt G p x w) = mode w)
     \<and> (\<forall>cb h m w. mode (gpio_init_callback G cb h m w) = mode w)
     \<and> (\<forall>p cb w. mode (gpio_add_callback G p cb w) = mode w)"

lemma mode_viewD:
  assumes "mode_view G mode"
  shows "device_is_ready G n w" and "gpio_is_ready_dt G p w"
    and "fst (gpio_pin_configure_dt G p fl w) = 0" and "mode (snd (gpio_pin_configure_dt G p fl w)) = (mode w)(p := fl)"
    and "mode (snd (gpio_pin_interrupt_configure_dt G p fl w)) = mode w"
    and "mode (snd (gpio_pin_get_dt G p w)) = mode w" and "mode (gpio_pin_set_dt G p x w) = mode w"
    and "mode (gpio_init_callback G cb h m w) = mode w" and "mode (gpio_add_callback G n cb w) = mode w"
  using assms unfolding mode_view_def by (metis fst_conv snd_conv)+

lemma gpio_input_mode:
  assumes "mode_view G mode"
  shows "mode (mcuboot_gpio_input_init G p fl cb h int_flags w) = (mode w)(p := Bit_Operations.or (GPIO_INPUT G) fl)"
  using mode_viewD [OF assms]
  by (simp add: mcuboot_gpio_input_init_def case_prod_beta split: option.split)

text \<open>The mode of the pin that switches the power of the external flash on.\<close>

definition flash_power_on_mode :: "'w board \<Rightarrow> gpio_flags_t" where
  "flash_power_on_mode G =
     (case board_revision G of
        REV_1 \<Rightarrow> Bit_Operations.or (GPIO_INPUT G) (GPIO_PULL_DOWN G)
      | REV_2 \<Rightarrow> Bit_Operations.or (GPIO_OUTPUT G) (GPIO_OUTPUT_INIT_LOW G))"

lemma led_button_power_modes:
  assumes "mode_view G mode"
  shows "mode (mcuboot_led_init G w) = (mode w)(led_red G := GPIO_OUTPUT_INACTIVE G)"
    and "mode (mcuboot_led_deinit G w) = (mode w)(led_red G := GPIO_DISCONNECTED G)"
    and "mode (mcuboot_button_init G w) = (mode w)(button0 G := Bit_Operations.or (GPIO_INPUT G) (GPIO_PULL_UP G))"
    and "mode (mcuboot_button_deinit G w) = (mode w)(button0 G := GPIO_DISCONNECTED G)"
    and "mode (mcuboot_ext_flash_power_on G w) = (mode w)(gpio_enable_sensors G := flash_power_on_mode G)"
  using mode_viewD [OF assms] gpio_input_mode [OF assms]
  by (simp_all add: mcuboot_led_init_def mcuboot_led_init_gpio_def mcuboot_led_deinit_def mcuboot_led_deinit_gpio_def
      mcuboot_button_init_def mcuboot_button_deinit_def mcuboot_ext_flash_power_on_def flash_power_on_mode_def
      split: board_rev.split)

subsection \<open>A button that is recorded\<close>

text \<open>A board whose button shows a given sequence, with a count of looks and of time waited.\<close>

record pins =
  p_polls :: nat
  p_waited :: nat

definition pins_board :: "(nat \<Rightarrow> bool) \<Rightarrow> pins board" where
  "pins_board smp =
    \<lparr>device_is_ready = (\<lambda>_ _. True), gpio_is_ready_dt = (\<lambda>_ _. True),
     gpio_pin_configure_dt = (\<lambda>_ _ w. (0, w)), gpio_pin_interrupt_configure_dt = (\<lambda>_ _ w. (0, w)),
     gpio_pin_get_dt = (\<lambda>_ w. (if smp (p_polls w) then 1 else 0, w\<lparr>p_polls := Suc (p_polls w)\<rparr>)),
     gpio_pin_set_dt = (\<lambda>_ _ w. w), gpio_init_callback = (\<lambda>_ _ _ w. w), gpio_add_callback = (\<lambda>_ _ w. w),
     io_led_set = (\<lambda>_ w. w), k_busy_wait = (\<lambda>t w. w\<lparr>p_waited := p_waited w + t\<rparr>), arch_irq_lock = (\<lambda>w. w),
     sys_poweroff = (\<lambda>w. w), sys_reboot = (\<lambda>w. w), board_revision = REV_2,
     led_red = \<lparr>gs_port = 0, gs_pin = 1\<rparr>, button0 = \<lparr>gs_port = 0, gs_pin = 2\<rparr>,
     g_supercap_active = \<lparr>gs_port = 0, gs_pin = 3\<rparr>, gpio_enable_sensors = \<lparr>gs_port = 0, gs_pin = 4\<rparr>,
     g_supercap_active_isr_gpio_cb_data = 0, isr_cb_supercap_active_address = 0,
     GPIO_INPUT = 1, GPIO_OUTPUT = 2, GPIO_OUTPUT_INACTIVE = 4, GPIO_OUTPUT_INIT_LOW = 8, GPIO_OUTPUT_INIT_HIGH = 16,
     GPIO_DISCONNECTED = 0, GPIO_PULL_UP = 32, GPIO_PULL_DOWN = 64, GPIO_INT_ENABLE = 128, GPIO_INT_DISABLE = 256,
     GPIO_INT_EDGE_FALLING = 128, GPIO_INT_LEVEL_HIGH = 128\<rparr>"

lemma pins_button_view: "button_view (pins_board smp) smp p_polls p_waited"
  by (auto simp: button_view_def pins_board_def)

subsection \<open>Properties\<close>

text \<open>
  C19. The blinking after a fatal error reboots the device exactly when the button is pressed after
  it was seen released, at the first such look, however many blinks it shows: a button that is held
  from the start does not reboot it until it is let go and pressed again. The button is looked at
  every 100 milliseconds, and the reboot comes 100 milliseconds after the look.
\<close>

theorem mcuboot_led_err_reboots_on_press:
  assumes "button_view G smp polls waited"
  shows "case mcuboot_led_err_blink_red_led G num w of
      None \<Rightarrow> \<not> (\<exists>i j. polls w \<le> i \<and> i < j \<and> \<not> smp i \<and> smp j)
    | Some w' \<Rightarrow> \<exists>k. fires smp (polls w) (polls w + k) \<and> (\<forall>i<k. \<not> fires smp (polls w) (polls w + i))
        \<and> polls w' = polls w + Suc k \<and> waited w' = waited w + k * 100000 + 100000"
proof -
  obtain b w1 where g: "mcuboot_button_get G w = (b, w1)"
    by (metis prod.exhaust)
  note gv = button_get_view [OF assms g]
  let ?st = "(\<not> b, mcuboot_led_green_off G w1)"
  have view: "polls (snd ?st) = Suc (polls w)" "waited (snd ?st) = waited w"
    using gv button_viewD(6,7) [OF assms] by (simp_all add: mcuboot_led_green_off_def mcuboot_led_green_set_def)
  have first: "\<not> fires smp (polls w) (polls w)"
    by (simp add: fires_def released_def)
  have st: "in_step smp polls (polls w) ?st"
  proof -
    have "released smp (polls w) (Suc (polls w)) \<longleftrightarrow> \<not> smp (polls w)"
      unfolding released_Suc by (auto simp: released_def)
    then show ?thesis
      using gv view by (simp add: in_step_def)
  qed
  have run: "mcuboot_led_err_blink_red_led G num w = blink_loop G num ?st"
    by (simp add: mcuboot_led_err_blink_red_led_def g)
  show ?thesis
  proof (cases "\<exists>k. fires smp (polls w) (polls w + k)")
    case True
    define k where "k = (LEAST k. fires smp (polls w) (polls w + k))"
    have k: "fires smp (polls w) (polls w + k)" "\<forall>i<k. \<not> fires smp (polls w) (polls w + i)"
      using LeastI_ex [OF True] not_less_Least unfolding k_def by blast+
    have "k \<noteq> 0"
      using k(1) first by (cases k) auto
    then obtain m where m: "k = Suc m"
      by (cases k) auto
    have "fires smp (polls w) (polls (snd ?st) + m)" "\<forall>i<m. \<not> fires smp (polls w) (polls (snd ?st) + i)"
      using k(1) k(2) [rule_format, of "Suc i" for i] unfolding view m by simp_all
    from blink_loop_ends [OF assms st this, of num] obtain w' where
        "blink_loop G num ?st = Some w'" "polls w' = polls w + Suc k" "waited w' = waited w + k * 100000 + 100000"
      unfolding view m by auto
    then show ?thesis
      using run k by auto
  next
    case False
    have "fires smp (polls w) j \<longleftrightarrow> fires smp (polls w) (polls w + (j - polls w))" for j
      by (cases "polls w \<le> j") (auto simp: fires_def released_def)
    then have none: "\<not> fires smp (polls w) j" for j
      using False by blast
    then have "blink_loop G num ?st = None"
      using blink_loop_fires [OF _ assms st] by (metis not_None_eq)
    moreover have "\<not> (\<exists>i j. polls w \<le> i \<and> i < j \<and> \<not> smp i \<and> smp j)"
      using none by (auto simp: fires_def released_def)
    ultimately show ?thesis
      by (simp add: run)
  qed
qed

theorem mcuboot_led_err_reboots_on_press_witness:
  "\<exists>w'. mcuboot_led_err_blink_red_led (pins_board (\<lambda>n. n \<noteq> 3)) 2 \<lparr>p_polls = 0, p_waited = 0\<rparr> = Some w'
     \<and> p_polls w' = 5 \<and> p_waited w' = 500000"
proof -
  let ?smp = "\<lambda>n. n \<noteq> (3 :: nat)" and ?w = "\<lparr>p_polls = 0, p_waited = 0\<rparr>"
  have f: "fires ?smp 0 k \<longleftrightarrow> 3 < k" for k
    by (auto simp: fires_def released_def)
  have ex: "\<exists>i j. p_polls ?w \<le> i \<and> i < j \<and> \<not> ?smp i \<and> ?smp j"
    by (rule exI [of _ 3], rule exI [of _ 4]) simp
  obtain w' where run: "mcuboot_led_err_blink_red_led (pins_board ?smp) 2 ?w = Some w'"
    using mcuboot_led_err_reboots_on_press [OF pins_button_view [of ?smp], where num = 2 and w = ?w] ex by (cases "mcuboot_led_err_blink_red_led (pins_board ?smp) 2 ?w") auto
  obtain k where k: "3 < k" "\<forall>i<k. \<not> 3 < i" "p_polls w' = Suc k" "p_waited w' = k * 100000 + 100000"
    using mcuboot_led_err_reboots_on_press [OF pins_button_view [of ?smp], where num = 2 and w = ?w] unfolding run by (auto simp: f)
  have "k = 4"
    using k(1) k(2) [rule_format, of 4] by (cases "k = 4") auto
  then show ?thesis
    using run k by simp
qed

text \<open>
  C31. The early initialisation either powers the device off or goes on. It goes on with the red LED an
  inactive output, the button an input with its pull-up, and the power of the external flash switched
  on in the way of the board revision; besides these pins only that of the supercap of the first
  revision has been configured. It powers off only on the first revision, with LED and button
  disconnected before.
\<close>

theorem mcuboot_early_init_configures:
  assumes "mode_view G mode" and "distinct [led_red G, button0 G, gpio_enable_sensors G, g_supercap_active G]"
  shows "case mcuboot_early_init_post_kernel G w of
      Inl w' \<Rightarrow> board_revision G = REV_1 \<and> (\<exists>u. w' = sys_poweroff G u
        \<and> mode u (led_red G) = GPIO_DISCONNECTED G \<and> mode u (button0 G) = GPIO_DISCONNECTED G)
    | Inr (rc, w') \<Rightarrow> rc = 0 \<and> mode w' (led_red G) = GPIO_OUTPUT_INACTIVE G
        \<and> mode w' (button0 G) = Bit_Operations.or (GPIO_INPUT G) (GPIO_PULL_UP G)
        \<and> mode w' (gpio_enable_sensors G) = flash_power_on_mode G
        \<and> (\<forall>p. p \<notin> {led_red G, button0 G, gpio_enable_sensors G}
              \<and> \<not> (board_revision G = REV_1 \<and> p = g_supercap_active G) \<longrightarrow> mode w' p = mode w p)"
proof -
  note m = mode_viewD [OF assms(1)] led_button_power_modes [OF assms(1)] gpio_input_mode [OF assms(1)]
  have on: "mode (mcuboot_ext_flash_power_on G (mcuboot_button_init G (mcuboot_led_init G u))) =
      (mode u)(led_red G := GPIO_OUTPUT_INACTIVE G, button0 G := Bit_Operations.or (GPIO_INPUT G) (GPIO_PULL_UP G),
        gpio_enable_sensors G := flash_power_on_mode G)" for u
    by (simp add: m)
  show ?thesis
  proof (cases "board_revision G")
    case REV_1
    let ?w1 = "mcuboot_gpio_input_init G (g_supercap_active G) 0 (Some (g_supercap_active_isr_gpio_cb_data G))
       (Some (isr_cb_supercap_active_address G)) (GPIO_INT_EDGE_FALLING G) w"
    obtain rc w2 where g: "gpio_pin_get_dt G (g_supercap_active G) ?w1 = (rc, w2)"
      by (metis prod.exhaust)
    have w2: "mode w2 = (mode w)(g_supercap_active G := Bit_Operations.or (GPIO_INPUT G) 0)"
      using m(6) [of "g_supercap_active G" ?w1] g m by simp
    have "\<exists>u. mcuboot_on_supercap_active G w2 = sys_poweroff G u
        \<and> mode u (led_red G) = GPIO_DISCONNECTED G \<and> mode u (button0 G) = GPIO_DISCONNECTED G"
      unfolding mcuboot_on_supercap_active_def by (rule exI, rule conjI, rule refl) (use assms(2) in \<open>simp add: m\<close>)
    then show ?thesis
      using assms(2) by (simp add: mcuboot_early_init_post_kernel_def REV_1 mcuboot_supercap_init_def g on w2)
  next
    case REV_2
    then show ?thesis
      using assms(2) by (simp add: mcuboot_early_init_post_kernel_def on)
  qed
qed

text \<open>A board that only remembers the modes of its pins.\<close>

definition modes_board :: "(gpio_dt_spec \<Rightarrow> gpio_flags_t) board" where
  "modes_board =
    \<lparr>device_is_ready = (\<lambda>_ _. True), gpio_is_ready_dt = (\<lambda>_ _. True),
     gpio_pin_configure_dt = (\<lambda>p fl w. (0, w(p := fl))), gpio_pin_interrupt_configure_dt = (\<lambda>_ _ w. (0, w)),
     gpio_pin_get_dt = (\<lambda>_ w. (0, w)), gpio_pin_set_dt = (\<lambda>_ _ w. w), gpio_init_callback = (\<lambda>_ _ _ w. w),
     gpio_add_callback = (\<lambda>_ _ w. w), io_led_set = (\<lambda>_ w. w), k_busy_wait = (\<lambda>_ w. w), arch_irq_lock = (\<lambda>w. w),
     sys_poweroff = (\<lambda>w. w), sys_reboot = (\<lambda>w. w), board_revision = REV_1,
     led_red = \<lparr>gs_port = 0, gs_pin = 1\<rparr>, button0 = \<lparr>gs_port = 0, gs_pin = 2\<rparr>,
     g_supercap_active = \<lparr>gs_port = 0, gs_pin = 3\<rparr>, gpio_enable_sensors = \<lparr>gs_port = 0, gs_pin = 4\<rparr>,
     g_supercap_active_isr_gpio_cb_data = 0, isr_cb_supercap_active_address = 0,
     GPIO_INPUT = 1, GPIO_OUTPUT = 2, GPIO_OUTPUT_INACTIVE = 4, GPIO_OUTPUT_INIT_LOW = 8, GPIO_OUTPUT_INIT_HIGH = 16,
     GPIO_DISCONNECTED = 0, GPIO_PULL_UP = 32, GPIO_PULL_DOWN = 64, GPIO_INT_ENABLE = 128, GPIO_INT_DISABLE = 256,
     GPIO_INT_EDGE_FALLING = 128, GPIO_INT_LEVEL_HIGH = 128\<rparr>"

theorem mcuboot_early_init_configures_witness:
  "\<exists>w'. mcuboot_early_init_post_kernel modes_board (\<lambda>_. 0) = Inr (0, w')
     \<and> w' \<lparr>gs_port = 0, gs_pin = 2\<rparr> = 33 \<and> w' \<lparr>gs_port = 0, gs_pin = 4\<rparr> = 65 \<and> w' \<lparr>gs_port = 0, gs_pin = 9\<rparr> = 0"
proof -
  have view: "mode_view modes_board (\<lambda>w. w)"
    by (simp add: mode_view_def modes_board_def)
  have dist: "distinct [led_red modes_board, button0 modes_board, gpio_enable_sensors modes_board, g_supercap_active modes_board]"
    by (simp add: modes_board_def)
  have "\<exists>w'. mcuboot_early_init_post_kernel modes_board (\<lambda>_. 0) = Inr (0, w')"
    by (simp add: mcuboot_early_init_post_kernel_def mcuboot_supercap_init_def modes_board_def)
  then obtain w' where run: "mcuboot_early_init_post_kernel modes_board (\<lambda>_. 0) = Inr (0, w')"
    by blast
  have "w' (button0 modes_board) = 33" "w' (gpio_enable_sensors modes_board) = 65"
    "w' \<lparr>gs_port = 0, gs_pin = 9\<rparr> = 0"
    using mcuboot_early_init_configures [OF view dist, of "\<lambda>_. 0"] unfolding run
    by (simp_all add: modes_board_def flash_power_on_mode_def)
  then show ?thesis
    using run by (simp add: modes_board_def)
qed

end
