(* ===== verification/Rtt_Log.thy ===== *)
theory Rtt_Log
  imports Board_Io
begin

section \<open>The RTT console (\<open>mcuboot_segger_rtt.c\<close>, \<open>mcuboot_wrap_printk.c\<close>)\<close>

text \<open>
  The check of where the linker has put the RTT data, which ends in the blinking of
  \<open>mcuboot_led_err.c\<close> when it fails, and the copy of every \<open>printk\<close> to the RTT console.

  Rendering a format with its arguments is a parameter: the text, or nothing where \<open>vsnprintf\<close>
  reports an error. What \<open>vsnprintf\<close> stores of a text in a buffer is modelled as the C standard says.
  The local buffer starts with arbitrary contents, which is an argument.
\<close>

record 'w rtt =
  SEGGER_RTT_Write :: "nat \<Rightarrow> byte list \<Rightarrow> 'w \<Rightarrow> 'w"
  use_segger_rtt :: bool
  rtt_and_uart_console :: bool
  rtt_buff_data_start :: u32
  rtt_buff_data_end :: u32
  CONFIG_SRAM_BASE_ADDRESS :: u32
  RTT_DATA_SRAM_ADDR :: u32
  RTT_DATA_SRAM_SIZE :: u32

text \<open>\<open>Inl\<close> is the world after a reboot, \<open>None\<close> blinking for ever.\<close>

definition MCUBOOT_ASSERT :: "'w board \<Rightarrow> bool \<Rightarrow> 'w \<Rightarrow> ('w + 'w) option" where
  "MCUBOOT_ASSERT G test w =
     (if \<not> test then do {
        w \<leftarrow> mcuboot_led_err_blink_red_led G NUM_RED_LED_BLINKS_ON_ASSERT (arch_irq_lock G w);
        Some (Inl w)
      } else Some (Inr w))"

text \<open>The next assertion is reached when the one before has passed.\<close>

definition and_then :: "('w + 'w) option \<Rightarrow> ('w \<Rightarrow> ('w + 'w) option) \<Rightarrow> ('w + 'w) option" where
  "and_then r k = do { x \<leftarrow> r; (case x of Inl w \<Rightarrow> Some (Inl w) | Inr w \<Rightarrow> k w) }"

definition mcuboot_segger_rtt_check_data_location_and_size :: "'w board \<Rightarrow> 'w rtt \<Rightarrow> 'w \<Rightarrow> ('w + 'w) option" where
  "mcuboot_segger_rtt_check_data_location_and_size G R w =
     (if use_segger_rtt R then
        let rtt_buff_size = rtt_buff_data_end R - rtt_buff_data_start R in
        and_then (MCUBOOT_ASSERT G (rtt_buff_data_start R = CONFIG_SRAM_BASE_ADDRESS R) w) (\<lambda>w.
        and_then (MCUBOOT_ASSERT G (rtt_buff_size mod 0x1000 = 0) w) (\<lambda>w.
        and_then (MCUBOOT_ASSERT G (rtt_buff_data_start R = RTT_DATA_SRAM_ADDR R) w) (\<lambda>w.
        MCUBOOT_ASSERT G (rtt_buff_size = RTT_DATA_SRAM_SIZE R) w)))
      else Some (Inr w))"

definition mcuboot_segger_rtt_write :: "'w rtt \<Rightarrow> byte list \<Rightarrow> 'w \<Rightarrow> 'w" where
  "mcuboot_segger_rtt_write R buffer w = SEGGER_RTT_Write R 0 buffer w"

definition SEGGER_RTT_WRAP_LOG_BUFFER_SIZE :: nat where
  "SEGGER_RTT_WRAP_LOG_BUFFER_SIZE = 192"

text \<open>The characters \<open>...\<close>, carriage return and line feed.\<close>

definition trunc_msg :: "byte list" where
  "trunc_msg = [46, 46, 46, 13, 10]"

text \<open>A rendered text in a buffer of \<open>n\<close> bytes: cut off, and terminated.\<close>

definition vsnprintf_stores :: "nat \<Rightarrow> byte list \<Rightarrow> byte list \<Rightarrow> byte list" where
  "vsnprintf_stores n str buf = overlay (take (n - 1) str @ [0]) buf"

definition put_at :: "nat \<Rightarrow> byte list \<Rightarrow> byte list \<Rightarrow> byte list" where
  "put_at off new buf = take off buf @ overlay new (drop off buf)"

definition vprintk_to_segger_rtt ::
  "'w rtt \<Rightarrow> ('a \<Rightarrow> byte list option) \<Rightarrow> 'a \<Rightarrow> byte list \<Rightarrow> 'w \<Rightarrow> 'w"
where
  "vprintk_to_segger_rtt R render fmt_ap log_buffer w =
     (case render fmt_ap of
        None \<Rightarrow> w
      | Some str \<Rightarrow>
          let sz = SEGGER_RTT_WRAP_LOG_BUFFER_SIZE;
              log_buffer = vsnprintf_stores sz str log_buffer;
              len = length str;
              (log_buffer, len) = (if len \<ge> sz
                then ((put_at (sz - (1 + length trunc_msg)) trunc_msg log_buffer)[sz - 1 := 0], sz - 1)
                else (log_buffer, len))
          in if len > 0 then mcuboot_segger_rtt_write R (take len log_buffer) w else w)"

definition wrap_vprintk ::
  "'w rtt \<Rightarrow> ('a \<Rightarrow> byte list option) \<Rightarrow> ('a \<Rightarrow> 'w \<Rightarrow> 'w) \<Rightarrow> 'a \<Rightarrow> byte list \<Rightarrow> 'w \<Rightarrow> 'w"
where
  "wrap_vprintk R render real_vprintk fmt_ap log_buffer w =
     (let w = (if rtt_and_uart_console R then vprintk_to_segger_rtt R render fmt_ap log_buffer w else w)
      in real_vprintk fmt_ap w)"

subsection \<open>Properties\<close>

text \<open>What reaches the console of a text.\<close>

definition console_text :: "byte list \<Rightarrow> byte list" where
  "console_text str = (if length str < 192 then str else take 186 str @ trunc_msg)"

text \<open>
  C37. The RTT console receives a rendered text unchanged when it has fewer than 192 characters, and
  otherwise its first 186 characters and the mark of truncation; never more than 191 bytes, never a
  byte of the buffer that was not written, and nothing for an empty text or a failed rendering.
\<close>

theorem vprintk_to_segger_rtt_bounded:
  assumes "length buf = 192"
  shows "vprintk_to_segger_rtt R render x buf w =
     (case render x of None \<Rightarrow> w
      | Some str \<Rightarrow> if str = [] then w else SEGGER_RTT_Write R 0 (console_text str) w)
    \<and> (\<forall>str. length (console_text str) \<le> 191)"
proof
  show "\<forall>str. length (console_text str) \<le> 191"
    by (simp add: console_text_def trunc_msg_def)
  show "vprintk_to_segger_rtt R render x buf w =
     (case render x of None \<Rightarrow> w
      | Some str \<Rightarrow> if str = [] then w else SEGGER_RTT_Write R 0 (console_text str) w)"
  proof (cases "render x")
    case (Some str)
    show ?thesis
    proof (cases "length str < 192")
      case True
      then have "take (length str) (vsnprintf_stores 192 str buf) = str"
        by (simp add: vsnprintf_stores_def overlay_def)
      then show ?thesis
        using Some True by (simp add: vprintk_to_segger_rtt_def SEGGER_RTT_WRAP_LOG_BUFFER_SIZE_def
            mcuboot_segger_rtt_write_def console_text_def)
    next
      case False
      let ?b = "vsnprintf_stores 192 str buf"
      have "?b = take 191 str @ [0]"
        using False assms by (simp add: vsnprintf_stores_def)
      then have "take 186 ?b = take 186 str" "length ?b = 192"
        using False by simp_all
      then have "take 191 ((put_at 186 trunc_msg ?b)[191 := 0]) = take 186 str @ trunc_msg"
        using False by (simp add: put_at_def overlay_def trunc_msg_def)
      then show ?thesis
        using Some False by (auto simp: vprintk_to_segger_rtt_def SEGGER_RTT_WRAP_LOG_BUFFER_SIZE_def
            mcuboot_segger_rtt_write_def console_text_def trunc_msg_def)
    qed
  qed (simp add: vprintk_to_segger_rtt_def)
qed

definition demo_rtt :: "byte list rtt" where
  "demo_rtt = \<lparr>SEGGER_RTT_Write = (\<lambda>_ bs out. out @ bs), use_segger_rtt = True, rtt_and_uart_console = True,
     rtt_buff_data_start = 0, rtt_buff_data_end = 0x1000, CONFIG_SRAM_BASE_ADDRESS = 0, RTT_DATA_SRAM_ADDR = 0,
     RTT_DATA_SRAM_SIZE = 0x1000\<rparr>"

theorem vprintk_to_segger_rtt_bounded_witness:
  "vprintk_to_segger_rtt demo_rtt Some (replicate 300 65) (replicate 192 0) [] = replicate 186 65 @ trunc_msg"
proof -
  have "length (replicate 192 0 :: byte list) = 192"
    by simp
  from vprintk_to_segger_rtt_bounded [OF this, of demo_rtt Some "replicate 300 65" "[]"] show ?thesis
    by (simp add: console_text_def demo_rtt_def)
qed

end
