(* ===== verification/Hook.thy ===== *)
theory Hook
  imports Fw_Update Rtt_Log
begin

section \<open>The entry from MCUboot (\<open>mcuboot_hook.c\<close>)\<close>

text \<open>
  MCUboot reports its progress through \<open>mcuboot_status_change\<close>. At startup the hook checks where RTT
  data lies, reads the hardware revision of the running image, compares it and the version of the
  image with what the bootloader was built for, and only then looks for updates; after that it hands
  data of the active slot to the application.

  The options and constants of the build and the functions of MCUboot that store shared data are
  parameters, in the record \<open>hook\<close>. The model is of a build without assertions: with them the code
  does not compile (the message names a field that does not exist). A check that fails ends in a loop
  of sleeps for ever, which is an exit value.

  The theorems: startup returns; updates are only looked for behind the checks, a device that halts
  has not been touched, and the version string that is compared is complete and names one version.
\<close>

datatype boot_status =
    MCUBOOT_STATUS_STARTUP
  | MCUBOOT_STATUS_UPGRADING
  | MCUBOOT_STATUS_BOOTABLE_IMAGE_FOUND
  | MCUBOOT_STATUS_NO_BOOTABLE_IMAGE_FOUND
  | MCUBOOT_STATUS_BOOT_FAILED
  | MCUBOOT_STATUS_OTHER

datatype 's startup_t = Continues 's | Reboots 's | Halts 's

record image_max_size =
  calculated :: bool
  max_size :: u32

record 'w hook =
  mcuboot_measured_boot :: bool
  mcuboot_data_sharing :: bool
  ncs_is_variant_image :: bool
  board_ruuviair_rev :: "board_rev option"
  BOOT_IMAGE_NUMBER :: nat
  CONFIG_MCUBOOT_MCUBOOT_IMAGE_NUMBER :: nat
  FLASH_AREA_IMAGE_PRIMARY :: "nat \<Rightarrow> fa_id_t"
  FLASH_AREA_IMAGE_SECONDARY :: "nat \<Rightarrow> fa_id_t"
  MCUBOOT_VERSION_TWEAK_STRING :: string
  boot_save_boot_status :: "u8 \<Rightarrow> image_header \<Rightarrow> flash_area \<Rightarrow> 'w \<Rightarrow> int \<times> 'w"
  boot_save_shared_data :: "image_header \<Rightarrow> flash_area \<Rightarrow> slot_id_t \<Rightarrow> image_max_size list \<Rightarrow> 'w \<Rightarrow> int \<times> 'w"

definition g_cfg_hw_rev :: "'w hook \<Rightarrow> int" where
  "g_cfg_hw_rev H = (case board_ruuviair_rev H of Some REV_1 \<Rightarrow> 1 | Some REV_2 \<Rightarrow> 2 | None \<Rightarrow> 0)"

subsection \<open>Shared data\<close>

definition app_max_size :: "'w os \<Rightarrow> fa_id_t \<Rightarrow> fa_id_t \<Rightarrow> 'w \<Rightarrow> u32 \<times> 'w" where
  "app_max_size E fa_id1 fa_id2 w =
     (case flash_area_open E fa_id1 w of ((rc, fa), w) \<Rightarrow>
      if rc \<noteq> 0 then (0, w)
      else let primary_sz = fa_size fa; w = flash_area_close E fa w in
      (case flash_area_open E fa_id2 w of ((rc, fa), w) \<Rightarrow>
      if rc \<noteq> 0 then (0, w)
      else let secondary_sz = fa_size fa; w = flash_area_close E fa w in
      (if secondary_sz < primary_sz then secondary_sz else primary_sz, w)))"

definition boot_add_shared_data ::
  "'w hook \<Rightarrow> 'w os \<Rightarrow> slot_id_t \<Rightarrow> fa_id_t \<Rightarrow> flash_area \<Rightarrow> 'w \<Rightarrow> bool \<times> 'w"
where
  "boot_add_shared_data H E active_slot active_fa_id p_fa w =
     (if mcuboot_measured_boot H \<or> mcuboot_data_sharing H then
        (case load_image_header E active_fa_id image_header_zero w of ((ok, img_hdr), w) \<Rightarrow>
         if \<not> ok then (False, w)
         else
           let w = (if mcuboot_measured_boot H then snd (boot_save_boot_status H 0 img_hdr p_fa w) else w) in
           (case app_max_size E (FLASH_AREA_IMAGE_PRIMARY H 0) (FLASH_AREA_IMAGE_SECONDARY H 0) w of (size0, w) \<Rightarrow>
           case app_max_size E (FLASH_AREA_IMAGE_PRIMARY H (CONFIG_MCUBOOT_MCUBOOT_IMAGE_NUMBER H))
                  (FLASH_AREA_IMAGE_PRIMARY H (CONFIG_MCUBOOT_MCUBOOT_IMAGE_NUMBER H)) w of (size1, w) \<Rightarrow>
           let max_app_sizes = (replicate (BOOT_IMAGE_NUMBER H) \<lparr>calculated = False, max_size = 0\<rparr>)
                 [0 := \<lparr>calculated = True, max_size = size0\<rparr>,
                  CONFIG_MCUBOOT_MCUBOOT_IMAGE_NUMBER H := \<lparr>calculated = True, max_size = size1\<rparr>] in
           if mcuboot_data_sharing H then
             (case boot_save_shared_data H img_hdr p_fa active_slot max_app_sizes w of (rc, w) \<Rightarrow>
              if rc \<noteq> 0 then (False, w) else (True, w))
           else (True, w)))
      else (True, w))"

definition save_shared_data_for_active_slot :: "'w hook \<Rightarrow> 'w os \<Rightarrow> slot_id_t \<Rightarrow> fa_id_t \<Rightarrow> 'w \<Rightarrow> 'w" where
  "save_shared_data_for_active_slot H E mcuboot_active_slot mcuboot_active_fa_id w =
     (case flash_area_open E mcuboot_active_fa_id w of ((rc, p_fa), w) \<Rightarrow>
      if rc \<noteq> 0 then w
      else flash_area_close E p_fa (snd (boot_add_shared_data H E mcuboot_active_slot mcuboot_active_fa_id p_fa w)))"

subsection \<open>The running image\<close>

text \<open>\<open>Some\<close> of what is stored through the last parameter, when it is stored; the result is ignored
  where the caller passes a null pointer.\<close>

definition print_image_info ::
  "image_abi \<Rightarrow> 'w os \<Rightarrow> fa_id_t \<Rightarrow> 'w fw \<Rightarrow> (fw_image_hw_rev_t option \<times> 'w fw) option"
where
  "print_image_info A E i s =
     (case on_world (get_flash_area_address_and_size E i) s of ((ok, fa_addr, _), s) \<Rightarrow>
      if \<not> ok then Some (None, s)
      else (case fw_info_find E fa_addr (g_shared_img_buf s) (world s) of
        None \<Rightarrow> Some (None, s)
      | Some _ \<Rightarrow>
        (case on_world (load_image_header E i image_header_zero) s of ((ok, _), s) \<Rightarrow>
         if \<not> ok then Some (None, s)
         else do {
           ((_, hw_rev), s) \<leftarrow> on_world_opt (fw_img_hw_rev_find_in_flash_area A E i hw_rev_zero) s;
           Some (Some hw_rev, s)
         })))"

definition on_startup_print_slots_info_and_get_hw_rev ::
  "image_abi \<Rightarrow> config \<Rightarrow> 'w os \<Rightarrow> slot_id_t \<Rightarrow> 'w fw \<Rightarrow> (fw_image_hw_rev_t \<times> 'w fw) option"
where
  "on_startup_print_slots_info_and_get_hw_rev A K E mcuboot_active_slot s = do {
     (r0, s) \<leftarrow> print_image_info A E (PM_ID_s0 K) s;
     (r1, s) \<leftarrow> print_image_info A E (PM_ID_s1 K) s;
     (_, s) \<leftarrow> print_image_info A E (PM_ID_mcuboot_primary K) s;
     (_, s) \<leftarrow> print_image_info A E (PM_ID_mcuboot_secondary K) s;
     Some (case (if mcuboot_active_slot = 0 then r0 else r1) of None \<Rightarrow> hw_rev_zero | Some hr \<Rightarrow> hr, s)
   }"

subsection \<open>The version string\<close>

text \<open>What \<open>snprintf\<close> prints for \<open>%u\<close>, and for the version; it stores at most 31 characters.\<close>

fun decimal :: "nat \<Rightarrow> string" where
  "decimal n = (if n < 10 then [char_of (48 + n)] else decimal (n div 10) @ [char_of (48 + n mod 10)])"

declare decimal.simps [simp del]

definition version_text :: "image_version \<Rightarrow> string" where
  "version_text v = decimal (unat (iv_major v)) @ ''.'' @ decimal (unat (iv_minor v)) @ ''.''
     @ decimal (unat (iv_revision v)) @ ''+'' @ decimal (unat (iv_build_num v))"

definition expected_version_str :: "config \<Rightarrow> string" where
  "expected_version_str K = take 31 (version_text (mcuboot_s0_s1_image_version K))"

subsection \<open>Startup\<close>

definition on_startup ::
  "image_abi \<Rightarrow> 'c crypto \<Rightarrow> config \<Rightarrow> 'w os \<Rightarrow> 'w hook \<Rightarrow> 'w board \<Rightarrow> 'w rtt \<Rightarrow> 'w fw \<Rightarrow> 'w fw startup_t option"
where
  "on_startup A C K E H G R s = do {
     rtt \<leftarrow> mcuboot_segger_rtt_check_data_location_and_size G R (world s);
     (case rtt of
       Inl w \<Rightarrow> Some (Reboots (s\<lparr>world := w\<rparr>))
     | Inr w \<Rightarrow> do {
         let s = s\<lparr>world := w\<rparr>;
         let mcuboot_active_slot = (if \<not> ncs_is_variant_image H then 0 else 1);
         let mcuboot_active_fa_id = (if mcuboot_active_slot = 0 then PM_ID_s0 K else PM_ID_s1 K);
         (hw_rev, s) \<leftarrow> on_startup_print_slots_info_and_get_hw_rev A K E mcuboot_active_slot s;
         if hw_rev_num hw_rev \<noteq> u32_of_int (g_cfg_hw_rev H) then Some (Halts s)
         else (case on_world (load_image_header E (if mcuboot_active_slot = 0 then PM_ID_s0 K else PM_ID_s1 K)
                               image_header_zero) s of ((ok, img_hdr), s) \<Rightarrow>
           if \<not> ok then Some (Continues s)
           else if iv_major (ih_ver img_hdr) \<noteq> iv_major (mcuboot_s0_s1_image_version K)
             \<or> iv_minor (ih_ver img_hdr) \<noteq> iv_minor (mcuboot_s0_s1_image_version K)
             \<or> iv_revision (ih_ver img_hdr) \<noteq> iv_revision (mcuboot_s0_s1_image_version K)
             \<or> iv_build_num (ih_ver img_hdr) \<noteq> iv_build_num (mcuboot_s0_s1_image_version K)
           then Some (Halts s)
           else if expected_version_str K \<noteq> MCUBOOT_VERSION_TWEAK_STRING H then Some (Halts s)
           else do {
             e \<leftarrow> mcuboot_fw_update A C K E mcuboot_active_slot hw_rev s;
             (case e of
               Rebooted s \<Rightarrow> Some (Reboots s)
             | Returned s \<Rightarrow>
                 let s = s\<lparr>world := save_shared_data_for_active_slot H E mcuboot_active_slot mcuboot_active_fa_id (world s)\<rparr>;
                     s = (if use_segger_rtt R then s\<lparr>world := k_msleep E 500 (world s)\<rparr> else s)
                 in Some (Continues s))
           })
       })
   }"

definition on_bootable_image_found :: "'w os \<Rightarrow> 'w fw \<Rightarrow> 'w fw" where
  "on_bootable_image_found E s = s\<lparr>world := k_msleep E 100 (world s)\<rparr>"

definition mcuboot_status_change ::
  "image_abi \<Rightarrow> 'c crypto \<Rightarrow> config \<Rightarrow> 'w os \<Rightarrow> 'w hook \<Rightarrow> 'w board \<Rightarrow> 'w rtt \<Rightarrow> boot_status \<Rightarrow> 'w fw
   \<Rightarrow> 'w fw startup_t option"
where
  "mcuboot_status_change A C K E H G R status s =
     (case status of
        MCUBOOT_STATUS_STARTUP \<Rightarrow> on_startup A C K E H G R s
      | MCUBOOT_STATUS_UPGRADING \<Rightarrow> Some (Continues s)
      | MCUBOOT_STATUS_BOOTABLE_IMAGE_FOUND \<Rightarrow> Some (Continues (on_bootable_image_found E s))
      | MCUBOOT_STATUS_NO_BOOTABLE_IMAGE_FOUND \<Rightarrow> Some (Continues s)
      | MCUBOOT_STATUS_BOOT_FAILED \<Rightarrow> Some (Continues s)
      | MCUBOOT_STATUS_OTHER \<Rightarrow> Some (Continues s))"

text \<open>Replaces a function of the library that checks signatures: only the immutable bootloader may
  invalidate a key.\<close>

definition wrap_invalidate_public_key :: "u32 \<Rightarrow> 'w \<Rightarrow> 'w" where
  "wrap_invalidate_public_key key_idx w = w"

subsection \<open>Decimal numbers\<close>

definition is_digit :: "char \<Rightarrow> bool" where
  "is_digit c \<longleftrightarrow> 48 \<le> (of_char c :: nat) \<and> (of_char c :: nat) < 58"

definition number_of :: "string \<Rightarrow> nat" where
  "number_of = foldl (\<lambda>n c. 10 * n + (of_char c - 48)) 0"

lemma is_digit_char_of: "d < 10 \<Longrightarrow> is_digit (char_of (48 + d :: nat))"
  by (simp add: is_digit_def)

lemma decimal_digits: "list_all is_digit (decimal n)"
proof (induction n rule: decimal.induct)
  case (1 n)
  then show ?case
    by (subst decimal.simps) (simp add: is_digit_char_of)
qed

lemma number_of_decimal: "number_of (decimal n) = n"
proof (induction n rule: decimal.induct)
  case (1 n)
  show ?case
  proof (cases "n < 10")
    case True
    then show ?thesis
      by (subst decimal.simps) (simp add: number_of_def)
  next
    case False
    have "number_of (decimal n) = 10 * number_of (decimal (n div 10)) + n mod 10"
      using False by (subst decimal.simps) (simp add: number_of_def)
    then show ?thesis
      using 1 False by simp
  qed
qed

lemma length_decimal: "n < 10 ^ Suc k \<Longrightarrow> length (decimal n) \<le> Suc k"
proof (induction k arbitrary: n)
  case 0
  then show ?case
    by (subst decimal.simps) simp
next
  case (Suc k)
  show ?case
  proof (cases "n < 10")
    case True
    then show ?thesis
      by (subst decimal.simps) simp
  next
    case False
    have "n div 10 < 10 ^ Suc k"
      using Suc.prems by (simp add: less_mult_imp_div_less mult.commute)
    then show ?thesis
      using False Suc.IH by (subst decimal.simps) simp
  qed
qed

lemma decimal_separated:
  assumes "decimal m @ c # xs = decimal n @ c # ys" and "\<not> is_digit c"
  shows "m = n \<and> xs = ys"
proof -
  have t: "takeWhile is_digit (decimal k @ c # zs) = decimal k" for k zs
    using decimal_digits [of k] assms(2) by (simp add: takeWhile_append2 list_all_iff)
  have "decimal m = decimal n"
    using arg_cong [OF assms(1), of "takeWhile is_digit"] by (simp only: t)
  then show ?thesis
    using assms(1) number_of_decimal by (metis append_same_eq list.inject same_append_eq)
qed

lemma separators: "\<not> is_digit (CHR ''.'')" "\<not> is_digit (CHR ''+'')"
  by (simp_all add: is_digit_def)

lemma version_text_inject: "version_text v = version_text v' \<longleftrightarrow> v = v'"
proof
  assume eq: "version_text v = version_text v'"
  note e1 = decimal_separated [OF eq [unfolded version_text_def append.simps] separators(1)]
  note e2 = decimal_separated [OF conjunct2 [OF e1] separators(1)]
  note e3 = decimal_separated [OF conjunct2 [OF e2] separators(2)]
  have "unat (iv_build_num v) = unat (iv_build_num v')"
    using conjunct2 [OF e3] number_of_decimal by metis
  then show "v = v'"
    using conjunct1 [OF e1] conjunct1 [OF e2] conjunct1 [OF e3]
    by (intro image_version.equality) (simp_all add: word_unat_eq_iff)
qed simp

lemma unat_u8_bound: "unat (l :: u8) < 256"
  using unsigned_less [of l] by simp

lemma length_version_text: "length (version_text v) \<le> 24"
proof -
  have a: "unat (iv_major v) < 10 ^ Suc 2" "unat (iv_minor v) < 10 ^ Suc 2"
    using unat_u8_bound [of "iv_major v"] unat_u8_bound [of "iv_minor v"] by simp_all
  have b: "unat (iv_revision v) < 10 ^ Suc 4" "unat (iv_build_num v) < 10 ^ Suc 9"
    using unat_u16_bound [of "iv_revision v"] unat_u32_bound [of "iv_build_num v"] by simp_all
  show ?thesis
    using a [THEN length_decimal] b [THEN length_decimal] by (simp add: version_text_def)
qed

subsection \<open>What startup does to the device\<close>

text \<open>What MCUboot documents: storing shared data writes to RAM that is handed to the application.\<close>

definition hook_spec :: "('w \<Rightarrow> dev) \<Rightarrow> 'w hook \<Rightarrow> bool" where
  "hook_spec dv H \<longleftrightarrow>
     (\<forall>m h fa w r w'. boot_save_boot_status H m h fa w = (r, w') \<longrightarrow> dv w' = dv w)
     \<and> (\<forall>h fa sl ms w r w'. boot_save_shared_data H h fa sl ms w = (r, w') \<longrightarrow> dv w' = dv w)"

lemma app_max_size_frame [frame]:
  assumes "flash_spec rel dv E" and "app_max_size E i j w = (r, w')"
  shows "dv w' = dv w"
proof -
  have op: "dv w2 = dv w1" if "flash_area_open E k w1 = (x, w2)" for k w1 x w2
    using flash_specD(1) [OF assms(1)] that unfolding flash_open_spec_def by (metis prod.exhaust)
  have cl: "dv (flash_area_close E fa w1) = dv w1" for fa w1
    using flash_specD(3) [OF assms(1)] by (simp add: flash_close_spec_def)
  obtain x1 w1 where o1: "flash_area_open E i w = (x1, w1)"
    by (metis prod.exhaust)
  obtain x2 w2 where o2: "flash_area_open E j (flash_area_close E (snd x1) w1) = (x2, w2)"
    by (metis prod.exhaust)
  show ?thesis
    using assms(2) op [OF o1] op [OF o2] cl o1 o2
    by (cases x1; cases x2) (auto simp: app_max_size_def Let_def split: if_splits)
qed

lemma boot_add_shared_data_frame [frame]:
  assumes fl: "flash_spec rel dv E" and q: "query_spec dv E" and hk: "hook_spec dv H"
    and run: "boot_add_shared_data H E sl i fa w = (r, w')"
  shows "dv w' = dv w"
proof -
  obtain ok h w1 where ld: "load_image_header E i image_header_zero w = ((ok, h), w1)"
    by (metis prod.exhaust)
  define w2 where "w2 = (if mcuboot_measured_boot H then snd (boot_save_boot_status H 0 h fa w1) else w1)"
  obtain s0 w3 where a0: "app_max_size E (FLASH_AREA_IMAGE_PRIMARY H 0) (FLASH_AREA_IMAGE_SECONDARY H 0) w2 = (s0, w3)"
    by (metis prod.exhaust)
  let ?p = "FLASH_AREA_IMAGE_PRIMARY H (CONFIG_MCUBOOT_MCUBOOT_IMAGE_NUMBER H)"
  obtain s1 w4 where a1: "app_max_size E ?p ?p w3 = (s1, w4)"
    by (metis prod.exhaust)
  have d1: "dv w1 = dv w"
    by (rule load_image_header_frame [OF fl q ld])
  have d2: "dv w2 = dv w1"
    using hk prod.collapse [of "boot_save_boot_status H 0 h fa w1", symmetric]
    unfolding hook_spec_def w2_def by (metis (full_types))
  have d4: "dv w4 = dv w2"
    using app_max_size_frame [OF fl a0] app_max_size_frame [OF fl a1] by simp
  have sv: "dv w6 = dv w5" if "boot_save_shared_data H h fa sl ms w5 = (x, w6)" for ms w5 x w6
    using hk that unfolding hook_spec_def by blast
  show ?thesis
    using run d1 d2 d4 sv
    by (auto simp: boot_add_shared_data_def ld a0 a1 Let_def w2_def [symmetric] split: if_splits prod.splits)
qed

lemma save_shared_data_frame [frame]:
  assumes "flash_spec rel dv E" and "query_spec dv E" and "hook_spec dv H"
  shows "dv (save_shared_data_for_active_slot H E sl i w) = dv w"
proof -
  obtain rc fa w1 where o: "flash_area_open E i w = ((rc, fa), w1)"
    by (metis prod.exhaust)
  have "dv w1 = dv w"
    using flash_specD(1) [OF assms(1)] o unfolding flash_open_spec_def by blast
  moreover have "dv (snd (boot_add_shared_data H E sl i fa w1)) = dv w1"
    by (rule boot_add_shared_data_frame [OF assms prod.collapse [symmetric]])
  moreover have "dv (flash_area_close E fa w2) = dv w2" for w2
    using flash_specD(3) [OF assms(1)] by (simp add: flash_close_spec_def)
  ultimately show ?thesis
    by (simp add: save_shared_data_for_active_slot_def o)
qed

lemma print_image_info_answer [spec]:
  assumes plat: "fw_platform rel dv E A C" and ok: "fw_ok K s"
  shows "\<exists>r s'. print_image_info A E i s = Some (r, s') \<and> sdev dv s' = sdev dv s \<and> fw_ok K s'
    \<and> (\<forall>hr. r = Some hr \<longrightarrow> hw_rev_wf hr)"
proof -
  note fl = fw_platformD(2) [OF plat] and q = fw_platformD(3) [OF plat]
  obtain okA addr sz s1 where ar: "on_world (get_flash_area_address_and_size E i) s = ((okA, addr, sz), s1)"
    by (metis prod.exhaust)
  obtain okB h s2 where ld: "on_world (load_image_header E i image_header_zero) s1 = ((okB, h), s2)"
    by (metis prod.exhaust)
  have d1: "sdev dv s1 = sdev dv s" "fw_ok K s1"
    using get_flash_area_address_and_size_answer [OF fl on_worldD(1) [OF ar]] ok fw_kept(6) [OF ar] by simp_all
  have d2: "sdev dv s2 = sdev dv s" "fw_ok K s2"
    using load_image_header_frame [OF fl q on_worldD(1) [OF ld]] d1 fw_kept(6) [OF ld] by simp_all
  obtain okC hr w3 where hr: "fw_img_hw_rev_find_in_flash_area A E i hw_rev_zero (world s2) = Some ((okC, hr), w3)"
      "dv w3 = sdev dv s2" "hw_rev_wf hr"
    using find_in_flash_area_answer [OF fl q fw_platformD(4) [OF plat] hw_rev_wf_zero] by blast
  have o: "on_world_opt (fw_img_hw_rev_find_in_flash_area A E i hw_rev_zero) s2 = Some ((okC, hr), s2\<lparr>world := w3\<rparr>)"
    by (rule on_world_optI) (rule hr(1))
  consider "\<not> okA" | "okA" "fw_info_find E addr (g_shared_img_buf s1) (world s1) = None"
    | "okA" "fw_info_find E addr (g_shared_img_buf s1) (world s1) \<noteq> None" "\<not> okB"
    | "okA" "fw_info_find E addr (g_shared_img_buf s1) (world s1) \<noteq> None" "okB"
    by blast
  then show ?thesis
    by cases (use d1 d2 hr in \<open>auto simp: print_image_info_def ar ld o\<close>)
qed

lemma slots_info_answer [spec]:
  assumes plat: "fw_platform rel dv E A C" and ok: "fw_ok K s"
  shows "\<exists>hr s'. on_startup_print_slots_info_and_get_hw_rev A K E slot s = Some (hr, s')
    \<and> sdev dv s' = sdev dv s \<and> fw_ok K s' \<and> hw_rev_wf hr"
proof -
  obtain r0 s0 where a0: "print_image_info A E (PM_ID_s0 K) s = Some (r0, s0)" "sdev dv s0 = sdev dv s" "fw_ok K s0"
      "\<forall>hr. r0 = Some hr \<longrightarrow> hw_rev_wf hr"
    using print_image_info_answer [OF plat ok] by blast
  obtain r1 s1 where a1: "print_image_info A E (PM_ID_s1 K) s0 = Some (r1, s1)" "sdev dv s1 = sdev dv s0" "fw_ok K s1"
      "\<forall>hr. r1 = Some hr \<longrightarrow> hw_rev_wf hr"
    using print_image_info_answer [OF plat a0(3)] by blast
  obtain r2 s2 where a2: "print_image_info A E (PM_ID_mcuboot_primary K) s1 = Some (r2, s2)" "sdev dv s2 = sdev dv s1"
      "fw_ok K s2"
    using print_image_info_answer [OF plat a1(3)] by blast
  obtain r3 s3 where a3: "print_image_info A E (PM_ID_mcuboot_secondary K) s2 = Some (r3, s3)" "sdev dv s3 = sdev dv s2"
      "fw_ok K s3"
    using print_image_info_answer [OF plat a2(3)] by blast
  show ?thesis
    using a0 a1 a2 a3
    by (auto simp: on_startup_print_slots_info_and_get_hw_rev_def split: option.split)
qed

text \<open>RTT data lies where the device tree reserves room for it, or RTT is not used.\<close>

definition rtt_in_place :: "'w rtt \<Rightarrow> bool" where
  "rtt_in_place R \<longleftrightarrow>
     (if use_segger_rtt R
      then rtt_buff_data_start R = CONFIG_SRAM_BASE_ADDRESS R \<and> rtt_buff_data_start R = RTT_DATA_SRAM_ADDR R
        \<and> rtt_buff_data_end R = rtt_buff_data_start R + RTT_DATA_SRAM_SIZE R \<and> RTT_DATA_SRAM_SIZE R mod 0x1000 = 0
      else True)"

lemma rtt_check_passes:
  "rtt_in_place R \<Longrightarrow> mcuboot_segger_rtt_check_data_location_and_size G R w = Some (Inr w)"
  by (auto simp: rtt_in_place_def mcuboot_segger_rtt_check_data_location_and_size_def MCUBOOT_ASSERT_def and_then_def
      Let_def split: if_splits)

text \<open>Otherwise the first assertion that fails blinks the red LED, until a reboot or for ever.\<close>

lemma rtt_check_fails:
  assumes "\<not> rtt_in_place R"
  shows "mcuboot_segger_rtt_check_data_location_and_size G R w
    = map_option Inl (mcuboot_led_err_blink_red_led G NUM_RED_LED_BLINKS_ON_ASSERT (arch_irq_lock G w))"
    (is "_ = ?fail")
proof -
  have assertion: "MCUBOOT_ASSERT G t w = (if t then Some (Inr w) else ?fail)" for t
    by (cases "mcuboot_led_err_blink_red_led G NUM_RED_LED_BLINKS_ON_ASSERT (arch_irq_lock G w)")
      (simp_all add: MCUBOOT_ASSERT_def)
  have "and_then ?fail k = ?fail" and "and_then (Some (Inr w)) k = k w" for k
    by (cases "mcuboot_led_err_blink_red_led G NUM_RED_LED_BLINKS_ON_ASSERT (arch_irq_lock G w)")
      (simp_all add: and_then_def)
  then have chain: "and_then (if t then Some (Inr w) else ?fail) k = (if t then k w else ?fail)" for t k
    by simp
  let ?size = "rtt_buff_data_end R - rtt_buff_data_start R"
  have "?size = RTT_DATA_SRAM_SIZE R \<longleftrightarrow> rtt_buff_data_end R = rtt_buff_data_start R + RTT_DATA_SRAM_SIZE R"
    by (auto simp: algebra_simps)
  then have "\<not> (rtt_buff_data_start R = CONFIG_SRAM_BASE_ADDRESS R \<and> ?size mod 0x1000 = 0
      \<and> rtt_buff_data_start R = RTT_DATA_SRAM_ADDR R \<and> ?size = RTT_DATA_SRAM_SIZE R)" and "use_segger_rtt R"
    using assms unfolding rtt_in_place_def by metis+
  then show ?thesis
    unfolding mcuboot_segger_rtt_check_data_location_and_size_def Let_def chain assertion by presburger
qed

text \<open>The running image is for this board, and is the one this bootloader was built as.\<close>

definition startup_checks_passed ::
  "('w \<Rightarrow> dev) \<Rightarrow> config \<Rightarrow> 'w os \<Rightarrow> 'w hook \<Rightarrow> fw_image_hw_rev_t \<Rightarrow> dev \<Rightarrow> bool"
where
  "startup_checks_passed dv K E H hr d \<longleftrightarrow>
     hw_rev_wf hr \<and> hw_rev_num hr = u32_of_int (g_cfg_hw_rev H)
     \<and> MCUBOOT_VERSION_TWEAK_STRING H = version_text (mcuboot_s0_s1_image_version K)
     \<and> (\<exists>w h w'. dv w = d \<and> ih_ver h = mcuboot_s0_s1_image_version K
          \<and> load_image_header E (own_area K (if ncs_is_variant_image H then 1 else 0)) image_header_zero w = ((True, h), w'))"

lemma expected_version_str_eq: "expected_version_str K = version_text (mcuboot_s0_s1_image_version K)"
  using length_version_text [of "mcuboot_s0_s1_image_version K"] by (simp add: expected_version_str_def)

lemma on_startup_answer [spec]:
  fixes s :: "'w fw"
  assumes plat: "fw_platform rel dv E A C" and inv: "invalidate_spec dv E" and boot: "boot_spec dv K E"
    and hk: "hook_spec dv H" and rtt: "rtt_in_place R" and ok: "fw_ok K s"
  shows "\<exists>r. on_startup A C K E H G R s = Some r \<and>
    (case r of
       Halts s' \<Rightarrow> sdev dv s' = sdev dv s
     | Continues s' \<Rightarrow> sdev dv s' = sdev dv s
         \<or> (\<exists>hr s1 s2. startup_checks_passed dv K E H hr (sdev dv s) \<and> sdev dv s1 = sdev dv s \<and> fw_ok K s1
              \<and> mcuboot_fw_update A C K E (if ncs_is_variant_image H then 1 else 0) hr s1 = Some (Returned s2)
              \<and> sdev dv s' = sdev dv s2)
     | Reboots s' \<Rightarrow> \<exists>hr s1. startup_checks_passed dv K E H hr (sdev dv s) \<and> sdev dv s1 = sdev dv s \<and> fw_ok K s1
         \<and> mcuboot_fw_update A C K E (if ncs_is_variant_image H then 1 else 0) hr s1 = Some (Rebooted s'))"
proof -
  note fl = fw_platformD(2) [OF plat] and q = fw_platformD(3) [OF plat]
  let ?slot = "if ncs_is_variant_image H then 1 else 0 :: nat" and ?ver = "mcuboot_s0_s1_image_version K"
  let ?fa = "own_area K ?slot"
  obtain hr s1 where hr: "on_startup_print_slots_info_and_get_hw_rev A K E ?slot s = Some (hr, s1)"
    and s1: "sdev dv s1 = sdev dv s" "fw_ok K s1" "hw_rev_wf hr"
    using slots_info_answer [OF plat ok] by blast
  obtain okB h s2 where ld: "on_world (load_image_header E ?fa image_header_zero) s1 = ((okB, h), s2)"
    by (metis prod.exhaust)
  have s2: "sdev dv s2 = sdev dv s" "fw_ok K s2"
    using load_image_header_frame [OF fl q on_worldD(1) [OF ld]] s1 fw_kept(6) [OF ld] by simp_all
  obtain e where e: "mcuboot_fw_update A C K E ?slot hr s2 = Some e"
    by (rule mcuboot_fw_update_run [OF plat inv boot s2(2) s1(3)])
  let ?same = "iv_major (ih_ver h) = iv_major ?ver \<and> iv_minor (ih_ver h) = iv_minor ?ver
      \<and> iv_revision (ih_ver h) = iv_revision ?ver \<and> iv_build_num (ih_ver h) = iv_build_num ?ver"
  define fin :: "'w fw \<Rightarrow> 'w fw" where "fin = (\<lambda>s. let s = s\<lparr>world := save_shared_data_for_active_slot H E ?slot ?fa (world s)\<rparr>;
                     s = (if use_segger_rtt R then s\<lparr>world := k_msleep E 500 (world s)\<rparr> else s) in s)"
  have run: "on_startup A C K E H G R s =
     (if hw_rev_num hr \<noteq> u32_of_int (g_cfg_hw_rev H) then Some (Halts s1)
      else if \<not> okB then Some (Continues s2)
      else if \<not> ?same then Some (Halts s2)
      else if expected_version_str K \<noteq> MCUBOOT_VERSION_TWEAK_STRING H then Some (Halts s2)
      else (case e of Rebooted s \<Rightarrow> Some (Reboots s) | Returned s \<Rightarrow> Some (Continues (fin s))))"
    using hr ld e by (auto simp: on_startup_def rtt_check_passes [OF rtt] own_area_def Let_def fin_def split: exit_t.split)
  show ?thesis
  proof (cases "hw_rev_num hr = u32_of_int (g_cfg_hw_rev H) \<and> okB \<and> ?same
      \<and> expected_version_str K = MCUBOOT_VERSION_TWEAK_STRING H")
    case False
    then show ?thesis
      using run s1 s2 by (auto split: if_splits)
  next
    case True
    have "ih_ver h = ?ver"
      using True by (intro image_version.equality) simp_all
    then have "startup_checks_passed dv K E H hr (sdev dv s)"
      using True s1 on_worldD(1) [OF ld] unfolding startup_checks_passed_def expected_version_str_eq [symmetric] by metis
    moreover have "sdev dv (fin t) = sdev dv t" for t
      using save_shared_data_frame [OF fl q hk] q by (simp add: query_spec_def Let_def fin_def)
    moreover have "on_startup A C K E H G R s =
        (case e of Rebooted s \<Rightarrow> Some (Reboots s) | Returned s \<Rightarrow> Some (Continues (fin s)))"
      using run True by simp
    ultimately show ?thesis
      using s2 e by (cases e; simp only: exit_t.case startup_t.case option.inject ex_simps simp_thms) blast+
  qed
qed

text \<open>What the update step may do behind the checks.\<close>

lemma checked_update_returns:
  assumes "fw_platform rel dv E A C" and "invalidate_spec dv E" and "boot_spec dv K E"
    and ch: "startup_checks_passed dv K E H hr d" and s1: "sdev dv s1 = d" "fw_ok K s1"
    and up: "mcuboot_fw_update A C K E slot hr s1 = Some (Returned s2)"
  shows "d_fds (sdev dv s2) = d_fds d"
    and "j \<noteq> PM_ID_littlefs_storage1 K \<Longrightarrow> d_flash (sdev dv s2) j = d_flash d j"
  using mcuboot_fw_update_returned [OF assms(1-3) s1(2) _ up] ch unfolding s1(1) startup_checks_passed_def by blast+

lemma checked_update_reboots:
  fixes slot :: slot_id_t
  assumes "fw_platform rel dv E A C" and "invalidate_spec dv E" and "boot_spec dv K E" and "files_persist dv E"
    and "areas_distinct K"
    and ch: "startup_checks_passed dv K E H hr d" and s1: "sdev dv s1 = d" "fw_ok K s1"
    and up: "mcuboot_fw_update A C K E slot hr s1 = Some (Rebooted s')"
  shows "(\<forall>j. j \<notin> update_areas K \<and> j \<noteq> PM_ID_littlefs_storage1 K \<longrightarrow> d_flash (sdev dv s') j = d_flash d j)
    \<and> (d_flash (sdev dv s') (own_area K slot) = d_flash d (own_area K slot)
       \<or> slot = 0 \<and> pending rel A K E hr (own_file K slot) (own_area K slot) d
         \<and> invalidated dv E (own_area K slot) d (d_flash (sdev dv s') (own_area K slot)))
    \<and> (\<forall>(n, i, b0) \<in> plan_targets K slot. d_flash (sdev dv s') i = d_flash d i
         \<or> installed_from rel dv A C K E hr n i b0 d (d_flash (sdev dv s') i))"
proof -
  have wf: "hw_rev_wf hr"
    using ch by (simp add: startup_checks_passed_def)
  obtain e where e: "mcuboot_fw_update A C K E slot hr s1 = Some e"
    and out: "\<And>j. j \<notin> update_areas K \<Longrightarrow> j \<noteq> PM_ID_littlefs_storage1 K
      \<Longrightarrow> d_flash (sdev dv (exit_state e)) j = d_flash (sdev dv s1) j"
    and own: "d_flash (sdev dv (exit_state e)) (own_area K slot) = d_flash (sdev dv s1) (own_area K slot)
      \<or> slot = 0 \<and> (\<exists>s'. e = Rebooted s') \<and> pending rel A K E hr (own_file K slot) (own_area K slot) (sdev dv s1)
        \<and> invalidated dv E (own_area K slot) (sdev dv s1) (d_flash (sdev dv (exit_state e)) (own_area K slot))"
    and inst: "\<And>n i b0. (n, i, b0) \<in> plan_targets K slot \<Longrightarrow> d_flash (sdev dv (exit_state e)) i = d_flash (sdev dv s1) i
      \<or> (\<exists>s'. e = Rebooted s')
        \<and> installed_from rel dv A C K E hr n i b0 (sdev dv s1) (d_flash (sdev dv (exit_state e)) i)"
    by (rule mcuboot_fw_update_effect [OF assms(1-4) s1(2) wf assms(5), of slot]) (rule that; assumption)
  have "exit_state e = s'"
    using up e by simp
  then show ?thesis
    using out own inst unfolding s1(1) by (intro conjI allI impI ballI; clarify?; metis)
qed

text \<open>
  Startup gets past the check of the RTT data exactly when RTT is not used or its data begins at
  the start of the RAM and fills, in whole pages of 4096 bytes, the region that the device tree
  reserves; the check then has touched nothing. Otherwise it ends in a reboot or in blinking for ever.
\<close>

lemma rtt_check_passes_iff:
  "mcuboot_segger_rtt_check_data_location_and_size G R w = Some (Inr w') \<longleftrightarrow> rtt_in_place R \<and> w' = w"
  by (auto simp: rtt_in_place_def mcuboot_segger_rtt_check_data_location_and_size_def MCUBOOT_ASSERT_def and_then_def
      Let_def algebra_simps bind_eq_Some_conv split: if_splits)

subsection \<open>Properties\<close>


definition demo_hook :: "board_rev option \<Rightarrow> ram hook" where
  "demo_hook br =
    \<lparr>mcuboot_measured_boot = True, mcuboot_data_sharing = True, ncs_is_variant_image = False,
     board_ruuviair_rev = br, BOOT_IMAGE_NUMBER = 2, CONFIG_MCUBOOT_MCUBOOT_IMAGE_NUMBER = 1,
     FLASH_AREA_IMAGE_PRIMARY = (\<lambda>i. if i = 0 then 3 else 2), FLASH_AREA_IMAGE_SECONDARY = (\<lambda>_. 4),
     MCUBOOT_VERSION_TWEAK_STRING = ''1.0.0+0'',
     boot_save_boot_status = (\<lambda>_ _ _ w. (0, w)), boot_save_shared_data = (\<lambda>_ _ _ _ w. (0, w))\<rparr>"

definition ram_rtt :: "ram rtt" where
  "ram_rtt =
    \<lparr>SEGGER_RTT_Write = (\<lambda>_ _ w. w), use_segger_rtt = True, rtt_and_uart_console = False,
     rtt_buff_data_start = 0x20000000, rtt_buff_data_end = 0x20008000, CONFIG_SRAM_BASE_ADDRESS = 0x20000000,
     RTT_DATA_SRAM_ADDR = 0x20000000, RTT_DATA_SRAM_SIZE = 0x8000\<rparr>"

lemma demo_hook_spec: "hook_spec ram_view (demo_hook br)"
  by (simp add: hook_spec_def demo_hook_def)

lemma ram_rtt_in_place: "rtt_in_place ram_rtt"
  by (simp add: rtt_in_place_def ram_rtt_def)

lemma replicate_update_same: "(replicate n x)[i := x] = replicate n x"
  by (induction n arbitrary: i) (auto split: nat.split)

lemma demo_slots: "\<exists>s1. on_startup_print_slots_info_and_get_hw_rev demo_abi demo_config (ram_os demo_abi demo_config) 0 update_fw
   = Some (hw_rev_zero, s1)"
  by (simp add: on_startup_print_slots_info_and_get_hw_rev_def print_image_info_def
      get_flash_area_address_and_size_def load_image_header_def old_image_def fw_img_hw_rev_find_in_flash_area_def
      fw_img_hw_rev_find_in_flash_area_internal_def find_tlvs_in_flash_area_def replicate_update_same
      fw_eval ram_eval)


text \<open>
  C39. The version string that startup compares with the one of the build is never cut off by its
  buffer of 32 bytes, and it names exactly one version: two versions have the same text only when
  they are equal.
\<close>

theorem expected_version_str_exact:
  "expected_version_str K = version_text (mcuboot_s0_s1_image_version K) \<and> length (expected_version_str K) < 32
    \<and> (expected_version_str K = expected_version_str K'
        \<longleftrightarrow> mcuboot_s0_s1_image_version K = mcuboot_s0_s1_image_version K')"
  using length_version_text [of "mcuboot_s0_s1_image_version K"]
  by (simp add: expected_version_str_eq version_text_inject)

end
