(* ===== verification/Boots.thy ===== *)
theory Boots
  imports Hook
begin

section \<open>Boot after boot\<close>

text \<open>
  An update goes over several boots: a boot that installs something ends in a reboot, and an update
  of the MCUboot slot that is running is left for the other slot, which runs in the next boot. Here
  the startup of \<open>mcuboot_hook.c\<close> is run again and again on what the last one left in flash and in
  the file system. The static variables start from zero each time, but for the shared image buffer: it
  lies in a memory region that nothing initialises, so it may hold anything, such as what the last boot
  left there. Which of the two MCUboot images runs, and of which version it is, is decided by the
  immutable bootloader B0. The list of boots, with the contents of that buffer at each, is an argument.

  The theorems say what a sequence of boots can do to the partitions, that it settles after at most two
  reboots where B0 changes slots, and that it may go on for ever where B0 does not.
\<close>

text \<open>
  The static variables at reset: zero, except for \<open>g_shared_img_buf\<close>. It is placed in a memory region of
  its own, and has the contents \<open>buf\<close> that are found there.
\<close>

definition power_on :: "byte list \<Rightarrow> 'w \<Rightarrow> 'w fw" where
  "power_on buf w =
     \<lparr>world = w, g_btldr_fs_mutex = 0, g_btldr_fs_abs_path = [], g_btldr_fs_dir_entry = FS_DIR_ENTRY_FILE,
      g_shared_img_buf = buf, validate_tmp_buf = replicate 256 0\<rparr>"

text \<open>
  The boots with the version of the MCUboot image that B0 has started, the options it was built
  with, and the contents of the shared image buffer. \<open>Inr\<close> is the world of a device that has stopped rebooting, \<open>Inl\<close> that of one that reboots
  once more at the end of the list.
\<close>

fun boots ::
  "image_abi \<Rightarrow> 'c crypto \<Rightarrow> config \<Rightarrow> 'w os \<Rightarrow> 'w board \<Rightarrow> 'w rtt \<Rightarrow> (image_version \<times> 'w hook \<times> byte list) list \<Rightarrow> 'w \<Rightarrow> ('w + 'w) option"
where
  "boots A C K E G R [] w = Some (Inl w)"
| "boots A C K E G R ((v, H, buf) # bs) w = do {
     r \<leftarrow> on_startup A C (K\<lparr>cfg_s0_s1_image_version := v\<rparr>) E H G R (power_on buf w);
     (case r of
       Continues s \<Rightarrow> Some (Inr (world s))
     | Halts s \<Rightarrow> Some (Inr (world s))
     | Reboots s \<Rightarrow> boots A C K E G R bs (world s))
   }"

declare boots.simps [simp del]

abbreviation slot_of :: "'w hook \<Rightarrow> slot_id_t" where
  "slot_of H \<equiv> if ncs_is_variant_image H then 1 else 0"

text \<open>The version of the running image is all that differs between two MCUboot images here.\<close>

lemma config_version [simp]:
  "btldr_path (K\<lparr>cfg_s0_s1_image_version := v\<rparr>) n = btldr_path K n"
  "own_file (K\<lparr>cfg_s0_s1_image_version := v\<rparr>) slot = own_file K slot"
  "own_area (K\<lparr>cfg_s0_s1_image_version := v\<rparr>) slot = own_area K slot"
  "update_files (K\<lparr>cfg_s0_s1_image_version := v\<rparr>) = update_files K"
  "update_areas (K\<lparr>cfg_s0_s1_image_version := v\<rparr>) = update_areas K"
  "areas_distinct (K\<lparr>cfg_s0_s1_image_version := v\<rparr>) = areas_distinct K"
  "storage_step (K\<lparr>cfg_s0_s1_image_version := v\<rparr>) d d' = storage_step K d d'"
  "boot_spec dv (K\<lparr>cfg_s0_s1_image_version := v\<rparr>) E = boot_spec dv K E"
  "fw_ok (K\<lparr>cfg_s0_s1_image_version := v\<rparr>) s = fw_ok K s"
  by (simp_all add: btldr_path_def own_file_def own_area_def update_files_def update_areas_def areas_distinct_def
      storage_step_def boot_spec_def fw_ok_def)

lemma power_on_ok [simp]: "fw_ok K (power_on buf w) \<longleftrightarrow> length buf = shared_img_buf_size K" "world (power_on buf w) = w"
  by (simp_all add: fw_ok_def power_on_def)

subsection \<open>The files a reboot leaves\<close>

text \<open>
  What a boot that reboots leaves on a reliable platform: there was an update file, and either none
  is left, or that of the running slot was accepted and that of the other slot is gone.
\<close>

definition reboot_leaves :: "config \<Rightarrow> slot_id_t \<Rightarrow> dev \<Rightarrow> dev \<Rightarrow> bool" where
  "reboot_leaves K slot d d' \<longleftrightarrow>
     d_area d' = d_area d
     \<and> (\<forall>p. d_files d' p = d_files d p \<or> d_files d' p = None)
     \<and> (\<exists>n\<in>update_files K. d_files d (btldr_path K n) \<noteq> None)
     \<and> ((\<forall>n\<in>update_files K. d_files d' (btldr_path K n) = None)
        \<or> d_files d (btldr_path K (own_file K slot)) \<noteq> None
          \<and> d_files d' (btldr_path K (own_file K (1 - slot))) = None)"

lemma pending_after_file:
  assumes "pending_after rel dv A C K E hr slot d"
  shows "d_files d (btldr_path K (own_file K slot)) \<noteq> None"
proof -
  obtain t d' where "update_run rel dv A C K E hr t d d'" "pending rel A K E hr (own_file K slot) (own_area K slot) d'"
    using assms unfolding pending_after_def by blast
  then show ?thesis
    using update_run_frame(4) [of rel dv A C K E hr t d d' "btldr_path K (own_file K slot)"] by (auto simp: pending_def)
qed

lemma mcuboot_fw_update_reboot_leaves:
  assumes plat: "fw_platform True dv E A C" and inv: "invalidate_spec dv E" and boot: "boot_spec dv K E"
    and keep: "files_persist dv E" and ok: "fw_ok K s" and wf: "hw_rev_wf hr"
    and areas: "\<forall>i\<in>update_areas K. d_area (sdev dv s) i \<noteq> None"
    and run: "mcuboot_fw_update A C K E slot hr s = Some (Rebooted s')"
  shows "reboot_leaves K slot (sdev dv s) (sdev dv s')"
proof -
  obtain m s1 where mt: "btldr_fs_mount K E s = (m, s1)"
    by (metis prod.exhaust)
  have m: m
    using run mt by (cases m) (simp_all add: mcuboot_fw_update_def)
  have s1: "d_files (sdev dv s1) = d_files (sdev dv s)" "d_area (sdev dv s1) = d_area (sdev dv s)"
    using mount_keeps_files [OF boot keep, of s s1] mt m by simp_all
  have ok1: "fw_ok K s1"
    using ok fw_ok_kept [OF btldr_kept_calls(3) [OF mt]] by simp
  obtain r s2 t where c: "check_updates_on_fs A C K E slot hr s1 = Some (r, s2)"
    and t: "update_run True dv A C K E hr t (sdev dv s1) (sdev dv s2)" "subseq t (update_plan K slot)"
    and r: "r \<longrightarrow> installs t \<or> pending_after True dv A C K E hr slot (sdev dv s1)"
    and left: "True \<and> (\<forall>i\<in>update_areas K. d_area (sdev dv s1) i \<noteq> None) \<longrightarrow>
        r \<and> pending_after True dv A C K E hr slot (sdev dv s1)
          \<and> d_files (sdev dv s2) (btldr_path K (own_file K (1 - slot))) = None
        \<or> (\<forall>n\<in>update_files K. d_files (sdev dv s2) (btldr_path K n) = None)"
    using check_updates_on_fs_run [OF plat inv ok1 wf, of slot] by (elim exE conjE) (rule that; assumption)
  have e: r "s' = s2\<lparr>world := sys_reboot_cold E (k_msleep E 500 (world s2))\<rparr>"
    using run m mt c by (cases r; simp add: mcuboot_fw_update_def reboot_cold_def Let_def)+
  have "dv (k_msleep E 500 (world s2)) = sdev dv s2"
    using fw_platformD(3) [OF plat] by (simp add: query_spec_def)
  then have s': "d_files (sdev dv s') = d_files (sdev dv s2)" "d_area (sdev dv s') = d_area (sdev dv s2)"
    using keep boot_specD(6) [OF boot] by (simp_all add: e(2) files_persist_def)
  have found: "\<exists>n\<in>update_files K. d_files (sdev dv s1) (btldr_path K n) \<noteq> None"
    using idle_run [OF t] idle_pending [of K "sdev dv s1"] r e(1) by blast
  show ?thesis
    using left areas found s1 update_run_frame(2,4) [OF t(1)] pending_after_file [of True dv A C K E hr slot "sdev dv s1"]
    unfolding reboot_leaves_def s' s1 by auto
qed

text \<open>What startup needs of the platform, and what it leaves of the update files.\<close>

definition boot_platform ::
  "('w \<Rightarrow> dev) \<Rightarrow> image_abi \<Rightarrow> 'c crypto \<Rightarrow> config \<Rightarrow> 'w os \<Rightarrow> 'w rtt \<Rightarrow> bool"
where
  "boot_platform dv A C K E R \<longleftrightarrow>
     fw_platform True dv E A C \<and> invalidate_spec dv E \<and> boot_spec dv K E \<and> files_persist dv E \<and> rtt_in_place R"

lemma boot_platformD:
  assumes "boot_platform dv A C K E R"
  shows "fw_platform True dv E A C" "invalidate_spec dv E" "boot_spec dv K E" "files_persist dv E" "rtt_in_place R"
  using assms by (simp_all add: boot_platform_def)

lemma boot_platform_version [simp]:
  "boot_platform dv A C (K\<lparr>cfg_s0_s1_image_version := v\<rparr>) E R = boot_platform dv A C K E R"
  by (simp add: boot_platform_def)

lemma on_startup_leaves:
  assumes plat: "boot_platform dv A C K E R" and hk: "hook_spec dv H" and ok: "fw_ok K s"
    and areas: "\<forall>i\<in>update_areas K. d_area (sdev dv s) i \<noteq> None"
  shows "\<exists>r. on_startup A C K E H G R s = Some r
    \<and> (\<forall>s'. r = Reboots s' \<longrightarrow> reboot_leaves K (slot_of H) (sdev dv s) (sdev dv s'))"
proof -
  note p = boot_platformD [OF plat]
  obtain r where r: "on_startup A C K E H G R s = Some r" and ans: "case r of
       Halts s' \<Rightarrow> sdev dv s' = sdev dv s
     | Continues s' \<Rightarrow> sdev dv s' = sdev dv s
         \<or> (\<exists>hr s1 s2. startup_checks_passed dv K E H hr (sdev dv s) \<and> sdev dv s1 = sdev dv s \<and> fw_ok K s1
              \<and> mcuboot_fw_update A C K E (slot_of H) hr s1 = Some (Returned s2) \<and> sdev dv s' = sdev dv s2)
     | Reboots s' \<Rightarrow> \<exists>hr s1. startup_checks_passed dv K E H hr (sdev dv s) \<and> sdev dv s1 = sdev dv s \<and> fw_ok K s1
         \<and> mcuboot_fw_update A C K E (slot_of H) hr s1 = Some (Rebooted s')"
    using on_startup_answer [OF p(1-3) hk p(5) ok] by blast
  have "reboot_leaves K (slot_of H) (sdev dv s) (sdev dv s')" if rs: "r = Reboots s'" for s'
  proof -
    obtain hr s1 where ch: "startup_checks_passed dv K E H hr (sdev dv s)" and s1: "sdev dv s1 = sdev dv s" "fw_ok K s1"
      and up: "mcuboot_fw_update A C K E (slot_of H) hr s1 = Some (Rebooted s')"
      using ans unfolding rs startup_t.case by blast
    have wf: "hw_rev_wf hr"
      using ch by (simp add: startup_checks_passed_def)
    have ar: "\<forall>i\<in>update_areas K. d_area (sdev dv s1) i \<noteq> None"
      using areas s1(1) by simp
    show ?thesis
      using mcuboot_fw_update_reboot_leaves [OF p(1-4) s1(2) wf ar up] unfolding s1(1) .
  qed
  then show ?thesis
    using r by blast
qed

text \<open>One boot of the list.\<close>

lemma boots_step:
  assumes plat: "boot_platform dv A C K E R" and hk: "hook_spec dv H" and buf: "length buf = shared_img_buf_size K"
    and areas: "\<forall>i\<in>update_areas K. d_area (dv w) i \<noteq> None"
  obtains (stops) w' where "boots A C K E G R ((v, H, buf) # bs) w = Some (Inr w')"
  | (reboots) s' where "on_startup A C (K\<lparr>cfg_s0_s1_image_version := v\<rparr>) E H G R (power_on buf w) = Some (Reboots s')"
      and "boots A C K E G R ((v, H, buf) # bs) w = boots A C K E G R bs (world s')"
      and "reboot_leaves K (slot_of H) (dv w) (sdev dv s')"
proof -
  let ?K = "K\<lparr>cfg_s0_s1_image_version := v\<rparr>"
  have [simp]: "reboot_leaves ?K sl d d' = reboot_leaves K sl d d'" for sl d d'
    by (simp add: reboot_leaves_def)
  have "boot_platform dv A C ?K E R" "fw_ok ?K (power_on buf w)"
    "\<forall>i\<in>update_areas ?K. d_area (sdev dv (power_on buf w)) i \<noteq> None"
    using plat areas buf by simp_all
  from on_startup_leaves [OF this(1) hk this(2,3), of G] obtain r where
    r: "on_startup A C ?K E H G R (power_on buf w) = Some r"
      "\<And>s'. r = Reboots s' \<Longrightarrow> reboot_leaves K (slot_of H) (dv w) (sdev dv s')"
    by (auto split: if_splits)
  show thesis
  proof (cases r)
    case (Reboots s')
    then show thesis
      using r by (intro reboots) (simp_all add: boots.simps)
  qed (use r(1) stops in \<open>simp_all add: boots.simps\<close>)
qed

subsection \<open>What a startup may have done\<close>

fun startup_state :: "'s startup_t \<Rightarrow> 's" where
  "startup_state (Continues s) = s"
| "startup_state (Reboots s) = s"
| "startup_state (Halts s) = s"

text \<open>The areas of application and loader, with the files they are updated from.\<close>

definition app_targets :: "config \<Rightarrow> (string \<times> fa_id_t) set" where
  "app_targets K =
     {(RUUVI_FW_LOADER_FILE_NAME K, PM_ID_mcuboot_secondary K), (RUUVI_FW_APP_FILE_NAME K, PM_ID_mcuboot_primary K)}"

lemma app_targets_planned: "(n, i) \<in> app_targets K \<Longrightarrow> (n, i, False) \<in> plan_targets K slot"
  by (auto simp: app_targets_def plan_targets_def)

text \<open>
  Partitions that are no slots are kept. Application and loader are kept, or were changed by the copy of the
  file named for them that was there at first: it was accepted, by an image of some version on some
  board, and copied at a boot that began with the device as \<open>d1\<close>, which had this file.
\<close>

definition only_updates ::
  "bool \<Rightarrow> ('w \<Rightarrow> dev) \<Rightarrow> image_abi \<Rightarrow> 'c crypto \<Rightarrow> config \<Rightarrow> 'w os \<Rightarrow> dev \<Rightarrow> dev \<Rightarrow> bool"
where
  "only_updates rel dv A C K E d d' \<longleftrightarrow>
     d_area d' = d_area d \<and> (\<forall>j. length (d_flash d' j) = length (d_flash d j))
     \<and> (\<forall>j. j \<notin> update_areas K \<and> j \<noteq> PM_ID_littlefs_storage1 K \<longrightarrow> d_flash d' j = d_flash d j)
     \<and> (\<forall>(n, i) \<in> app_targets K. d_flash d' i = d_flash d i
          \<or> (\<exists>v hr d1. d_area d1 = d_area d \<and> length (d_flash d1 i) = length (d_flash d i)
               \<and> d_files d1 (btldr_path K n) = d_files d (btldr_path K n)
               \<and> installed_from rel dv A C (K\<lparr>cfg_s0_s1_image_version := v\<rparr>) E hr n i False d1 (d_flash d' i)))"

definition files_shrink :: "dev \<Rightarrow> dev \<Rightarrow> bool" where
  "files_shrink d d' \<longleftrightarrow> (\<forall>p. d_files d' p = d_files d p \<or> d_files d' p = None)"

lemma only_updates_refl: "only_updates rel dv A C K E d d"
  by (auto simp: only_updates_def)

lemma only_updates_app:
  assumes "only_updates rel dv A C K E d d'" and "(n, i) \<in> app_targets K"
  shows "d_flash d' i = d_flash d i
      \<or> (\<exists>v hr d1. d_area d1 = d_area d \<and> length (d_flash d1 i) = length (d_flash d i)
           \<and> d_files d1 (btldr_path K n) = d_files d (btldr_path K n)
           \<and> installed_from rel dv A C (K\<lparr>cfg_s0_s1_image_version := v\<rparr>) E hr n i False d1 (d_flash d' i))"
  using assms(1) [unfolded only_updates_def, THEN conjunct2, THEN conjunct2, THEN conjunct2, THEN bspec, OF assms(2)]
  unfolding prod.case .

lemma only_updates_trans:
  assumes 1: "only_updates rel dv A C K E d d'" and less: "files_shrink d d'" and 2: "only_updates rel dv A C K E d' d''"
  shows "only_updates rel dv A C K E d d''"
proof -
  note parts = only_updates_def [THEN iffD1, THEN conjunct1] only_updates_def [THEN iffD1, THEN conjunct2, THEN conjunct1]
    only_updates_def [THEN iffD1, THEN conjunct2, THEN conjunct2, THEN conjunct1]
  have same: "d_area d' = d_area d" "length (d_flash d' j) = length (d_flash d j)" for j
    using parts(1,2) [OF 1] by simp_all
  have app: "d_flash d'' i = d_flash d i
      \<or> (\<exists>v hr d1. d_area d1 = d_area d \<and> length (d_flash d1 i) = length (d_flash d i)
           \<and> d_files d1 (btldr_path K n) = d_files d (btldr_path K n)
           \<and> installed_from rel dv A C (K\<lparr>cfg_s0_s1_image_version := v\<rparr>) E hr n i False d1 (d_flash d'' i))"
    if t: "(n, i) \<in> app_targets K" for n i
  proof (cases "d_flash d'' i = d_flash d' i")
    case True
    then show ?thesis
      using only_updates_app [OF 1 t] by simp
  next
    case False
    then obtain v hr d1 where d1: "d_area d1 = d_area d'" "length (d_flash d1 i) = length (d_flash d' i)"
        "d_files d1 (btldr_path K n) = d_files d' (btldr_path K n)"
        "installed_from rel dv A C (K\<lparr>cfg_s0_s1_image_version := v\<rparr>) E hr n i False d1 (d_flash d'' i)"
      using only_updates_app [OF 2 t] by blast
    have "d_files d' (btldr_path K n) \<noteq> None"
      using d1(3,4) unfolding installed_from_def by auto
    then have "d_files d1 (btldr_path K n) = d_files d (btldr_path K n)"
      using less d1(3) unfolding files_shrink_def by metis
    then show ?thesis
      using d1 same by auto
  qed
  show ?thesis
    unfolding only_updates_def
  proof (intro conjI ballI)
    show "case x of (n, i) \<Rightarrow> d_flash d'' i = d_flash d i
      \<or> (\<exists>v hr d1. d_area d1 = d_area d \<and> length (d_flash d1 i) = length (d_flash d i)
           \<and> d_files d1 (btldr_path K n) = d_files d (btldr_path K n)
           \<and> installed_from rel dv A C (K\<lparr>cfg_s0_s1_image_version := v\<rparr>) E hr n i False d1 (d_flash d'' i))"
      if "x \<in> app_targets K" for x
      using app that by (cases x) simp
  qed (use parts [OF 1] parts [OF 2] in simp_all)
qed

lemma mcuboot_fw_update_only_updates:
  assumes plat: "fw_platform rel dv E A C" and inv: "invalidate_spec dv E" and boot: "boot_spec dv K E"
    and keep: "files_persist dv E" and dist: "areas_distinct K" and K: "K = K0\<lparr>cfg_s0_s1_image_version := v\<rparr>"
    and ch: "startup_checks_passed dv K E H hr (sdev dv s)" and s1: "sdev dv s1 = sdev dv s" "fw_ok K s1"
    and up: "mcuboot_fw_update A C K E (slot_of H) hr s1 = Some e"
  shows "only_updates rel dv A C K0 E (sdev dv s) (sdev dv (exit_state e))"
    and "e = Rebooted s' \<Longrightarrow> files_shrink (sdev dv s) (sdev dv s')"
proof -
  have wf: "hw_rev_wf hr"
    using ch by (simp add: startup_checks_passed_def)
  obtain e' where e': "mcuboot_fw_update A C K E (slot_of H) hr s1 = Some e'"
    and out: "\<And>j. j \<notin> update_areas K \<Longrightarrow> j \<noteq> PM_ID_littlefs_storage1 K
      \<Longrightarrow> d_flash (sdev dv (exit_state e')) j = d_flash (sdev dv s1) j"
    and inst: "\<And>n i b0. (n, i, b0) \<in> plan_targets K (slot_of H) \<Longrightarrow> d_flash (sdev dv (exit_state e')) i = d_flash (sdev dv s1) i
      \<or> (\<exists>s'. e' = Rebooted s')
        \<and> installed_from rel dv A C K E hr n i b0 (sdev dv s1) (d_flash (sdev dv (exit_state e')) i)"
    and ar: "d_area (sdev dv (exit_state e')) = d_area (sdev dv s1)"
    and len: "\<And>j. length (d_flash (sdev dv (exit_state e')) j) = length (d_flash (sdev dv s1) j)"
    and files: "\<And>s' p. e' = Rebooted s' \<Longrightarrow> d_files (sdev dv s') p = d_files (sdev dv s1) p \<or> d_files (sdev dv s') p = None"
    by (rule mcuboot_fw_update_effect [OF plat inv boot keep s1(2) wf dist, of "slot_of H"]) (rule that; assumption)
  have e: "e' = e"
    using up e' by simp
  show "e = Rebooted s' \<Longrightarrow> files_shrink (sdev dv s) (sdev dv s')"
    using files s1(1) e by (simp add: files_shrink_def)
  have same: "update_areas K0 = update_areas K" "PM_ID_littlefs_storage1 K0 = PM_ID_littlefs_storage1 K"
    "app_targets K0 = app_targets K" "btldr_path K0 = btldr_path K"
    by (auto simp: K app_targets_def)
  show "only_updates rel dv A C K0 E (sdev dv s) (sdev dv (exit_state e))"
    unfolding only_updates_def same
  proof (intro conjI ballI allI impI)
    show "d_flash (sdev dv (exit_state e)) j = d_flash (sdev dv s) j"
      if "j \<notin> update_areas K \<and> j \<noteq> PM_ID_littlefs_storage1 K" for j
      using out that s1(1) e by simp
    show "case x of (n, i) \<Rightarrow> d_flash (sdev dv (exit_state e)) i = d_flash (sdev dv s) i
        \<or> (\<exists>v hr d1. d_area d1 = d_area (sdev dv s) \<and> length (d_flash d1 i) = length (d_flash (sdev dv s) i)
            \<and> d_files d1 (btldr_path K n) = d_files (sdev dv s) (btldr_path K n)
            \<and> installed_from rel dv A C (K0\<lparr>cfg_s0_s1_image_version := v\<rparr>) E hr n i False d1 (d_flash (sdev dv (exit_state e)) i))"
      if "x \<in> app_targets K" for x
    proof -
      obtain n i where x: "x = (n, i)"
        by (cases x)
      have "d_flash (sdev dv (exit_state e)) i = d_flash (sdev dv s) i
        \<or> installed_from rel dv A C K E hr n i False (sdev dv s) (d_flash (sdev dv (exit_state e)) i)"
        using inst [OF app_targets_planned, of n i] that x s1(1) e by auto
      then show ?thesis
        unfolding x prod.case K by blast
    qed
  qed (use ar len s1(1) e in simp_all)
qed

lemma on_startup_only_updates:
  assumes plat: "fw_platform rel dv E A C" and inv: "invalidate_spec dv E" and boot: "boot_spec dv K E"
    and keep: "files_persist dv E"
    and hk: "hook_spec dv H" and rtt: "rtt_in_place R" and ok: "fw_ok K s" and dist: "areas_distinct K"
    and K: "K = K0\<lparr>cfg_s0_s1_image_version := v\<rparr>"
  shows "\<exists>r. on_startup A C K E H G R s = Some r
    \<and> only_updates rel dv A C K0 E (sdev dv s) (sdev dv (startup_state r))
    \<and> (\<forall>s'. r = Reboots s' \<longrightarrow> files_shrink (sdev dv s) (sdev dv s'))"
proof -
  obtain r where r: "on_startup A C K E H G R s = Some r" and ans: "case r of
       Halts s' \<Rightarrow> sdev dv s' = sdev dv s
     | Continues s' \<Rightarrow> sdev dv s' = sdev dv s
         \<or> (\<exists>hr s1 s2. startup_checks_passed dv K E H hr (sdev dv s) \<and> sdev dv s1 = sdev dv s \<and> fw_ok K s1
              \<and> mcuboot_fw_update A C K E (slot_of H) hr s1 = Some (Returned s2) \<and> sdev dv s' = sdev dv s2)
     | Reboots s' \<Rightarrow> \<exists>hr s1. startup_checks_passed dv K E H hr (sdev dv s) \<and> sdev dv s1 = sdev dv s \<and> fw_ok K s1
         \<and> mcuboot_fw_update A C K E (slot_of H) hr s1 = Some (Rebooted s')"
    using on_startup_answer [OF plat inv boot hk rtt ok] by blast
  note upd = mcuboot_fw_update_only_updates [OF plat inv boot keep dist K]
  have "only_updates rel dv A C K0 E (sdev dv s) (sdev dv (startup_state r))
    \<and> (\<forall>s'. r = Reboots s' \<longrightarrow> files_shrink (sdev dv s) (sdev dv s'))"
  proof (cases r)
    case (Continues s')
    then show ?thesis
      using ans upd(1) [of H _ s _ "Returned _"] only_updates_refl [of rel dv A C K0 E "sdev dv s"] by auto
  next
    case (Reboots s')
    then show ?thesis
      using ans upd(1) [of H _ s _ "Rebooted s'"] upd(2) [of H _ s _ "Rebooted s'" s'] by auto
  qed (use ans only_updates_refl in simp)
  then show ?thesis
    using r by blast
qed

subsection \<open>An update of the secondary slot that waits\<close>

text \<open>
  The library function of the immutable bootloader accepts the file \<open>bs\<close> for the area at \<open>addr\<close>,
  whatever the shared buffer holds behind it.
\<close>

definition b0_accepts :: "config \<Rightarrow> 'w os \<Rightarrow> u32 \<Rightarrow> byte list \<Rightarrow> bool" where
  "b0_accepts K E addr bs \<longleftrightarrow>
     length bs \<le> shared_img_buf_size K
     \<and> (\<forall>buf w. length buf = shared_img_buf_size K \<and> take (length bs) buf = bs \<longrightarrow>
          (\<exists>p info. fw_info_find E (shared_img_buf_addr K) buf w = Some (p, info)
             \<and> unat (fi_address info - addr) < shared_img_buf_size K
             \<and> fst (bl_validate_firmware E (fi_address info) (shared_img_buf_addr K + (fi_address info - addr)) buf w)))"

text \<open>On a reliable platform the check of the signature accepts such a file.\<close>

lemma validate_b0_signature_accepts:
  assumes plat: "fw_platform True dv E A C" and ok: "fw_ok K s"
    and bs: "d_files (sdev dv s) (btldr_path K n) = Some bs" and sz: "unat sz = shared_img_buf_size K"
    and acc: "b0_accepts K E addr bs"
  shows "\<exists>s'. validate_b0_signature K E n addr sz s = (True, s') \<and> sdev dv s' = sdev dv s \<and> fw_ok K s'"
proof -
  note fs = fw_platformD(1) [OF plat]
  obtain f s1 where op: "btldr_fs_open_file K E n s = (f, s1)"
    by (metis prod.exhaust)
  have f: "filep f \<noteq> None" and r1: "reading True dv E f bs (sdev dv s1) 0 (world s1)"
    using btldr_fs_open_file_answer [OF fs op] bs by auto
  obtain fsz s2 where sz2: "btldr_fs_get_file_size E f s1 = (fsz, s2)"
    by (metis prod.exhaust)
  have fsz: "fsz = int (length bs)" and r2: "reading True dv E f bs (sdev dv s1) 0 (world s2)"
    using btldr_fs_get_file_size_answer [OF r1 sz2] by auto
  have N: "unat (u32_of_int (int (length bs))) = length bs"
    using reading_length [OF r1] by (simp add: unat_u32_of_int)
  obtain rc data s3 where rd: "on_world (fs_read E f (length bs)) s2 = ((rc, data), s3)"
    by (metis prod.exhaust)
  have data: "data = bs" "rc = int (length bs)"
    using reading_read [OF r2 on_worldD(1) [OF rd]] by auto
  let ?buf = "overlay bs (g_shared_img_buf s3)"
  have "fw_ok K s3"
    using ok fw_kept(2) [OF op] fw_kept(5) [OF sz2] fw_kept(6) [OF rd] by simp
  then have buf: "length ?buf = shared_img_buf_size K" "take (length bs) ?buf = bs"
    using acc by (simp_all add: fw_ok_def b0_accepts_def overlay_def)
  obtain p info where info: "fw_info_find E (shared_img_buf_addr K) ?buf (world s3) = Some (p, info)"
      "unat (fi_address info - addr) < shared_img_buf_size K"
      "fst (bl_validate_firmware E (fi_address info) (shared_img_buf_addr K + (fi_address info - addr)) ?buf (world s3))"
    using acc buf unfolding b0_accepts_def by blast
  let ?s3 = "s3\<lparr>g_shared_img_buf := ?buf\<rparr>"
  obtain valid s4 where bl: "on_world (bl_validate_firmware E (fi_address info)
      (shared_img_buf_addr K + (fi_address info - addr)) ?buf) ?s3 = (valid, s4)"
    by (metis prod.exhaust)
  have valid
    using info(3) on_worldD(1) [OF bl] by simp
  moreover have "length bs \<le> shared_img_buf_size K"
    using acc by (simp add: b0_accepts_def)
  ultimately have run: "validate_b0_signature K E n addr sz s = (True, btldr_fs_close_file E f s4)"
    using info(1,2) bl f by (simp add: validate_b0_signature_def sz op sz2 N rd data fsz Let_def)
  then show ?thesis
    using validate_b0_signature_answer [OF plat ok run] by blast
qed

text \<open>
  A device on which an update of the running MCUboot slot waits: the file fits the shared buffer, is
  accepted by the immutable bootloader, holds firmware information, and is for this board.
\<close>

definition waits ::
  "image_abi \<Rightarrow> 'c crypto \<Rightarrow> config \<Rightarrow> 'w os \<Rightarrow> ('w \<Rightarrow> dev) \<Rightarrow> fw_image_hw_rev_t \<Rightarrow> string \<Rightarrow> fa_id_t \<Rightarrow> dev \<Rightarrow> bool"
where
  "waits A C K E dv hr n i d \<longleftrightarrow>
     (\<exists>bs fa. d_files d (btldr_path K n) = Some bs \<and> d_area d i = Some fa
        \<and> unat (fa_size fa) = shared_img_buf_size K \<and> b0_accepts K E (fa_off fa) bs
        \<and> fw_info_search A K bs (fw_info_allowed_offsets K) \<noteq> None
        \<and> (hw_rev_name hr ! 0 = 0 \<or> (\<forall>s. fw_ok K s \<and> d_files (sdev dv s) (btldr_path K n) = Some bs \<longrightarrow>
             (\<exists>r h hr' s'. validate_file A C K E n (fa_off fa) (fa_size fa) image_header_zero hw_rev_zero s
                = Some ((r, h, hr'), s') \<and> c_string (hw_rev_name hr') = c_string (hw_rev_name hr)))))"

lemma waits_same:
  "waits A C K E dv hr n i d \<Longrightarrow> d_files d' (btldr_path K n) = d_files d (btldr_path K n) \<Longrightarrow> d_area d' i = d_area d i
   \<Longrightarrow> waits A C K E dv hr n i d'"
  by (simp add: waits_def)

lemma check_update_for_mcuboot_accepts:
  assumes plat: "fw_platform True dv E A C" and ok: "fw_ok K s" and w: "waits A C K E dv hr n i (sdev dv s)"
  shows "\<exists>s'. check_update_for_mcuboot A C K E n i hr s = Some (True, s') \<and> sdev dv s' = sdev dv s \<and> fw_ok K s'"
proof -
  note fs = fw_platformD(1) [OF plat] and fl = fw_platformD(2) [OF plat]
  obtain bs fa where bs: "d_files (sdev dv s) (btldr_path K n) = Some bs" and fa: "d_area (sdev dv s) i = Some fa"
    and sz: "unat (fa_size fa) = shared_img_buf_size K" and acc: "b0_accepts K E (fa_off fa) bs"
    and info: "fw_info_search A K bs (fw_info_allowed_offsets K) \<noteq> None"
    and hw: "hw_rev_name hr ! 0 = 0 \<or> (\<forall>s. fw_ok K s \<and> d_files (sdev dv s) (btldr_path K n) = Some bs \<longrightarrow>
             (\<exists>r h hr' s'. validate_file A C K E n (fa_off fa) (fa_size fa) image_header_zero hw_rev_zero s
                = Some ((r, h, hr'), s') \<and> c_string (hw_rev_name hr') = c_string (hw_rev_name hr)))"
    using w unfolding waits_def by blast
  obtain ex s0 where ex: "btldr_fs_is_file_exist K E n s = (ex, s0)"
    by (metis prod.exhaust)
  have d0: "sdev dv s0 = sdev dv s" "fw_ok K s0" and ex': ex
    using btldr_fs_is_file_exist_answer [OF fs ex] ok fw_kept(1) [OF ex] bs by auto
  obtain okA addr sz' s1 where ar: "on_world (get_flash_area_address_and_size E i) s0 = ((okA, addr, sz'), s1)"
    by (metis prod.exhaust)
  have d1: "sdev dv s1 = sdev dv s" "fw_ok K s1" and area: okA "addr = fa_off fa" "sz' = fa_size fa"
    using get_flash_area_address_and_size_answer [OF fl on_worldD(1) [OF ar]] d0 fa fw_kept(6) [OF ar] by auto
  have bs1: "d_files (sdev dv s1) (btldr_path K n) = Some bs"
    by (simp add: d1(1) bs)
  obtain s2 where b: "validate_b0_signature K E n addr sz' s1 = (True, s2)" and d2: "sdev dv s2 = sdev dv s" "fw_ok K s2"
    using validate_b0_signature_accepts [OF plat d1(2) bs1 sz acc] area d1(1) by auto
  obtain v h hr' s3 where v: "validate_file A C K E n addr sz' image_header_zero hw_rev_zero s2 = Some ((v, h, hr'), s3)"
    and d3: "sdev dv s3 = sdev dv s" "fw_ok K s3"
    using validate_file_answer [OF plat d2(2), of n addr sz' image_header_zero hw_rev_zero, unfolded d2(1)] by blast
  have name: "\<not> (hw_rev_name hr ! 0 \<noteq> 0 \<and> c_string (hw_rev_name hr) \<noteq> c_string (hw_rev_name hr'))"
    using hw v d2 bs area(2,3) by fastforce
  obtain fi s4 where fi: "fw_info_find_in_file A K E n s3 = (fi, s4)"
    by (metis prod.exhaust)
  have d4: "sdev dv s4 = sdev dv s" "fw_ok K s4" and found: "fi \<noteq> None"
    using fw_info_find_in_file_answer [OF plat fi, unfolded d3(1)] bs info d3(2) fw_ok_kept [of s3 s4]
    by (auto simp: fw_info_found_def)
  have "check_update_for_mcuboot A C K E n i hr s = Some (True, s4)"
    using ex' area(1) name found by (auto simp: check_update_for_mcuboot_def ex ar b v fi)
  then show ?thesis
    using d4 by blast
qed

text \<open>The update step with \<open>s1\<close> running and an update of \<open>s1\<close> that waits.\<close>

lemma waiting_update_reboots:
  assumes plat: "fw_platform True dv E A C" and boot: "boot_spec dv K E" and keep: "files_persist dv E"
    and ok: "fw_ok K s" and wf: "hw_rev_wf hr" and slot: "slot \<noteq> 0"
    and mounts: "fst (fs_mount E (RUUVI_FW_UPDATE_MOUNT_POINT K) (world s)) = 0"
      "\<And>w. 0 \<le> fst (fs_statvfs E (RUUVI_FW_UPDATE_MOUNT_POINT K) w)"
    and w: "waits A C K E dv hr (RUUVI_FW_MCUBOOT1_FILE_NAME K) (PM_ID_s1 K) (sdev dv s)"
    and none: "d_files (sdev dv s) (btldr_path K (RUUVI_FW_MCUBOOT0_FILE_NAME K)) = None"
  shows "\<exists>s'. mcuboot_fw_update A C K E slot hr s = Some (Rebooted s') \<and> d_files (sdev dv s') = d_files (sdev dv s)
    \<and> d_area (sdev dv s') = d_area (sdev dv s)
    \<and> (\<forall>j. j \<noteq> PM_ID_littlefs_storage1 K \<longrightarrow> d_flash (sdev dv s') j = d_flash (sdev dv s) j)"
proof -
  let ?n0 = "RUUVI_FW_MCUBOOT0_FILE_NAME K" and ?n1 = "RUUVI_FW_MCUBOOT1_FILE_NAME K"
  obtain m s1 where mt: "btldr_fs_mount K E s = (m, s1)"
    by (metis prod.exhaust)
  have m: m
    using mt mounts by (auto simp: btldr_fs_mount_def on_world_def not_less split: prod.splits if_splits)
       (metis fst_conv not_less)+
  have st: "storage_step K (sdev dv s) (sdev dv s1)" and ok1: "fw_ok K s1"
    using btldr_fs_mount_answer [OF fw_platformD(2) [OF plat] boot mt] ok fw_ok_kept [OF btldr_kept_calls(3) [OF mt]]
    by simp_all
  have d1: "d_files (sdev dv s1) = d_files (sdev dv s)" "d_area (sdev dv s1) = d_area (sdev dv s)"
    using mount_keeps_files [OF boot keep, of s s1] mt m by simp_all
  obtain r s2 where first: "check_file_and_update A C K E ?n0 (PM_ID_s0 K) hr True s1 = Some (r, s2)" and ok2: "fw_ok K s2"
    and d2: "\<not> r" "sdev dv s2 = sdev dv s1"
    using check_file_and_update_answer [OF plat ok1 wf, of ?n0 "PM_ID_s0 K" True] none d1(1)
      file_gone_absent [of "sdev dv s1" K ?n0] by (auto simp: removed_def split: if_splits)
  have w2: "waits A C K E dv hr ?n1 (PM_ID_s1 K) (sdev dv s2)"
    by (rule waits_same [OF w]) (simp_all add: d1 d2(2))
  obtain s3 where second: "check_update_for_mcuboot A C K E ?n1 (PM_ID_s1 K) hr s2 = Some (True, s3)"
    and d3: "sdev dv s3 = sdev dv s1"
    using check_update_for_mcuboot_accepts [OF plat ok2 w2] d2(2) by auto
  have e: "mcuboot_fw_update A C K E slot hr s = Some (reboot_cold E s3)"
    using m slot first second by (simp add: mcuboot_fw_update_def mt check_updates_on_fs_def)
  have "dv (k_msleep E 500 (world s3)) = sdev dv s3"
    using fw_platformD(3) [OF plat] by (simp add: query_spec_def)
  then show ?thesis
    using e d1 d3 storage_step_frame(3) [OF st] boot_specD(6,7) [OF boot] keep
    by (simp add: reboot_cold_def Let_def files_persist_def)
qed

text \<open>
  The update step of boot after boot, with \<open>s1\<close> running each time; the list has the contents of the
  shared buffer at each boot.
\<close>

fun update_steps ::
  "image_abi \<Rightarrow> 'c crypto \<Rightarrow> config \<Rightarrow> 'w os \<Rightarrow> slot_id_t \<Rightarrow> fw_image_hw_rev_t \<Rightarrow> byte list list \<Rightarrow> 'w \<Rightarrow> ('w + 'w) option"
where
  "update_steps A C K E slot hr [] w = Some (Inl w)"
| "update_steps A C K E slot hr (buf # bufs) w = do {
     e \<leftarrow> mcuboot_fw_update A C K E slot hr (power_on buf w);
     (case e of
       Returned s \<Rightarrow> Some (Inr (world s))
     | Rebooted s \<Rightarrow> update_steps A C K E slot hr bufs (world s))
   }"

text \<open>The device in memory, with a file for \<open>s1\<close> of the size of the buffer.\<close>

definition waiting_image :: "byte list" where
  "waiting_image = s1_image @ replicate 44 0"

definition waiting_ram :: ram where
  "waiting_ram = update_ram\<lparr>r_dev := (r_dev update_ram)\<lparr>d_files := [''/m/b1'' \<mapsto> waiting_image]\<rparr>\<rparr>"

subsection \<open>Properties\<close>

text \<open>
  C7. Updates settle. On a reliable platform that has the four partitions, with the data of RTT in place,
  whatever files lie in the file system and whatever the shared buffer holds at each boot, a device stops
  rebooting after at most two reboots, provided that B0 starts the other MCUboot slot when an update
  of the one that was running is still there. (Where it keeps starting the same slot, C32 applies.)
\<close>

theorem boots_settle:
  assumes plat: "boot_platform dv A C K E R"
    and hooks: "hook_spec dv H1" "hook_spec dv H2" "hook_spec dv H3"
    and bufs: "length b1 = shared_img_buf_size K" "length b2 = shared_img_buf_size K" "length b3 = shared_img_buf_size K"
    and areas: "\<forall>i\<in>update_areas K. d_area (dv w) i \<noteq> None"
    and b0: "\<And>s'. on_startup A C (K\<lparr>cfg_s0_s1_image_version := v1\<rparr>) E H1 G R (power_on b1 w) = Some (Reboots s') \<Longrightarrow>
      d_files (sdev dv s') (btldr_path K (own_file K (slot_of H1))) \<noteq> None \<Longrightarrow> slot_of H2 \<noteq> slot_of H1"
  shows "\<exists>w'. boots A C K E G R [(v1, H1, b1), (v2, H2, b2), (v3, H3, b3)] w = Some (Inr w')"
proof -
  have idle: "\<exists>w'. boots A C K E G R ((v, H, buf) # bs) w1 = Some (Inr w')"
    if "\<forall>n\<in>update_files K. d_files (dv w1) (btldr_path K n) = None" "\<forall>i\<in>update_areas K. d_area (dv w1) i \<noteq> None"
      "hook_spec dv H" "length buf = shared_img_buf_size K" for w1 v H buf bs
    by (rule boots_step [OF plat that(3,4,2), of G v bs]) (use that(1) in \<open>auto simp: reboot_leaves_def\<close>)
  show ?thesis
  proof (rule boots_step [OF plat hooks(1) bufs(1) areas, of G v1 "[(v2, H2, b2), (v3, H3, b3)]"])
    fix s1
    assume run1: "on_startup A C (K\<lparr>cfg_s0_s1_image_version := v1\<rparr>) E H1 G R (power_on b1 w) = Some (Reboots s1)"
      and eq1: "boots A C K E G R [(v1, H1, b1), (v2, H2, b2), (v3, H3, b3)] w = boots A C K E G R [(v2, H2, b2), (v3, H3, b3)] (world s1)"
      and left1: "reboot_leaves K (slot_of H1) (dv w) (sdev dv s1)"
    have ar1: "\<forall>i\<in>update_areas K. d_area (sdev dv s1) i \<noteq> None"
      using left1 areas by (simp add: reboot_leaves_def)
    show ?thesis
    proof (cases "\<forall>n\<in>update_files K. d_files (sdev dv s1) (btldr_path K n) = None")
      case True
      then show ?thesis
        using idle [OF True ar1 hooks(2) bufs(2)] eq1 by simp
    next
      case False
      then have gone: "d_files (sdev dv s1) (btldr_path K (own_file K (1 - slot_of H1))) = None"
        using left1 unfolding reboot_leaves_def by blast
      show ?thesis
        unfolding eq1
      proof (rule boots_step [OF plat hooks(2) bufs(2) ar1, of G v2 "[(v3, H3, b3)]"])
        fix s2
        assume eq2: "boots A C K E G R [(v2, H2, b2), (v3, H3, b3)] (world s1) = boots A C K E G R [(v3, H3, b3)] (world s2)"
          and left2: "reboot_leaves K (slot_of H2) (sdev dv s1) (sdev dv s2)"
        have "slot_of H2 = slot_of H1 \<or> slot_of H2 = 1 - slot_of H1"
          by simp
        then have own2: "d_files (sdev dv s1) (btldr_path K (own_file K (slot_of H2))) = None"
          using gone b0 [OF run1] by metis
        have none: "\<forall>n\<in>update_files K. d_files (sdev dv s2) (btldr_path K n) = None"
          using left2 own2 unfolding reboot_leaves_def by blast
        have ar2: "\<forall>i\<in>update_areas K. d_area (sdev dv s2) i \<noteq> None"
          using left2 ar1 by (simp add: reboot_leaves_def)
        show "\<exists>w'. boots A C K E G R [(v2, H2, b2), (v3, H3, b3)] (world s1) = Some (Inr w')"
          unfolding eq2 by (rule idle [OF none ar2 hooks(3) bufs(3)])
      qed blast
    qed
  qed blast
qed

lemma demo_boot_platform: "boot_platform ram_view demo_abi demo_crypto demo_config (ram_os demo_abi demo_config) ram_rtt"
  unfolding boot_platform_def
  by (intro conjI demo_fw_platform demo_invalidate_spec demo_boot_spec ram_rtt_in_place)
    (rule demo_files_persist)

lemma demo_hook_variant_spec: "hook_spec ram_view ((demo_hook br)\<lparr>ncs_is_variant_image := True\<rparr>)"
  by (simp add: hook_spec_def demo_hook_def)

theorem boots_settle_witness:
  "\<forall>G. \<exists>w'. boots demo_abi demo_crypto demo_config (ram_os demo_abi demo_config) G ram_rtt
     [(cfg_s0_s1_image_version demo_config, demo_hook None, replicate 64 7),
      (cfg_s0_s1_image_version demo_config, (demo_hook None)\<lparr>ncs_is_variant_image := True\<rparr>, waiting_image),
      (cfg_s0_s1_image_version demo_config, demo_hook None, waiting_image)] update_ram = Some (Inr w')"
proof
  fix G :: "ram board"
  have areas: "\<forall>i\<in>update_areas demo_config. d_area (ram_view update_ram) i \<noteq> None"
    unfolding update_view by (simp add: update_ram_def update_areas_def demo_config_def demo_area_def)
  show "\<exists>w'. boots demo_abi demo_crypto demo_config (ram_os demo_abi demo_config) G ram_rtt
     [(cfg_s0_s1_image_version demo_config, demo_hook None, replicate 64 7),
      (cfg_s0_s1_image_version demo_config, (demo_hook None)\<lparr>ncs_is_variant_image := True\<rparr>, waiting_image),
      (cfg_s0_s1_image_version demo_config, demo_hook None, waiting_image)] update_ram = Some (Inr w')"
    by (rule boots_settle [OF demo_boot_platform demo_hook_spec demo_hook_variant_spec demo_hook_spec _ _ _ areas])
      (simp_all add: demo_hook_def demo_config_def waiting_image_def s1_image_def)
qed

text \<open>
  C1. Over any number of boots, of either MCUboot slot in any version, on a platform where calls may
  fail at any time, whatever the shared buffer holds at each boot, and with the data of RTT in place (C2 has the
  other case): every boot comes to an end; partitions that are neither slots nor the file system keep
  their contents; and application and loader hold what they held at first, or were changed by the copy of
  the file named for them that was in the file system at first, and that had been accepted as an authentic
  image for them. What a copy leaves is said by \<open>copied\<close>: the whole file on a reliable platform, for
  a partition that is a multiple of the write block, and else possibly the remains of a copy that failed.
\<close>

theorem boots_install_only_accepted:
  assumes "fw_platform rel dv E A C" and "invalidate_spec dv E" and "boot_spec dv K E" and "files_persist dv E"
    and "rtt_in_place R" and "areas_distinct K"
    and "\<forall>(v, H, buf) \<in> set bs. hook_spec dv H \<and> length buf = shared_img_buf_size K"
  shows "\<exists>r. boots A C K E G R bs w = Some r
    \<and> only_updates rel dv A C K E (dv w) (dv (case r of Inl w' \<Rightarrow> w' | Inr w' \<Rightarrow> w'))"
  using assms(7)
proof (induction bs arbitrary: w)
  case Nil
  then show ?case
    by (simp add: boots.simps only_updates_refl)
next
  case (Cons b bs)
  obtain v H buf where b: "b = (v, H, buf)"
    by (cases b)
  let ?K = "K\<lparr>cfg_s0_s1_image_version := v\<rparr>"
  have "boot_spec dv ?K E" "fw_ok ?K (power_on buf w)" "areas_distinct ?K" "hook_spec dv H"
    using assms Cons.prems b by simp_all
  from on_startup_only_updates [OF assms(1,2) this(1) assms(4) this(4) assms(5) this(2,3) refl, of G] obtain r where
    r: "on_startup A C ?K E H G R (power_on buf w) = Some r"
      "only_updates rel dv A C K E (dv w) (sdev dv (startup_state r))"
      "\<And>s'. r = Reboots s' \<Longrightarrow> files_shrink (dv w) (sdev dv s')"
    by auto
  show ?case
  proof (cases r)
    case (Reboots s')
    obtain r' where r': "boots A C K E G R bs (world s') = Some r'"
      "only_updates rel dv A C K E (sdev dv s') (dv (case r' of Inl w' \<Rightarrow> w' | Inr w' \<Rightarrow> w'))"
      using Cons.IH [of "world s'"] Cons.prems by auto
    have "only_updates rel dv A C K E (dv w) (dv (case r' of Inl w' \<Rightarrow> w' | Inr w' \<Rightarrow> w'))"
      by (rule only_updates_trans [OF _ r(3) [OF Reboots] r'(2)]) (use r(2) Reboots in simp)
    then show ?thesis
      using r(1) r'(1) Reboots by (simp add: boots.simps b)
  qed (use r b in \<open>simp_all add: boots.simps\<close>)
qed

theorem boots_install_only_accepted_witness:
  "\<forall>G. \<exists>r. boots demo_abi demo_crypto demo_config (ram_os demo_abi demo_config) G ram_rtt
      [(cfg_s0_s1_image_version demo_config, demo_hook None, waiting_image),
       (cfg_s0_s1_image_version demo_config, demo_hook None, waiting_image)]
      update_ram = Some r
    \<and> d_flash (ram_view (case r of Inl w' \<Rightarrow> w' | Inr w' \<Rightarrow> w')) 9 = []"
proof
  fix G :: "ram board"
  let ?bs = "[(cfg_s0_s1_image_version demo_config, demo_hook None, waiting_image),
      (cfg_s0_s1_image_version demo_config, demo_hook None, waiting_image)]"
  have "\<forall>(v, H, buf) \<in> set ?bs. hook_spec ram_view H \<and> length buf = shared_img_buf_size demo_config"
    by (simp add: demo_hook_spec demo_config_def waiting_image_def s1_image_def)
  from boots_install_only_accepted [OF demo_fw_platform demo_invalidate_spec demo_boot_spec demo_files_persist
      ram_rtt_in_place demo_areas_distinct this, of G update_ram] obtain r where
    r: "boots demo_abi demo_crypto demo_config (ram_os demo_abi demo_config) G ram_rtt ?bs update_ram = Some r"
    and only: "only_updates True ram_view demo_abi demo_crypto demo_config (ram_os demo_abi demo_config)
      (ram_view update_ram) (ram_view (case r of Inl w' \<Rightarrow> w' | Inr w' \<Rightarrow> w'))"
    by blast
  have "9 \<notin> update_areas demo_config" "9 \<noteq> PM_ID_littlefs_storage1 demo_config" "d_flash (ram_view update_ram) 9 = []"
    unfolding update_view by (simp_all add: update_areas_def demo_config_def update_ram_def)
  with only have "d_flash (ram_view (case r of Inl w' \<Rightarrow> w' | Inr w' \<Rightarrow> w')) 9 = []"
    unfolding only_updates_def by metis
  then show "\<exists>r. boots demo_abi demo_crypto demo_config (ram_os demo_abi demo_config) G ram_rtt ?bs update_ram = Some r
    \<and> d_flash (ram_view (case r of Inl w' \<Rightarrow> w' | Inr w' \<Rightarrow> w')) 9 = []"
    using r by blast
qed

text \<open>
  C32. The secondary slot does nothing to make B0 start the primary one. On a reliable platform whose
  file system mounts, with \<open>s1\<close> running, no update of \<open>s0\<close>, and an update of \<open>s1\<close> that is accepted (\<open>waits\<close>), the
  update step reboots, and leaves every file and every partition but that of the file system as it was.
  So it is in boot after boot, however many, as long as B0 starts \<open>s1\<close>, and whatever the shared buffer
  holds at each: none of them gets past the update step.
\<close>

theorem waiting_update_reboots_forever:
  assumes plat: "fw_platform True dv E A C" and boot: "boot_spec dv K E" and keep: "files_persist dv E"
    and wf: "hw_rev_wf hr" and slot: "slot \<noteq> 0"
    and mounts: "\<And>w. fst (fs_mount E (RUUVI_FW_UPDATE_MOUNT_POINT K) w) = 0"
      "\<And>w. 0 \<le> fst (fs_statvfs E (RUUVI_FW_UPDATE_MOUNT_POINT K) w)"
    and w: "waits A C K E dv hr (RUUVI_FW_MCUBOOT1_FILE_NAME K) (PM_ID_s1 K) (dv w)"
    and none: "d_files (dv w) (btldr_path K (RUUVI_FW_MCUBOOT0_FILE_NAME K)) = None"
    and bufs: "\<forall>buf \<in> set bufs. length buf = shared_img_buf_size K"
  shows "\<exists>w'. update_steps A C K E slot hr bufs w = Some (Inl w') \<and> d_files (dv w') = d_files (dv w)
    \<and> d_area (dv w') = d_area (dv w) \<and> (\<forall>j. j \<noteq> PM_ID_littlefs_storage1 K \<longrightarrow> d_flash (dv w') j = d_flash (dv w) j)"
  using w none bufs
proof (induction bufs arbitrary: w)
  case (Cons buf bufs)
  let ?s = "power_on buf w"
  have ok: "fw_ok K ?s"
    using Cons.prems(3) by simp
  obtain s' where s': "mcuboot_fw_update A C K E slot hr ?s = Some (Rebooted s')"
      "d_files (sdev dv s') = d_files (dv w)" "d_area (sdev dv s') = d_area (dv w)"
      "\<forall>j. j \<noteq> PM_ID_littlefs_storage1 K \<longrightarrow> d_flash (sdev dv s') j = d_flash (dv w) j"
    using waiting_update_reboots [OF plat boot keep ok wf slot mounts] Cons.prems(1,2) by auto
  have "waits A C K E dv hr (RUUVI_FW_MCUBOOT1_FILE_NAME K) (PM_ID_s1 K) (sdev dv s')"
    by (rule waits_same [OF Cons.prems(1)]) (simp_all add: s'(2,3))
  then show ?case
    using Cons.IH [of "world s'"] Cons.prems(2,3) s' by auto
qed simp

lemma waiting_image_length: "length waiting_image = shared_img_buf_size demo_config"
  by (simp add: demo_config_def waiting_image_def s1_image_def)

lemma waiting_b0_accepts: "b0_accepts demo_config (ram_os demo_abi demo_config) 0x80 waiting_image"
  unfolding b0_accepts_def
proof (intro conjI allI impI)
  fix buf and w :: ram
  assume "length buf = shared_img_buf_size demo_config \<and> take (length waiting_image) buf = waiting_image"
  then have buf: "buf = waiting_image"
    by (metis waiting_image_length order_refl take_all)
  show "\<exists>p info. fw_info_find (ram_os demo_abi demo_config) (shared_img_buf_addr demo_config) buf w = Some (p, info)
      \<and> unat (fi_address info - 0x80) < shared_img_buf_size demo_config
      \<and> fst (bl_validate_firmware (ram_os demo_abi demo_config) (fi_address info)
          (shared_img_buf_addr demo_config + (fi_address info - 0x80)) buf w)"
    unfolding buf by (simp add: waiting_image_def s1_image_def fw_eval ram_eval sum_list_replicate)
qed (simp add: waiting_image_length)

theorem waiting_update_reboots_forever_witness:
  "\<exists>w'. update_steps demo_abi demo_crypto demo_config (ram_os demo_abi demo_config) 1 hw_rev_zero
      [replicate 64 7, waiting_image, replicate 64 0] waiting_ram = Some (Inl w')
    \<and> d_files (ram_view w') ''/m/b1'' = Some waiting_image"
proof -
  have view: "ram_view waiting_ram = r_dev waiting_ram"
    by (rule dev.equality)
      (auto simp: waiting_ram_def update_ram_def ram_view_def fun_eq_iff demo_area_def old_image_def waiting_image_def
        s1_image_def split: option.split)
  have stored: "d_files (ram_view waiting_ram) ''/m/b1'' = Some waiting_image"
    and none: "d_files (ram_view waiting_ram) (btldr_path demo_config (RUUVI_FW_MCUBOOT0_FILE_NAME demo_config)) = None"
    and area: "d_area (ram_view waiting_ram) 2 = Some \<lparr>fa_id = 2, fa_off = 0x80, fa_size = 64\<rparr>"
    unfolding view by (simp_all add: waiting_ram_def update_ram_def demo_area_def btldr_path_def demo_config_def)
  have path: "btldr_path demo_config (RUUVI_FW_MCUBOOT1_FILE_NAME demo_config) = ''/m/b1''"
    "PM_ID_s1 demo_config = 2"
    by (simp_all add: btldr_path_def demo_config_def)
  have info: "fw_info_search demo_abi demo_config waiting_image (fw_info_allowed_offsets demo_config) \<noteq> None"
    by (simp add: fw_info_at_def waiting_image_def s1_image_def demo_abi_def demo_config_def bytes_at_def byte_n_def Let_def)
  have waits: "waits demo_abi demo_crypto demo_config (ram_os demo_abi demo_config) ram_view hw_rev_zero
      (RUUVI_FW_MCUBOOT1_FILE_NAME demo_config) (PM_ID_s1 demo_config) (ram_view waiting_ram)"
    unfolding waits_def path
    by (intro exI [of _ waiting_image] exI [of _ "\<lparr>fa_id = 2, fa_off = 0x80, fa_size = 64\<rparr>"])
      (use stored area info waiting_b0_accepts in \<open>simp add: demo_config_def hw_rev_zero_def FW_INFO_HW_REV_NAME_MAX_LEN_def\<close>)
  have "\<forall>buf \<in> set [replicate 64 7, waiting_image, replicate 64 0]. length buf = shared_img_buf_size demo_config"
    by (simp add: demo_config_def waiting_image_def s1_image_def)
  from waiting_update_reboots_forever [OF demo_fw_platform demo_boot_spec demo_files_persist hw_rev_wf_zero _ _ _ waits none
      this, of 1]
  show ?thesis
    using stored by (auto simp: btldr_path_def demo_config_def ram_os_def)
qed

end
