(* ===== verification/Quiet_Calls.thy ===== *)
theory Quiet_Calls
  imports Fw_Update
begin

section \<open>What the calls that only read cannot change\<close>

text \<open>
  All the checks of an update use the same calls of the platform: those that open, read and close
  files and flash areas and ask the SDK about images. Whatever these calls preserve, the checks
  preserve. The locale states that as a contract on an arbitrary predicate of the world; it is
  interpreted for ``nothing has been recorded'' in the theory \<open>Power_Loss\<close>.
\<close>

text \<open>A computation that at most removes the file at its end.\<close>

definition at_most_removes :: "('w \<Rightarrow> bool) \<Rightarrow> config \<Rightarrow> 'w os \<Rightarrow> string \<Rightarrow> 'w fw \<Rightarrow> bool" where
  "at_most_removes J K E n s \<longleftrightarrow>
     J (world s) \<or> (\<exists>t. J (world t) \<and> s = snd (btldr_fs_unlink_file K E n t))"

locale quiet =
  fixes E :: "'w os" and J :: "'w \<Rightarrow> bool"
  assumes q_open: "J w \<Longrightarrow> J (snd (fs_open E p w))"
    and q_close: "J w \<Longrightarrow> J (snd (fs_close E f w))"
    and q_read: "J w \<Longrightarrow> J (snd (fs_read E f n w))"
    and q_seek: "J w \<Longrightarrow> J (snd (fs_seek E f off wh w))"
    and q_stat: "J w \<Longrightarrow> J (snd (fs_stat E p w))"
    and q_area_open: "J w \<Longrightarrow> J (snd (flash_area_open E i w))"
    and q_area_close: "J w \<Longrightarrow> J (flash_area_close E fa w)"
    and q_area_read: "J w \<Longrightarrow> J (snd (flash_area_read E fa off n w))"
    and q_header: "J w \<Longrightarrow> J (snd (boot_image_load_header E fa w))"
    and q_validate: "J w \<Longrightarrow> J (snd (bl_validate_firmware E a b m w))"
begin

lemmas calls [simp] = q_open q_close q_read q_seek q_stat q_area_open q_area_close q_area_read q_header q_validate

text \<open>Files by name, and the state around the world.\<close>

lemma world_on_world [simp]: "world (snd (on_world c s)) = snd (c (world s))"
  by (simp add: on_world_def case_prod_beta)

lemma files [simp]:
  "J (world s) \<Longrightarrow> J (world (snd (btldr_fs_is_file_exist K E n s)))"
  "J (world s) \<Longrightarrow> J (world (snd (btldr_fs_open_file K E n s)))"
  "J (world s) \<Longrightarrow> J (world (btldr_fs_close_file E f s))"
  "J (world s) \<Longrightarrow> J (world (snd (btldr_fs_get_file_size E f s)))"
  by (simp_all add: btldr_fs_is_file_exist_def btldr_fs_open_file_def btldr_fs_close_file_def btldr_fs_get_file_size_def
      btldr_fs_lock_and_get_abs_path_def btldr_fs_unlock_def Let_def case_prod_beta)

text \<open>Image data and the TLVs.\<close>

lemma load_image_data [simp]: "J w \<Longrightarrow> J (snd (load_image_data E f start n w))"
  by (simp add: load_image_data_def case_prod_beta)

lemma areas [simp]:
  "J w \<Longrightarrow> J (snd (get_flash_area_address_and_size E i w))"
  "J w \<Longrightarrow> J (snd (load_image_header E i h w))"
  by (simp_all add: get_flash_area_address_and_size_def load_image_header_def case_prod_beta)

lemma iter_begin [simp]: "J w \<Longrightarrow> J (snd (file_tlv_iter_begin A E it h f ty prot w))"
  by (simp add: file_tlv_iter_begin_def case_prod_beta Let_def split: option.split)

lemma iter_loop:
  assumes "file_tlv_iter_loop A E h f it w = Some r" and "J w"
  shows "J (snd (snd r))"
proof -
  have "E = E \<longrightarrow> J w \<longrightarrow> J (snd (snd r))"
    by (rule file_tlv_iter_loop.raw_induct [where P = "\<lambda>A E' h f it w r. E' = E \<longrightarrow> J w \<longrightarrow> J (snd (snd r))", OF _ assms(1)])
      (auto simp: Let_def split: if_splits)
  then show ?thesis
    using assms(2) by simp
qed

lemma hash_loop:
  assumes "file_img_hash_loop C E f tsz sz off c buf w = Some r" and "J w"
  shows "J (snd r)"
proof -
  have "E = E \<longrightarrow> J w \<longrightarrow> J (snd r)"
    by (rule file_img_hash_loop.raw_induct [where P = "\<lambda>C E' f tsz sz off c buf w r. E' = E \<longrightarrow> J w \<longrightarrow> J (snd r)", OF _ assms(1)])
      (auto simp: Let_def split: if_splits)
  then show ?thesis
    using assms(2) by simp
qed

lemma iter_next: "file_tlv_iter_next A E it w = Some r \<Longrightarrow> J w \<Longrightarrow> J (snd (snd r))"
  by (auto simp: file_tlv_iter_next_def split: option.splits dest: iter_loop)

lemma tlv_calls [simp]:
  "J w \<Longrightarrow> J (snd (file_image_validate_tlv_expected_hash A C E f off len hash v w))"
  "J w \<Longrightarrow> J (snd (file_image_validate_tlv_expected_key A C E f off len k w))"
  "J w \<Longrightarrow> J (snd (file_image_validate_tlv_expected_sig A C K E f off len hash sv k w))"
  by (simp_all add: file_image_validate_tlv_expected_hash_def file_image_validate_tlv_expected_key_def
      file_image_validate_tlv_expected_sig_def case_prod_beta)

lemma validate_tlv: "file_image_validate_tlv A C K E f hash v w = Some r \<Longrightarrow> J w \<Longrightarrow> J (snd (snd r))"
  by (auto simp: file_image_validate_tlv_def bind_eq_Some_conv Let_def case_prod_beta dest!: iter_next split: if_splits)

lemma validate_loop:
  assumes "file_img_validate_loop A C K E f hash v w = Some r" and "J w"
  shows "J (snd (snd r))"
proof -
  have "E = E \<longrightarrow> J w \<longrightarrow> J (snd (snd r))"
  proof (rule file_img_validate_loop.raw_induct
      [where P = "\<lambda>A C K E' f hash v w r. E' = E \<longrightarrow> J w \<longrightarrow> J (snd (snd r))", OF _ assms(1)])
    fix loop A C K E' f hash v w r
    assume ih: "\<And>A C K E' f hash v w r. loop A C K E' f hash v w = Some r \<Longrightarrow> E' = E \<longrightarrow> J w \<longrightarrow> J (snd (snd r))"
      and run: "Option.bind (file_image_validate_tlv A C K E' f hash v w) (\<lambda>(rc, v, w).
         if rc < 0 then Some (rc, v, w) else if rc > 0 then Some (rc, v, w) else loop A C K E' f hash v w) = Some r"
    show "E' = E \<longrightarrow> J w \<longrightarrow> J (snd (snd r))"
    proof (intro impI)
      assume E: "E' = E" and J: "J w"
      obtain rc v1 w1 where one: "file_image_validate_tlv A C K E f hash v w = Some (rc, v1, w1)"
        and rest: "(if rc < 0 then Some (rc, v1, w1) else if rc > 0 then Some (rc, v1, w1) else loop A C K E f hash v1 w1) = Some r"
        using run unfolding E bind_eq_Some_conv by auto
      have "J w1"
        using validate_tlv [OF one J] by simp
      then show "J (snd (snd r))"
        using rest ih [of A C K E f hash v1 w1 r] by (auto split: if_splits)
    qed
  qed
  then show ?thesis
    using assms(2) by simp
qed

lemma validate:
  "file_img_validate A C K E h f sz buf bsz seed sl w = Some r \<Longrightarrow> J w \<Longrightarrow> J (snd r)"
  by (auto simp: file_img_validate_def file_img_hash_def bind_eq_Some_conv Let_def case_prod_beta
      dest!: hash_loop validate_loop split: if_splits option.splits)

text \<open>The hardware revision.\<close>

lemma hw_rev_calls [simp]:
  "J w \<Longrightarrow> J (snd (fw_img_hw_rev_handle_tlv_hw_rev_in_file A E t f hr w))"
  "J w \<Longrightarrow> J (snd (find_tlvs_in_file A E f magic off w))"
  by (simp_all add: fw_img_hw_rev_handle_tlv_hw_rev_in_file_def hw_rev_num_in_file_def hw_rev_name_in_file_def
      find_tlvs_in_file_def Let_def case_prod_beta)

lemma hw_rev_loop:
  assumes "hw_rev_file_loop A E f te off buf hr w = Some r" and "J w"
  shows "J (snd r)"
proof -
  have "E = E \<longrightarrow> J w \<longrightarrow> J (snd r)"
    by (rule hw_rev_file_loop.raw_induct
          [where P = "\<lambda>A E' f te off buf hr w r. E' = E \<longrightarrow> J w \<longrightarrow> J (snd r)", OF _ assms(1)])
      (auto simp: Let_def split: if_splits)
  then show ?thesis
    using assms(2) by simp
qed

lemma hw_rev: "fw_img_hw_rev_find_in_file A E f hr w = Some r \<Longrightarrow> J w \<Longrightarrow> J (snd r)"
  by (auto simp: fw_img_hw_rev_find_in_file_def Let_def case_prod_beta dest!: hw_rev_loop split: if_splits)

text \<open>The checks of an update file.\<close>

lemma on_world_opt:
  assumes "on_world_opt c s = Some (x, s')" and "J (world s)" and "\<And>r. c (world s) = Some r \<Longrightarrow> J (world s) \<Longrightarrow> J (snd r)"
  shows "J (world s')"
  using assms by (auto simp: on_world_opt_def bind_eq_Some_conv)

lemma b0_signature [simp]: "J (world s) \<Longrightarrow> J (world (snd (validate_b0_signature K E n addr sz s)))"
  by (simp add: validate_b0_signature_def Let_def case_prod_beta split: option.split)

lemma file_header [simp]: "J (world s) \<Longrightarrow> J (world (snd (load_image_header_from_file A E f s)))"
  by (simp add: load_image_header_from_file_def Let_def case_prod_beta split: option.split)

lemma image_file [simp]: "J (world s) \<Longrightarrow> J (world (snd (open_file_and_load_image_header A K E n s)))"
  by (simp add: open_file_and_load_image_header_def Let_def case_prod_beta split: option.split)

lemma fw_info [simp]: "J (world s) \<Longrightarrow> J (world (snd (fw_info_find_in_file A K E n s)))"
proof -
  have one: "J (world s) \<Longrightarrow> J (world (snd (fw_info_check_in_file A K E f off s)))" for f off s
    by (simp add: fw_info_check_in_file_def Let_def case_prod_beta)
  have "J (world s) \<Longrightarrow> J (world (snd (fw_info_find_loop A K E f offs s)))" for f offs s
    by (induction offs arbitrary: s) (simp_all add: one case_prod_beta split: option.split)
  then show "J (world s) \<Longrightarrow> J (world (snd (fw_info_find_in_file A K E n s)))"
    by (simp add: fw_info_find_in_file_def case_prod_beta)
qed

lemma downgrade [simp]: "J (world s) \<Longrightarrow> J (world (snd (check_downgrade_prevention K E i h s)))"
  by (simp add: check_downgrade_prevention_def Let_def case_prod_beta)

lemma validate_file:
  assumes "validate_file A C K E n addr sz h0 hr0 s = Some (r, s')" and "J (world s)"
  shows "J (world s')"
  using assms
  by (auto simp: validate_file_def bind_eq_Some_conv Let_def case_prod_beta
      dest!: on_world_opt [OF _ _ hw_rev] on_world_opt [OF _ _ validate] split: if_splits option.splits)

text \<open>Up to the installation, the file is at most removed, and it is removed last.\<close>

lemma removes [simp]:
  "J (world s) \<Longrightarrow> at_most_removes J K E n (snd (btldr_fs_unlink_file K E n s))"
  "J (world s) \<Longrightarrow> at_most_removes J K E n s"
  by (auto simp: at_most_removes_def)

lemma check_file:
  assumes "check_file A C K E n addr sz b0 h0 hr0 s = Some ((r, h, hr), s')" and "J (world s)"
  shows "if r then J (world s') else at_most_removes J K E n s'"
proof (cases b0)
  case True
  then show ?thesis
    using assms by (auto simp: check_file_def bind_eq_Some_conv case_prod_beta dest!: validate_file split: if_splits)
next
  case False
  then show ?thesis
    using assms by (auto simp: check_file_def bind_eq_Some_conv case_prod_beta dest!: validate_file split: if_splits)
qed

lemma checks_before_install:
  assumes "checks_before_install A C K E n i hr b0 s = Some (r, s')" and "J (world s)"
  shows "if r then J (world s') else at_most_removes J K E n s'"
proof -
  obtain okA addr sz s1 where ar: "on_world (get_flash_area_address_and_size E i) s = ((okA, addr, sz), s1)"
    by (metis prod.exhaust)
  have J1: "J (world s1)"
    using areas(1) [OF assms(2), of i] world_on_world [of "get_flash_area_address_and_size E i" s] ar by simp
  show ?thesis
  proof (cases okA)
    case False
    then show ?thesis
      using assms(1) J1 by (simp add: checks_before_install_def ar)
  next
    case True
    then obtain r2 h hr2 s2 where ch: "check_file A C K E n addr sz b0 image_header_zero hw_rev_zero s1 = Some ((r2, h, hr2), s2)"
      using assms(1) by (auto simp: checks_before_install_def ar bind_eq_Some_conv)
    note c = check_file [OF ch J1]
    show ?thesis
    proof (cases r2)
      case False
      then show ?thesis
        using assms(1) c True by (simp add: checks_before_install_def ar ch)
    next
      case r2: True
      obtain fi s3 where fi: "fw_info_find_in_file A K E n s2 = (fi, s3)"
        by (metis prod.exhaust)
      have J3: "J (world s3)"
        using fw_info [of s2 A K n] c r2 fi by simp
      then have "J (world (snd (check_downgrade_prevention K E i h s3)))"
        by simp
      then show ?thesis
        using assms(1) True r2 J3 by (auto simp: checks_before_install_def ar ch fi case_prod_beta
            split: if_splits option.splits)
    qed
  qed
qed

lemma check_update_for_mcuboot:
  assumes "check_update_for_mcuboot A C K E n i hr s = Some (r, s')" and "J (world s)"
  shows "if r then J (world s') else at_most_removes J K E n s'"
  using assms
  by (auto simp: check_update_for_mcuboot_def bind_eq_Some_conv case_prod_beta dest!: validate_file
      split: if_splits option.splits)

end

end
