(* ===== verification/Power_Loss.thy ===== *)
theory Power_Loss
  imports Quiet_Calls Boots
begin

section \<open>Losing power during an update\<close>

text \<open>
  The device can lose power at any moment of an update. To speak about moments, the platform is made
  to record: a world comes with the list of the states the device has been in, newest first, one
  for every call that changes files or partitions. All calls still do what they do.
\<close>

subsection \<open>A platform that records\<close>

definition silently :: "('w \<Rightarrow> 'a \<times> 'w) \<Rightarrow> 'w \<times> 'h \<Rightarrow> 'a \<times> 'w \<times> 'h" where
  "silently call x = (case call (fst x) of (r, w) \<Rightarrow> (r, w, snd x))"

definition noting :: "('w \<Rightarrow> dev) \<Rightarrow> ('w \<Rightarrow> 'a \<times> 'w) \<Rightarrow> 'w \<times> dev list \<Rightarrow> 'a \<times> 'w \<times> dev list" where
  "noting dv call x = (case call (fst x) of (r, w) \<Rightarrow> (r, w, dv w # snd x))"

definition recording :: "('w \<Rightarrow> dev) \<Rightarrow> 'w os \<Rightarrow> ('w \<times> dev list) os" where
  "recording dv E = \<lparr>
     fs_open = (\<lambda>p. silently (fs_open E p)),
     fs_close = (\<lambda>f. silently (fs_close E f)),
     fs_read = (\<lambda>f n. silently (fs_read E f n)),
     fs_seek = (\<lambda>f off wh. silently (fs_seek E f off wh)),
     fs_tell = (\<lambda>f x. fs_tell E f (fst x)),
     fs_stat = (\<lambda>p. silently (fs_stat E p)),
     fs_unlink = (\<lambda>p. noting dv (fs_unlink E p)),
     fs_mount = (\<lambda>p. noting dv (fs_mount E p)),
     fs_statvfs = (\<lambda>p. silently (fs_statvfs E p)),
     fs_unmount = (\<lambda>p. noting dv (fs_unmount E p)),
     flash_area_open = (\<lambda>i. silently (flash_area_open E i)),
     flash_area_close = (\<lambda>fa x. (flash_area_close E fa (fst x), snd x)),
     flash_area_read = (\<lambda>fa off n. silently (flash_area_read E fa off n)),
     flash_area_write = (\<lambda>fa off data. noting dv (flash_area_write E fa off data)),
     flash_area_erase = (\<lambda>fa off n. noting dv (flash_area_erase E fa off n)),
     flash_area_flatten = (\<lambda>fa off n. noting dv (flash_area_flatten E fa off n)),
     boot_image_load_header = (\<lambda>fa. silently (boot_image_load_header E fa)),
     fw_info_find = (\<lambda>addr buf x. fw_info_find E addr buf (fst x)),
     fw_info_invalidate = (\<lambda>p x. (fw_info_invalidate E p (fst x), dv (fw_info_invalidate E p (fst x)) # snd x)),
     bl_validate_firmware = (\<lambda>a b m. silently (bl_validate_firmware E a b m)),
     sys_reboot_cold = (\<lambda>x. (sys_reboot_cold E (fst x), snd x)),
     k_msleep = (\<lambda>n x. (k_msleep E n (fst x), snd x))\<rparr>"

abbreviation seen :: "('w \<Rightarrow> dev) \<Rightarrow> 'w \<times> 'h \<Rightarrow> dev" where
  "seen dv \<equiv> \<lambda>x. dv (fst x)"

lemma silently_run: "silently call x = (r, y) \<longleftrightarrow> call (fst x) = (r, fst y) \<and> snd y = snd x"
  by (cases y) (auto simp: silently_def split: prod.split)

lemma noting_run: "noting dv call x = (r, y) \<longleftrightarrow> call (fst x) = (r, fst y) \<and> snd y = dv (fst y) # snd x"
  by (cases y) (auto simp: noting_def split: prod.split)

lemma snd_silently [simp]: "snd (snd (silently call x)) = snd x"
  by (simp add: silently_def split: prod.split)

lemma recording_calls:
  "fs_open (recording dv E) p = silently (fs_open E p)"
  "fs_close (recording dv E) f = silently (fs_close E f)"
  "fs_read (recording dv E) f n = silently (fs_read E f n)"
  "fs_seek (recording dv E) f off wh = silently (fs_seek E f off wh)"
  "fs_tell (recording dv E) f x = fs_tell E f (fst x)"
  "fs_stat (recording dv E) p = silently (fs_stat E p)"
  "fs_unlink (recording dv E) p = noting dv (fs_unlink E p)"
  "flash_area_open (recording dv E) i = silently (flash_area_open E i)"
  "flash_area_close (recording dv E) fa x = (flash_area_close E fa (fst x), snd x)"
  "flash_area_read (recording dv E) fa off n = silently (flash_area_read E fa off n)"
  "flash_area_write (recording dv E) fa off data = noting dv (flash_area_write E fa off data)"
  "flash_area_erase (recording dv E) fa off n = noting dv (flash_area_erase E fa off n)"
  "boot_image_load_header (recording dv E) fa = silently (boot_image_load_header E fa)"
  "fw_info_find (recording dv E) addr buf x = fw_info_find E addr buf (fst x)"
  "fw_info_invalidate (recording dv E) ptr x = (fw_info_invalidate E ptr (fst x), dv (fw_info_invalidate E ptr (fst x)) # snd x)"
  "bl_validate_firmware (recording dv E) a b m = silently (bl_validate_firmware E a b m)"
  "k_msleep (recording dv E) n x = (k_msleep E n (fst x), snd x)"
  by (simp_all add: recording_def)

text \<open>It satisfies every specification the platform satisfies.\<close>

lemmas recording_run = recording_calls silently_run noting_run fst_conv snd_conv

lemma recording_fs_calls:
  "fs_seek_spec rel dv E \<Longrightarrow> fs_seek_spec rel (seen dv) (recording dv E)"
  "fs_read_spec rel dv E \<Longrightarrow> fs_read_spec rel (seen dv) (recording dv E)"
  "fs_open_spec rel dv E \<Longrightarrow> fs_open_spec rel (seen dv) (recording dv E)"
  "fs_stat_spec rel dv E \<Longrightarrow> fs_stat_spec rel (seen dv) (recording dv E)"
  "fs_unlink_spec rel dv E \<Longrightarrow> fs_unlink_spec rel (seen dv) (recording dv E)"
  "fs_close_spec dv E \<Longrightarrow> fs_close_spec (seen dv) (recording dv E)"
  "fs_tell_spec dv E \<Longrightarrow> fs_tell_spec (seen dv) (recording dv E)"
  unfolding fs_seek_spec_def fs_read_spec_def fs_open_spec_def fs_stat_spec_def fs_unlink_spec_def fs_close_spec_def fs_tell_spec_def recording_run
  by blast+

lemma recording_flash_calls:
  "flash_open_spec rel dv E \<Longrightarrow> flash_open_spec rel (seen dv) (recording dv E)"
  "flash_read_spec rel dv E \<Longrightarrow> flash_read_spec rel (seen dv) (recording dv E)"
  "flash_write_spec rel dv E \<Longrightarrow> flash_write_spec rel (seen dv) (recording dv E)"
  "flash_erase_spec rel dv E \<Longrightarrow> flash_erase_spec rel (seen dv) (recording dv E)"
  "flash_close_spec dv E \<Longrightarrow> flash_close_spec (seen dv) (recording dv E)"
  unfolding flash_open_spec_def flash_read_spec_def flash_write_spec_def flash_erase_spec_def flash_close_spec_def recording_run Let_def
  by blast+

lemma recording_fs_spec: "fs_spec rel dv E \<Longrightarrow> fs_spec rel (seen dv) (recording dv E)"
  unfolding fs_spec_def by (simp add: recording_fs_calls fs_size_spec_def)

lemma recording_flash_spec: "flash_spec rel dv E \<Longrightarrow> flash_spec rel (seen dv) (recording dv E)"
  unfolding flash_spec_def by (simp add: recording_flash_calls flash_area_wf_def)

lemma recording_query_spec: "query_spec dv E \<Longrightarrow> query_spec (seen dv) (recording dv E)"
  unfolding query_spec_def recording_run by blast

lemma recording_platform:
  "fw_platform rel dv E A C \<Longrightarrow> fw_platform rel (seen dv) (recording dv E) A C"
  unfolding fw_platform_def using recording_fs_spec recording_flash_spec recording_query_spec by blast

lemma recording_invalidate: "invalidate_spec dv E \<Longrightarrow> invalidate_spec (seen dv) (recording dv E)"
  unfolding invalidate_spec_def by (simp add: recording_def)

interpretation silent: quiet "recording dv E" "\<lambda>x. snd x = h"
  for dv E h
  by unfold_locales (simp_all add: recording_def)

subsection \<open>Copying a file, call by call\<close>

text \<open>What the calls that copy a file preserve, the copy preserves.\<close>

locale copying =
  fixes E :: "'w os" and f :: fs_file_t and i :: fa_id_t and J :: "'w \<Rightarrow> bool" and area_ok :: "flash_area \<Rightarrow> bool"
  assumes c_area_open: "J w \<Longrightarrow> J (snd (flash_area_open E i w))"
    and c_area: "J w \<Longrightarrow> fst (fst (flash_area_open E i w)) = 0 \<Longrightarrow> area_ok (snd (fst (flash_area_open E i w)))"
    and c_area_close: "J w \<Longrightarrow> J (flash_area_close E fa w)"
    and c_seek: "J w \<Longrightarrow> J (snd (fs_seek E f off wh w))"
    and c_read: "J w \<Longrightarrow> J (snd (fs_read E f n w))"
    and c_write: "J w \<Longrightarrow> area_ok fa \<Longrightarrow> J (snd (flash_area_write E fa off data w))"
    and c_erase: "J w \<Longrightarrow> area_ok fa \<Longrightarrow> J (snd (flash_area_erase E fa off n w))"
begin

lemma write_chunk: "J w \<Longrightarrow> area_ok fa \<Longrightarrow> J (snd (cb_img_write E fa off data w))"
  by (simp add: cb_img_write_def case_prod_beta c_write)

lemma loop: "J w \<Longrightarrow> area_ok fa \<Longrightarrow> J (snd (img_process_loop E f (cb_img_write E) fa rem off w))"
proof (induction rem arbitrary: off w rule: less_induct)
  case (less rem)
  show ?case
    using less.prems by (subst img_process_loop.simps)
      (simp add: Let_def case_prod_beta c_read write_chunk less.IH TMP_BUF_SIZE_def)
qed

lemma copy: "J w \<Longrightarrow> J (snd (mcuboot_img_op_copy E i f w))"
  by (simp add: mcuboot_img_op_copy_def img_process_def Let_def case_prod_beta c_area_open c_area c_area_close
      c_seek c_erase loop)

end

text \<open>While a file is copied into a partition, the device differs from what it was in that partition only.\<close>

definition only_differs :: "fa_id_t \<Rightarrow> dev \<Rightarrow> dev \<Rightarrow> bool" where
  "only_differs i d d' \<longleftrightarrow>
     d_files d' = d_files d \<and> d_area d' = d_area d \<and> length (d_flash d' i) = length (d_flash d i)
     \<and> (\<forall>j. j \<noteq> i \<longrightarrow> d_flash d' j = d_flash d j)"

definition copying_state ::
  "bool \<Rightarrow> ('w \<Rightarrow> dev) \<Rightarrow> 'w os \<Rightarrow> fs_file_t \<Rightarrow> fa_id_t \<Rightarrow> byte list \<Rightarrow> dev \<Rightarrow> dev list \<Rightarrow> 'w \<times> dev list \<Rightarrow> bool"
where
  "copying_state rel dv E f i bs d h x \<longleftrightarrow>
     fs_spec rel dv E \<and> flash_spec rel dv E \<and> (\<exists>p. file_at d f = Some (bs, p))
     \<and> (\<exists>pos fl. length fl = length (d_flash d i) \<and> dv (fst x) = set_pos f pos (set_flash i fl d))
     \<and> (\<exists>ds. snd x = ds @ h \<and> (\<forall>d'\<in>set ds. only_differs i d d'))"

lemma copying_state_moved:
  assumes "copying_state rel dv E f i bs d h x" and "dv w = set_pos f pos (dv (fst x))"
  shows "copying_state rel dv E f i bs d h (w, snd x)"
proof -
  obtain pos0 fl where "length fl = length (d_flash d i)" "dv (fst x) = set_pos f pos0 (set_flash i fl d)"
    using assms(1) unfolding copying_state_def by blast
  then have "\<exists>pos fl. length fl = length (d_flash d i) \<and> dv w = set_pos f pos (set_flash i fl d)"
    using assms(2) by auto
  then show ?thesis
    using assms(1) unfolding copying_state_def by simp
qed

lemma copying_state_written:
  assumes "copying_state rel dv E f i bs d h x" and "dv w = set_flash i fl (dv (fst x))"
    and "length fl = length (d_flash (dv (fst x)) i)"
  shows "copying_state rel dv E f i bs d h (w, dv w # snd x)"
proof -
  obtain pos fl0 ds where x: "length fl0 = length (d_flash d i)" "dv (fst x) = set_pos f pos (set_flash i fl0 d)"
      "snd x = ds @ h" "\<forall>d'\<in>set ds. only_differs i d d'"
    and s: "fs_spec rel dv E" "flash_spec rel dv E" "\<exists>p. file_at d f = Some (bs, p)"
    using assms(1) unfolding copying_state_def by blast
  have "dv w = set_pos f pos (set_flash i fl d)"
    by (simp add: assms(2) x(2) set_pos_set_flash)
  moreover have "length fl = length (d_flash d i)"
    using assms(3) x(1,2) by simp
  ultimately have "only_differs i d (dv w)" "\<exists>pos fl. length fl = length (d_flash d i) \<and> dv w = set_pos f pos (set_flash i fl d)"
    by (auto simp: only_differs_def)
  moreover have "dv w # snd x = (dv w # ds) @ h"
    by (simp add: x(3))
  ultimately show ?thesis
    using s x(4) unfolding copying_state_def by (auto intro!: exI [of _ "dv w # ds"])
qed

lemma copying_state_same:
  "copying_state rel dv E f i bs d h x \<Longrightarrow> dv w = dv (fst x) \<Longrightarrow> copying_state rel dv E f i bs d h (w, snd x)"
  by (auto simp: copying_state_def)

lemma copying_state_facts:
  assumes "copying_state rel dv E f i bs d h x"
  shows "fs_spec rel dv E" and "flash_spec rel dv E" and "d_area (dv (fst x)) = d_area d"
    and "\<exists>pos. file_at (dv (fst x)) f = Some (bs, pos)"
proof -
  obtain pos fl p where x: "dv (fst x) = set_pos f pos (set_flash i fl d)" "file_at d f = Some (bs, p)"
    using assms unfolding copying_state_def by blast
  then show "d_area (dv (fst x)) = d_area d" and "\<exists>pos. file_at (dv (fst x)) f = Some (bs, pos)"
    by auto
qed (use assms in \<open>simp_all add: copying_state_def\<close>)

lemma copying_state_area:
  assumes "copying_state rel dv E f i bs d h x" and "d_area d i = Some fa"
  shows "d_area (dv (fst x)) (fa_id fa) = Some fa" and "fa_id fa = i"
proof -
  show id: "fa_id fa = i"
    using flash_specD(2) [OF copying_state_facts(2) [OF assms(1)]] assms(2) copying_state_facts(3) [OF assms(1)]
    unfolding flash_area_wf_def by metis
  show "d_area (dv (fst x)) (fa_id fa) = Some fa"
    using assms(2) copying_state_facts(3) [OF assms(1)] id by simp
qed

interpretation recorded_copy: copying "recording dv E" f i "copying_state rel dv E f i bs d h"
    "\<lambda>fa. d_area d i = Some fa"
  for dv E f i rel bs d h
proof (unfold_locales, goal_cases)
  case (1 x)
  have "dv (snd (flash_area_open E i (fst x))) = dv (fst x)"
    using flash_specD(1) [OF copying_state_facts(2) [OF 1]] unfolding flash_open_spec_def by (metis prod.collapse)
  then show ?case
    using copying_state_same [OF 1] by (simp add: recording_calls silently_def case_prod_beta)
next
  case (2 x)
  then show ?case
    using flash_specD(1) [OF copying_state_facts(2) [OF 2(1)]] copying_state_facts(3) [OF 2(1)]
    unfolding flash_open_spec_def by (simp add: recording_calls silently_def case_prod_beta) (metis prod.collapse)
next
  case (3 x fa)
  then show ?case
    using flash_specD(3) [OF copying_state_facts(2) [OF 3]] copying_state_same [OF 3]
    by (simp add: recording_calls flash_close_spec_def)
next
  case (4 x off wh)
  obtain pos where at: "file_at (dv (fst x)) f = Some (bs, pos)"
    using copying_state_facts(4) [OF 4] by blast
  obtain rc w where sk: "fs_seek E f off wh (fst x) = (rc, w)"
    by (metis prod.exhaust)
  have "\<exists>pos. dv w = set_pos f pos (dv (fst x))"
    using fs_specD(1) [OF copying_state_facts(1) [OF 4]] sk at set_pos_same [OF at]
    unfolding fs_seek_spec_def Let_def by metis
  then show ?case
    using copying_state_moved [OF 4] by (auto simp: recording_calls silently_def sk)
next
  case (5 x n)
  obtain pos where at: "file_at (dv (fst x)) f = Some (bs, pos)"
    using copying_state_facts(4) [OF 5] by blast
  obtain rc data w where rd: "fs_read E f n (fst x) = ((rc, data), w)"
    by (metis prod.exhaust)
  have "\<exists>pos. dv w = set_pos f pos (dv (fst x))"
    using fs_specD(2) [OF copying_state_facts(1) [OF 5]] rd at set_pos_same [OF at]
    unfolding fs_read_spec_def by metis
  then show ?case
    using copying_state_moved [OF 5] by (auto simp: recording_calls silently_def rd)
next
  case (6 x fa off data)
  note area = copying_state_area [OF 6]
  obtain rc w where wr: "flash_area_write E fa off data (fst x) = (rc, w)"
    by (metis prod.exhaust)
  have "\<exists>fl. length fl = length (d_flash (dv (fst x)) i) \<and> dv w = set_flash i fl (dv (fst x))"
    using flash_specD(5) [OF copying_state_facts(2) [OF 6(1)]] wr area
    unfolding flash_write_spec_def Let_def by (metis length_patch)
  then show ?case
    using copying_state_written [OF 6(1)] by (auto simp: recording_calls noting_def wr)
next
  case (7 x fa off n)
  note area = copying_state_area [OF 7]
  obtain rc w where er: "flash_area_erase E fa off n (fst x) = (rc, w)"
    by (metis prod.exhaust)
  have "\<exists>fl. length fl = length (d_flash (dv (fst x)) i) \<and> dv w = set_flash i fl (dv (fst x))"
    using flash_specD(6) [OF copying_state_facts(2) [OF 7(1)]] er area
    unfolding flash_erase_spec_def Let_def by (metis length_patch length_replicate)
  then show ?case
    using copying_state_written [OF 7(1)] by (auto simp: recording_calls noting_def er)
qed

subsection \<open>The moments of an update\<close>

definition same_contents :: "dev \<Rightarrow> dev \<Rightarrow> bool" where
  "same_contents d d' \<longleftrightarrow> d_files d' = d_files d \<and> d_area d' = d_area d \<and> d_flash d' = d_flash d"

text \<open>
  A moment of a run of the abstract machine: some of its actions are done, and nothing else has been
  changed; or the next action installs a file that is there and was accepted, and the contents of the
  partition it goes to are arbitrary.
\<close>

definition moment ::
  "bool \<Rightarrow> ('w \<Rightarrow> dev) \<Rightarrow> image_abi \<Rightarrow> 'c crypto \<Rightarrow> config \<Rightarrow> 'w os \<Rightarrow> fw_image_hw_rev_t
   \<Rightarrow> update_action list \<Rightarrow> dev \<Rightarrow> dev \<Rightarrow> bool"
where
  "moment rel dv A C K E hr t d0 d \<longleftrightarrow>
     (\<exists>past todo d1. t = past @ todo \<and> update_run rel dv A C K E hr past d0 d1
        \<and> (same_contents d1 d
           \<or> (\<exists>n i b0 bs todo'. todo = Install n i b0 # todo' \<and> only_differs i d1 d
                \<and> d_files d1 (btldr_path K n) = Some bs \<and> install_ok rel dv A C K E hr b0 i bs d1)))"

lemma moment_end: "update_run rel dv A C K E hr t d0 d \<Longrightarrow> moment rel dv A C K E hr t d0 d"
  unfolding moment_def same_contents_def by (intro exI [of _ t] exI [of _ "[]"] exI [of _ d]) simp

lemma moment_before: "moment rel dv A C K E hr t d0 d \<Longrightarrow> moment rel dv A C K E hr (t @ u) d0 d"
  unfolding moment_def by (elim exE conjE) (simp only: append_assoc append_Cons; metis append_Cons)

lemma moment_after:
  assumes "update_run rel dv A C K E hr t d0 d1" and "moment rel dv A C K E hr u d1 d"
  shows "moment rel dv A C K E hr (t @ u) d0 d"
proof -
  obtain past todo d2 where u: "u = past @ todo" "update_run rel dv A C K E hr past d1 d2"
    and d: "same_contents d2 d
           \<or> (\<exists>n i b0 bs todo'. todo = Install n i b0 # todo' \<and> only_differs i d2 d
                \<and> d_files d2 (btldr_path K n) = Some bs \<and> install_ok rel dv A C K E hr b0 i bs d2)"
    using assms(2) unfolding moment_def by blast
  show ?thesis
    unfolding moment_def
    by (intro exI [of _ "t @ past"] exI [of _ todo] exI [of _ d2] conjI update_run_append [OF assms(1) u(2)] d)
      (simp add: u(1))
qed

text \<open>A computation of the code that is a run, with moments of the run for all that is recorded.\<close>

definition recorded_run ::
  "bool \<Rightarrow> ('w \<Rightarrow> dev) \<Rightarrow> image_abi \<Rightarrow> 'c crypto \<Rightarrow> config \<Rightarrow> 'w os \<Rightarrow> fw_image_hw_rev_t
   \<Rightarrow> update_action list \<Rightarrow> ('w \<times> dev list) fw \<Rightarrow> ('w \<times> dev list) fw \<Rightarrow> bool"
where
  "recorded_run rel dv A C K E hr t s s' \<longleftrightarrow>
     update_run rel (seen dv) A C K (recording dv E) hr t (sdev (seen dv) s) (sdev (seen dv) s')
     \<and> (\<exists>ds. snd (world s') = ds @ snd (world s)
          \<and> (\<forall>d\<in>set ds. moment rel (seen dv) A C K (recording dv E) hr t (sdev (seen dv) s) d))"

lemma recorded_run_trans [trans]:
  assumes "recorded_run rel dv A C K E hr t s s'" and "recorded_run rel dv A C K E hr u s' s''"
  shows "recorded_run rel dv A C K E hr (t @ u) s s''"
proof -
  obtain ds1 ds2 where r1: "update_run rel (seen dv) A C K (recording dv E) hr t (sdev (seen dv) s) (sdev (seen dv) s')"
      "snd (world s') = ds1 @ snd (world s)" "\<forall>d\<in>set ds1. moment rel (seen dv) A C K (recording dv E) hr t (sdev (seen dv) s) d"
    and r2: "update_run rel (seen dv) A C K (recording dv E) hr u (sdev (seen dv) s') (sdev (seen dv) s'')"
      "snd (world s'') = ds2 @ snd (world s')" "\<forall>d\<in>set ds2. moment rel (seen dv) A C K (recording dv E) hr u (sdev (seen dv) s') d"
    using assms unfolding recorded_run_def by blast
  have "\<forall>d\<in>set (ds2 @ ds1). moment rel (seen dv) A C K (recording dv E) hr (t @ u) (sdev (seen dv) s) d"
    using r1(3) r2(3) moment_before [where t = t and u = u] moment_after [OF r1(1)] unfolding set_append by blast
  moreover have "snd (world s'') = (ds2 @ ds1) @ snd (world s)"
    using r1(2) r2(2) by simp
  ultimately show ?thesis
    using update_run_append [OF r1(1) r2(1)] unfolding recorded_run_def by blast
qed

text \<open>Where only the last state is recorded, or nothing.\<close>

lemma recorded_run_last:
  assumes "update_run rel (seen dv) A C K (recording dv E) hr t (sdev (seen dv) s) (sdev (seen dv) s')"
    and "snd (world s') = snd (world s) \<or> snd (world s') = sdev (seen dv) s' # snd (world s)"
  shows "recorded_run rel dv A C K E hr t s s'"
proof -
  have "\<exists>ds. snd (world s') = ds @ snd (world s) \<and> set ds \<subseteq> {sdev (seen dv) s'}"
    using assms(2) by (auto intro: exI [of _ "[]"] exI [of _ "[sdev (seen dv) s']"])
  then show ?thesis
    using assms(1) moment_end [OF assms(1)] unfolding recorded_run_def by blast
qed

lemma unlink_recorded:
  "snd (world (snd (btldr_fs_unlink_file K (recording dv E) n s)))
     = sdev (seen dv) (snd (btldr_fs_unlink_file K (recording dv E) n s)) # snd (world s)"
  by (simp add: btldr_fs_unlink_file_def btldr_run recording_calls noting_def split: prod.split)

lemma at_most_removes_recorded:
  "at_most_removes (\<lambda>x. snd x = h) K (recording dv E) n s
   \<Longrightarrow> snd (world s) = h \<or> snd (world s) = sdev (seen dv) s # h"
  unfolding at_most_removes_def using unlink_recorded [of K dv E n] by auto

lemma install_file_recorded:
  fixes s :: "('w \<times> dev list) fw"
  assumes fs: "fs_spec rel dv E" and fl: "flash_spec rel dv E"
    and run: "install_file K (recording dv E) n i s = (r, s')"
    and bs: "d_files (sdev (seen dv) s) (btldr_path K n) = Some bs"
  shows "\<exists>ds. snd (world s') = ds @ snd (world s)
    \<and> (\<forall>d\<in>set ds. d = sdev (seen dv) s' \<or> r \<and> only_differs i (sdev (seen dv) s) d)"
proof -
  let ?E = "recording dv E" and ?h = "snd (world s)"
  note rfs = recording_fs_spec [OF fs]
  obtain f s1 where op: "btldr_fs_open_file K ?E n s = (f, s1)"
    by (metis prod.exhaust)
  have h1: "snd (world s1) = ?h"
    using silent.files(2) [of s ?h K dv E n] op by simp
  show ?thesis
  proof (cases "filep f = None")
    case True
    then show ?thesis
      using run unlink_recorded [of K dv E n s1] h1
      by (intro exI [of _ "[sdev (seen dv) s']"]) (auto simp: install_file_def op)
  next
    case False
    have o: "opened (sdev (seen dv) s) (btldr_path K n) f (sdev (seen dv) s1)"
      by (rule open_fileE [OF rfs op False])
    note same = opened_frame [OF o] and at = opened_at [OF o bs]
    let ?d1 = "sdev (seen dv) s1"
    have "copying_state rel dv E f i bs ?d1 ?h (world s1)"
      unfolding copying_state_def using fs fl at h1 set_pos_same [OF at]
      by (auto intro!: exI [of _ 0] exI [of _ "d_flash ?d1 i"])
    note copied = recorded_copy.copy [OF this]
    obtain cp s2 where cp: "on_world (mcuboot_img_op_copy ?E i f) s1 = (cp, s2)"
      by (metis prod.exhaust)
    obtain ds where ds: "snd (world s2) = ds @ ?h" "\<forall>d\<in>set ds. only_differs i ?d1 d"
      using copied on_worldD(1) [OF cp] unfolding copying_state_def by (metis snd_conv)
    have s': "s' = snd (btldr_fs_unlink_file K ?E n (btldr_fs_close_file ?E f s2))" and r
      using run False by (simp_all add: install_file_def op cp)
    have "snd (world (btldr_fs_close_file ?E f s2)) = ds @ ?h"
      using silent.files(3) [of s2 "snd (world s2)" dv E f] ds(1) by simp
    then have "snd (world s') = (sdev (seen dv) s' # ds) @ ?h"
      unfolding s' unlink_recorded by simp
    moreover have "\<forall>d\<in>set (sdev (seen dv) s' # ds). d = sdev (seen dv) s' \<or> r \<and> only_differs i (sdev (seen dv) s) d"
      using ds(2) same \<open>r\<close> by (auto simp: only_differs_def)
    ultimately show ?thesis
      by blast
  qed
qed

lemma check_file_and_update_recorded:
  fixes s :: "('w \<times> dev list) fw"
  assumes plat: "fw_platform rel dv E A C" and ok: "fw_ok K s" and wf: "hw_rev_wf hr"
  obtains r s' t where "check_file_and_update A C K (recording dv E) n i hr b0 s = Some (r, s')" and "fw_ok K s'"
    and "recorded_run rel dv A C K E hr t s s'" and "subseq t [Install n i b0, Remove n]"
proof -
  let ?E = "recording dv E" and ?dv = "seen dv"
  note rplat = recording_platform [OF plat]
  obtain r s' t where run: "check_file_and_update A C K ?E n i hr b0 s = Some (r, s')" "fw_ok K s'"
    and t: "update_run rel ?dv A C K ?E hr t (sdev ?dv s) (sdev ?dv s')" "subseq t [Install n i b0, Remove n]" "r \<longleftrightarrow> installs t"
    by (rule check_file_and_update_run [OF rplat ok wf, where n = n and i = i and ?b0.0 = b0])
  obtain c s1 where ch: "checks_before_install A C K ?E n i hr b0 s = Some (c, s1)"
    and res: "if c then sdev ?dv s1 = sdev ?dv s \<and> (\<exists>bs. d_files (sdev ?dv s) (btldr_path K n) = Some bs
            \<and> install_ok rel ?dv A C K ?E hr b0 i bs (sdev ?dv s)) \<and> d_area (sdev ?dv s) i \<noteq> None
       else removed rel K n (sdev ?dv s) (sdev ?dv s1)
            \<or> sdev ?dv s1 = sdev ?dv s \<and> \<not> (rel \<and> d_area (sdev ?dv s) i \<noteq> None)"
    using checks_before_install_answer [OF rplat ok wf, of n i b0] by blast
  note q = silent.checks_before_install [OF ch refl]
  have "recorded_run rel dv A C K E hr t s s'"
  proof (cases c)
    case False
    then have "s' = s1"
      using run(1) ch by (simp add: check_file_and_update_split)
    then show ?thesis
      using recorded_run_last [OF t(1)] at_most_removes_recorded [of "snd (world s)" K dv E n s1] q False by simp
  next
    case True
    obtain bs where d1: "sdev ?dv s1 = sdev ?dv s" and bs: "d_files (sdev ?dv s) (btldr_path K n) = Some bs"
      and acc: "install_ok rel ?dv A C K ?E hr b0 i bs (sdev ?dv s)"
      using res True by auto
    have ins: "install_file K ?E n i s1 = (r, s')"
      using run(1) ch True by (simp add: check_file_and_update_split)
    obtain ds where ds: "snd (world s') = ds @ snd (world s)"
        "\<forall>d\<in>set ds. d = sdev ?dv s' \<or> r \<and> only_differs i (sdev ?dv s) d"
      using install_file_recorded [OF fw_platformD(1,2) [OF plat] ins, unfolded d1, OF bs] q True by auto
    have "moment rel ?dv A C K ?E hr t (sdev ?dv s) d" if d: "only_differs i (sdev ?dv s) d" and r: "r" for d
    proof -
      obtain t' where "t = Install n i b0 # t'"
        using t(2,3) r subseq_Remove_installs [of t n] by (cases t) (auto split: if_splits)
      then show ?thesis
        using d bs acc unfolding moment_def by (intro exI [of _ "[]"] exI [of _ t] exI [of _ "sdev ?dv s"]) auto
    qed
    then have "\<forall>d\<in>set ds. moment rel ?dv A C K ?E hr t (sdev ?dv s) d"
      using ds(2) moment_end [OF t(1)] by metis
    then show ?thesis
      using t(1) ds(1) unfolding recorded_run_def by blast
  qed
  then show thesis
    using that run t(2) by blast
qed

lemma check_update_for_mcuboot_recorded:
  fixes s :: "('w \<times> dev list) fw"
  assumes plat: "fw_platform rel dv E A C" and ok: "fw_ok K s" and wf: "hw_rev_wf hr"
  obtains r s' t where "check_update_for_mcuboot A C K (recording dv E) n i hr s = Some (r, s')" and "fw_ok K s'"
    and "recorded_run rel dv A C K E hr t s s'" and "subseq t [Remove n]"
    and "r \<Longrightarrow> pending rel A K (recording dv E) hr n i (sdev (seen dv) s')"
proof -
  obtain r s' t where run: "check_update_for_mcuboot A C K (recording dv E) n i hr s = Some (r, s')" "fw_ok K s'"
    and t: "update_run rel (seen dv) A C K (recording dv E) hr t (sdev (seen dv) s) (sdev (seen dv) s')" "subseq t [Remove n]"
    and pend: "r \<Longrightarrow> sdev (seen dv) s' = sdev (seen dv) s \<and> pending rel A K (recording dv E) hr n i (sdev (seen dv) s)"
    by (rule check_update_for_mcuboot_run [OF recording_platform [OF plat] ok wf, where n = n and i = i]) blast
  have "snd (world s') = snd (world s) \<or> snd (world s') = sdev (seen dv) s' # snd (world s)"
    using silent.check_update_for_mcuboot [OF run(1) refl] at_most_removes_recorded [of "snd (world s)" K dv E n s']
    by (cases r) simp_all
  from recorded_run_last [OF t(1) this] show thesis
    using that run t(2) pend by metis
qed

lemma img_invalidate_recorded:
  fixes s :: "('w \<times> dev list) fw"
  assumes plat: "fw_platform rel dv E A C" and inv: "invalidate_spec dv E" and ok: "fw_ok K s"
    and pend: "pending rel A K (recording dv E) hr n i (sdev (seen dv) s)"
    and run: "img_invalidate (recording dv E) i s = (r, s')"
  shows "recorded_run rel dv A C K E hr [Invalidate n i] s s'" and "fw_ok K s'"
proof -
  let ?E = "recording dv E" and ?dv = "seen dv"
  note rfl = recording_flash_spec [OF fw_platformD(2) [OF plat]]
  obtain img where a: "btldr_kept s s'" "length img = length (d_flash (sdev ?dv s) i)"
      "sdev ?dv s' = set_flash i img (sdev ?dv s)"
      "img = d_flash (sdev ?dv s) i \<or> invalidated ?dv ?E i (sdev ?dv s) img"
    using img_invalidate_answer [OF rfl recording_invalidate [OF inv] run] by blast
  show "fw_ok K s'"
    using fw_ok_kept [OF a(1)] ok by simp
  have "update_step rel ?dv A C K ?E hr (Invalidate n i) (sdev ?dv s) (sdev ?dv s')"
    using pend a(2-4) unfolding update_step_simps pending_def by metis
  then have t: "update_run rel ?dv A C K ?E hr [Invalidate n i] (sdev ?dv s) (sdev ?dv s')"
    by (rule update_run_one)
  obtain rc fa s1 where op: "on_world (flash_area_open ?E i) s = ((rc, fa), s1)"
    by (metis prod.exhaust)
  have h1: "snd (world s1) = snd (world s)"
    using on_worldD(1) [OF op] by (simp add: recording_calls silently_run)
  have cl: "dv (flash_area_close E fa w) = dv w" for w
    using flash_specD(3) [OF fw_platformD(2) [OF plat]] by (simp add: flash_close_spec_def)
  have "snd (world s') = snd (world s) \<or> snd (world s') = sdev ?dv s' # snd (world s)"
    using run [unfolded img_invalidate_def op prod.case] h1 cl
    by (auto simp: recording_calls Let_def split: if_splits option.splits)
  then show "recorded_run rel dv A C K E hr [Invalidate n i] s s'"
    by (rule recorded_run_last [OF t])
qed

text \<open>All updates, one after the other.\<close>

lemma check_updates_on_fs_recorded:
  fixes s :: "('w \<times> dev list) fw"
  assumes plat: "fw_platform rel dv E A C" and inv: "invalidate_spec dv E" and ok: "fw_ok K s" and wf: "hw_rev_wf hr"
  obtains r s' t where "check_updates_on_fs A C K (recording dv E) slot hr s = Some (r, s')"
    and "subseq t (update_plan K slot)" and "recorded_run rel dv A C K E hr t s s'"
proof -
  let ?E = "recording dv E" and ?n = "own_file K slot" and ?i = "own_area K slot"
  let ?n1 = "own_file K (1 - slot)" and ?i1 = "own_area K (1 - slot)"
  let ?ld = "RUUVI_FW_LOADER_FILE_NAME K" and ?ap = "RUUVI_FW_APP_FILE_NAME K"
  let ?li = "PM_ID_mcuboot_secondary K" and ?ai = "PM_ID_mcuboot_primary K"
  let ?inv = "if slot = 0 then [Invalidate ?n ?i] else []"
  have plan: "update_plan K slot = [Install ?n1 ?i1 True, Remove ?n1] @ ([Remove ?n] @ ?inv)
      @ [Install ?ld ?li False, Remove ?ld] @ [Install ?ap ?ai False, Remove ?ap]"
    by (simp add: update_plan_def own_file_def own_area_def)
  obtain r1 s1 t1 where c1: "check_file_and_update A C K ?E ?n1 ?i1 hr True s = Some (r1, s1)" "fw_ok K s1"
    and t1: "recorded_run rel dv A C K E hr t1 s s1" "subseq t1 [Install ?n1 ?i1 True, Remove ?n1]"
    by (rule check_file_and_update_recorded [OF plat ok wf])
  obtain u s2 t2 where c2: "check_update_for_mcuboot A C K ?E ?n ?i hr s1 = Some (u, s2)" "fw_ok K s2"
    and t2: "recorded_run rel dv A C K E hr t2 s1 s2" "subseq t2 [Remove ?n]"
    and pend: "u \<Longrightarrow> pending rel A K ?E hr ?n ?i (sdev (seen dv) s2)"
    by (rule check_update_for_mcuboot_recorded [OF plat c1(2) wf, where n = ?n and i = ?i]) blast
  note t12 = recorded_run_trans [OF t1(1) t2(1)]
  have sub2: "subseq t2 ([Remove ?n] @ ?inv)"
    using list_emb_append_mono [OF t2(2) list_emb_Nil [of _ ?inv]] by simp
  show thesis
  proof (cases u)
    case False
    obtain r3 s3 t3 where c3: "check_file_and_update A C K ?E ?ld ?li hr False s2 = Some (r3, s3)" "fw_ok K s3"
      and t3: "recorded_run rel dv A C K E hr t3 s2 s3" "subseq t3 [Install ?ld ?li False, Remove ?ld]"
      by (rule check_file_and_update_recorded [OF plat c2(2) wf])
    obtain r4 s4 t4 where c4: "check_file_and_update A C K ?E ?ap ?ai hr False s3 = Some (r4, s4)"
      and t4: "recorded_run rel dv A C K E hr t4 s3 s4" "subseq t4 [Install ?ap ?ai False, Remove ?ap]"
      by (rule check_file_and_update_recorded [OF plat c3(2) wf])
    show thesis
    proof (rule that)
      show "check_updates_on_fs A C K ?E slot hr s = Some (r1 \<or> r3 \<or> r4, s4)"
        unfolding check_updates_on_fs_alt using c1 c2 c3 c4 False by simp
      show "subseq (t1 @ t2 @ t3 @ t4) (update_plan K slot)"
        unfolding plan by (intro list_emb_append_mono t1(2) sub2 t3(2) t4(2))
      show "recorded_run rel dv A C K E hr (t1 @ t2 @ t3 @ t4) s s4"
        by (rule recorded_run_trans [OF t1(1) recorded_run_trans [OF t2(1) recorded_run_trans [OF t3(1) t4(1)]]])
    qed
  next
    case True
    obtain iv s3 where iv: "img_invalidate ?E ?i s2 = (iv, s3)"
      by (metis prod.exhaust)
    note t3 = img_invalidate_recorded(1) [OF plat inv c2(2) pend [OF True] iv]
    define s4 where "s4 = (if slot = 0 then s3 else s2)"
    define t4 where "t4 = (t1 @ t2) @ ?inv"
    show thesis
    proof (rule that)
      show "check_updates_on_fs A C K ?E slot hr s = Some (True, s4)"
        unfolding check_updates_on_fs_alt using c1 c2 True iv
        by (cases "slot = 0") (simp_all add: s4_def)
      show "recorded_run rel dv A C K E hr t4 s s4"
        using recorded_run_trans [OF t12 t3] t12 by (cases "slot = 0") (simp_all add: t4_def s4_def)
      have "subseq t4 (([Install ?n1 ?i1 True, Remove ?n1] @ [Remove ?n]) @ ?inv)"
        unfolding t4_def by (intro list_emb_append_mono t1(2) t2(2)) simp
      from list_emb_append_mono [OF this list_emb_Nil] show "subseq t4 (update_plan K slot)"
        unfolding plan append_assoc append_Nil2 .
    qed
  qed
qed

subsection \<open>Losing the update\<close>

text \<open>
  Before it writes, the copy erases the partition. On a reliable platform this moment is recorded,
  with the file still in place.
\<close>

definition erased :: "fa_id_t \<Rightarrow> dev \<Rightarrow> dev \<Rightarrow> bool" where
  "erased i d d' \<longleftrightarrow> only_differs i d d' \<and> d_flash d' i = replicate (length (d_flash d i)) 0xFF"

lemma copy_erases:
  assumes fs: "fs_spec True dv E" and fl: "flash_spec True dv E"
    and at: "file_at (dv (fst x)) f = Some (bs, p)"
    and fa: "d_area (dv (fst x)) i = Some fa" and fits: "length bs \<le> length (d_flash (dv (fst x)) i)"
  shows "\<exists>d ds. snd (snd (mcuboot_img_op_copy (recording dv E) i f x)) = ds @ d # snd x \<and> erased i (dv (fst x)) d"
proof -
  let ?E = "recording dv E" and ?d = "dv (fst x)"
  define x1 where
    "x1 = snd (fs_seek ?E f 0 FS_SEEK_SET (snd (fs_seek ?E f 0 FS_SEEK_END (snd (flash_area_open ?E i x)))))"
  have wf: "fa_id fa = i" "unat (fa_size fa) = length (d_flash ?d i)"
    using flash_specD(2) [OF fl] fa unfolding flash_area_wf_def by metis+
  obtain r y where run: "img_process ?E i f True (cb_img_write ?E) x = (r, y)"
    by (metis prod.exhaust)
  have pre: "reading True (seen dv) ?E f bs ?d 0 x1"
    and rest: "(case flash_area_erase ?E fa 0 (unat (fa_size fa)) x1 of (rc, x2) \<Rightarrow>
               if rc \<noteq> 0 then (False, x2)
               else (case img_process_loop ?E f (cb_img_write ?E) fa (length bs) 0 x2 of (ok, x3) \<Rightarrow>
                      (ok, flash_area_close ?E fa x3))) = (r, y)"
    using img_process_preamble_at [OF recording_fs_spec [OF fs] recording_flash_spec [OF fl] at run, folded x1_def] fa fits wf(2)
    by auto
  have x1: "dv (fst x1) = set_pos f 0 ?d" "snd x1 = snd x"
    using pre by (simp_all add: reading_def recording_calls x1_def)
  obtain rc x2 where er: "flash_area_erase ?E fa 0 (unat (fa_size fa)) x1 = (rc, x2)"
    by (metis prod.exhaust)
  have "rc = 0" and x2: "dv (fst x2) = set_pos f 0 (set_flash i (replicate (length (d_flash ?d i)) 0xFF) ?d)"
    using flash_specD(6) [OF recording_flash_spec [OF fl], unfolded flash_erase_spec_def Let_def, rule_format, OF er]
      fa wf x1(1) by (auto simp: patch_def set_pos_set_flash)
  have h2: "snd x2 = dv (fst x2) # snd x"
    using er x1(2) by (simp add: recording_calls noting_run)
  have "copying_state True dv E f i bs ?d (snd x2) x2"
    unfolding copying_state_def using fs fl at x2
    by (auto intro!: exI [of _ 0] exI [of _ "replicate (length (d_flash ?d i)) 0xFF"])
  from recorded_copy.loop [OF this fa] recorded_copy.c_area_close
  have "copying_state True dv E f i bs ?d (snd x2)
      (flash_area_close ?E fa (snd (img_process_loop ?E f (cb_img_write ?E) fa (length bs) 0 x2)))"
    by blast
  moreover have "y = flash_area_close ?E fa (snd (img_process_loop ?E f (cb_img_write ?E) fa (length bs) 0 x2))"
    using rest er \<open>rc = 0\<close> by (auto simp: case_prod_beta)
  ultimately have "copying_state True dv E f i bs ?d (snd x2) y"
    by simp
  then obtain ds where "snd y = ds @ dv (fst x2) # snd x"
    unfolding copying_state_def h2 by blast
  moreover have "erased i ?d (dv (fst x2))"
    by (simp add: x2 erased_def only_differs_def)
  ultimately show ?thesis
    using run by (auto simp: mcuboot_img_op_copy_def)
qed

lemma install_file_erases:
  fixes s :: "('w \<times> dev list) fw"
  assumes fs: "fs_spec True dv E" and fl: "flash_spec True dv E"
    and run: "install_file K (recording dv E) n i s = (True, s')"
    and bs: "d_files (sdev (seen dv) s) (btldr_path K n) = Some bs"
    and fa: "d_area (sdev (seen dv) s) i = Some fa" and fits: "length bs \<le> length (d_flash (sdev (seen dv) s) i)"
  shows "\<exists>d ds. snd (world s') = ds @ d # snd (world s) \<and> erased i (sdev (seen dv) s) d"
proof -
  let ?E = "recording dv E"
  obtain f s1 where op: "btldr_fs_open_file K ?E n s = (f, s1)"
    by (metis prod.exhaust)
  have h1: "snd (world s1) = snd (world s)"
    using silent.files(2) [of s "snd (world s)" K dv E n] op by simp
  have f: "filep f \<noteq> None"
    using run by (cases "filep f") (auto simp: install_file_def op)
  have o: "opened (sdev (seen dv) s) (btldr_path K n) f (sdev (seen dv) s1)"
    by (rule open_fileE [OF recording_fs_spec [OF fs] op f])
  note same = opened_frame [OF o] and at = opened_at [OF o bs]
  obtain cp s2 where cp: "on_world (mcuboot_img_op_copy ?E i f) s1 = (cp, s2)"
    by (metis prod.exhaust)
  obtain d ds where d: "snd (world s2) = ds @ d # snd (world s)" "erased i (sdev (seen dv) s1) d"
    using copy_erases [OF fs fl at, of i fa] fa fits same on_worldD(1) [OF cp] h1 by auto
  have s': "s' = snd (btldr_fs_unlink_file K ?E n (btldr_fs_close_file ?E f s2))"
    using run f by (simp add: install_file_def op cp)
  have "snd (world (btldr_fs_close_file ?E f s2)) = ds @ d # snd (world s)"
    using silent.files(3) [of s2 "snd (world s2)" dv E f] d(1) by simp
  then have "snd (world s') = (sdev (seen dv) s' # ds) @ d # snd (world s)"
    unfolding s' unlink_recorded by simp
  moreover have "erased i (sdev (seen dv) s) d"
    using d(2) same by (simp add: erased_def only_differs_def)
  ultimately show ?thesis
    by blast
qed

text \<open>A partition without firmware information takes no update: the file is removed instead.\<close>

lemma no_info_discards_update:
  assumes plat: "fw_platform True dv E A C" and ok: "fw_ok K s" and wf: "hw_rev_wf hr"
    and fa: "d_area (sdev dv s) i = Some fa"
    and no_info: "\<And>w buf. dv w = sdev dv s \<Longrightarrow> fw_info_find E (fa_off fa) buf w = None"
  shows "\<exists>s'. check_file_and_update A C K E n i hr b0 s = Some (False, s')
    \<and> sdev dv s' = file_gone K n (sdev dv s)"
proof -
  have "\<not> install_ok True dv A C K E hr b0 i bs (sdev dv s)" for bs
    using fa no_info unfolding install_ok_def by fastforce
  then show ?thesis
    using check_file_and_update_answer [OF plat ok wf, of n i b0] fa by (fastforce simp: removed_def split: if_splits)
qed

lemma check_file_and_update_erases:
  fixes s :: "('w \<times> dev list) fw"
  assumes plat: "fw_platform True dv E A C" and ok: "fw_ok K s" and wf: "hw_rev_wf hr"
    and fa: "d_area (sdev (seen dv) s) i = Some fa"
    and bs: "d_files (sdev (seen dv) s) (btldr_path K n) = Some bs"
    and fits: "length bs \<le> length (d_flash (sdev (seen dv) s) i)"
    and run: "check_file_and_update A C K (recording dv E) n i hr b0 s = Some (True, s')"
  shows "\<exists>d ds. snd (world s') = ds @ d # snd (world s) \<and> erased i (sdev (seen dv) s) d"
proof -
  obtain c s1 where ch: "checks_before_install A C K (recording dv E) n i hr b0 s = Some (c, s1)"
    and res: "c \<Longrightarrow> sdev (seen dv) s1 = sdev (seen dv) s"
    using checks_before_install_answer [OF recording_platform [OF plat] ok wf, of n i b0] by (metis (mono_tags))
  have c: c and ins: "install_file K (recording dv E) n i s1 = (True, s')"
    using run ch by (cases c; simp add: check_file_and_update_split)+
  have "snd (world s1) = snd (world s)"
    using silent.checks_before_install [OF ch refl] c by simp
  then show ?thesis
    using install_file_erases [OF fw_platformD(1,2) [OF plat] ins] res [OF c] bs fa fits by simp
qed

text \<open>
  Nothing is installed into an erased partition by the update step of a later boot, which throws the
  file away, unless it leaves an update of its own slot to the other one.
\<close>

lemma no_info_not_installed:
  assumes "installed_from rel dv A C K E hr n i b0 d fl" and "d_area d i = Some fa"
    and "\<And>w buf. d_area (dv w) = d_area d \<Longrightarrow> d_flash (dv w) i = d_flash d i \<Longrightarrow> fw_info_find E (fa_off fa) buf w = None"
  shows False
proof -
  obtain bs d1 where d1: "d_area d1 = d_area d" "d_flash d1 i = d_flash d i" and ok: "install_ok rel dv A C K E hr b0 i bs d1"
    using assms(1) unfolding installed_from_def by blast
  obtain w buf p dst where "dv w = d1" "fw_info_find E (fa_off fa) buf w = Some (p, dst)"
    using ok d1(1) assms(2) unfolding install_ok_def by auto
  then show False
    using assms(3) [of w buf] d1 by simp
qed

lemma pending_after_now: "pending_after rel dv A C K E hr slot d \<Longrightarrow> pending rel A K E hr (own_file K slot) (own_area K slot) d"
  unfolding pending_after_def using pending_before by blast

lemma no_info_next_boot:
  fixes slot :: slot_id_t
  assumes plat: "fw_platform True dv E A C" and inv: "invalidate_spec dv E" and boot: "boot_spec dv K E"
    and keep: "files_persist dv E" and K: "areas_distinct K" and ok: "fw_ok K s" and wf: "hw_rev_wf hr"
    and areas: "\<forall>i\<in>update_areas K. d_area (sdev dv s) i \<noteq> None"
    and tgt: "(n, i, b0) \<in> plan_targets K slot" and fa: "d_area (sdev dv s) i = Some fa"
    and no_info: "\<And>w buf. d_area (dv w) = d_area (sdev dv s) \<Longrightarrow> d_flash (dv w) i = d_flash (sdev dv s) i
      \<Longrightarrow> fw_info_find E (fa_off fa) buf w = None"
  shows "\<exists>r s'. check_updates_on_fs A C K E slot hr s = Some (r, s') \<and> d_flash (sdev dv s') i = d_flash (sdev dv s) i
      \<and> (d_files (sdev dv s') (btldr_path K n) = None
         \<or> r \<and> pending True A K E hr (own_file K slot) (own_area K slot) (sdev dv s))"
    and "\<exists>e. mcuboot_fw_update A C K E slot hr s = Some e \<and> d_flash (sdev dv (exit_state e)) i = d_flash (sdev dv s) i"
proof -
  note never = no_info_not_installed [OF _ fa no_info]
  obtain r s' t where run: "check_updates_on_fs A C K E slot hr s = Some (r, s')"
    and t: "update_run True dv A C K E hr t (sdev dv s) (sdev dv s')" "subseq t (update_plan K slot)"
    and left: "True \<and> (\<forall>i\<in>update_areas K. d_area (sdev dv s) i \<noteq> None) \<longrightarrow>
        r \<and> pending_after True dv A C K E hr slot (sdev dv s)
          \<and> d_files (sdev dv s') (btldr_path K (own_file K (1 - slot))) = None
        \<or> (\<forall>n\<in>update_files K. d_files (sdev dv s') (btldr_path K n) = None)"
    using check_updates_on_fs_run [OF plat inv ok wf, of slot] by (elim exE conjE) (rule that; assumption)
  have "n \<in> update_files K"
    using tgt by (auto simp: plan_targets_def update_files_def split: if_splits)
  then have "d_files (sdev dv s') (btldr_path K n) = None
      \<or> r \<and> pending True A K E hr (own_file K slot) (own_area K slot) (sdev dv s)"
    using left areas pending_after_now by blast
  moreover have "d_flash (sdev dv s') i = d_flash (sdev dv s) i"
    using planned_run_contents(1) [OF K t tgt] never by blast
  ultimately show "\<exists>r s'. check_updates_on_fs A C K E slot hr s = Some (r, s') \<and> d_flash (sdev dv s') i = d_flash (sdev dv s) i
      \<and> (d_files (sdev dv s') (btldr_path K n) = None
         \<or> r \<and> pending True A K E hr (own_file K slot) (own_area K slot) (sdev dv s))"
    using run by blast
  show "\<exists>e. mcuboot_fw_update A C K E slot hr s = Some e \<and> d_flash (sdev dv (exit_state e)) i = d_flash (sdev dv s) i"
  proof (rule mcuboot_fw_update_effect [OF plat inv boot keep ok wf K, of slot])
    fix e
    assume e: "mcuboot_fw_update A C K E slot hr s = Some e"
      and "\<And>n i b0. (n, i, b0) \<in> plan_targets K slot \<Longrightarrow> d_flash (sdev dv (exit_state e)) i = d_flash (sdev dv s) i
        \<or> (\<exists>s'. e = Rebooted s')
          \<and> installed_from True dv A C K E hr n i b0 (sdev dv s) (d_flash (sdev dv (exit_state e)) i)"
    from this(2) [OF tgt] show ?thesis
      using e never by blast
  qed
qed

subsection \<open>The device in memory, recorded\<close>

definition recorded_fw :: "(ram \<times> dev list) fw" where
  "recorded_fw = \<lparr>world = (update_ram, []), g_btldr_fs_mutex = 0, g_btldr_fs_abs_path = [],
     g_btldr_fs_dir_entry = FS_DIR_ENTRY_FILE, g_shared_img_buf = replicate 64 0,
     validate_tmp_buf = replicate 256 0\<rparr>"

lemma recorded_fw_ok: "fw_ok demo_config recorded_fw"
  by (simp add: fw_ok_def recorded_fw_def demo_config_def)

lemma recorded_view: "sdev (seen ram_view) recorded_fw = r_dev update_ram"
  by (simp add: recorded_fw_def update_view)

lemma recorded_installs:
  "\<exists>s'. check_file_and_update demo_abi demo_crypto demo_config (recording ram_view (ram_os demo_abi demo_config))
      ''ap'' 3 hw_rev_zero False recorded_fw = Some (True, s')"
  by (simp add: check_file_and_update_def check_file_def get_flash_area_address_and_size_def fw_info_find_in_file_def
      fw_info_check_in_file_def c_string_def check_downgrade_prevention_def load_image_header_def boot_version_cmp_def
      btldr_fs_unlink_file_def old_image_def recording_calls silently_def noting_def recorded_fw_def fw_eval
      split: prod.split)

subsection \<open>Properties\<close>

text \<open>
  C6. The update step is a run of the abstract machine along the plan also in between: in every state
  the device goes through, however the platform behaves, some of the actions of the run are done and
  nothing else has changed, or an accepted file is just being copied. In that case the file is still
  there, and no file and no other partition has been touched. So wherever power is lost, every update
  is either complete, or refused, or has its file in place.
\<close>

theorem update_moments:
  fixes s :: "('w \<times> dev list) fw"
  assumes "fw_platform rel dv E A C" and "invalidate_spec dv E" and "fw_ok K s" and "hw_rev_wf hr"
  shows "\<exists>r s' t ds. check_updates_on_fs A C K (recording dv E) slot hr s = Some (r, s')
    \<and> subseq t (update_plan K slot)
    \<and> update_run rel (seen dv) A C K (recording dv E) hr t (sdev (seen dv) s) (sdev (seen dv) s')
    \<and> snd (world s') = ds @ snd (world s)
    \<and> (\<forall>d\<in>set ds. moment rel (seen dv) A C K (recording dv E) hr t (sdev (seen dv) s) d)"
proof -
  obtain r s' t where "check_updates_on_fs A C K (recording dv E) slot hr s = Some (r, s')"
    and "subseq t (update_plan K slot)" and "recorded_run rel dv A C K E hr t s s'"
    by (rule check_updates_on_fs_recorded [OF assms])
  then show ?thesis
    unfolding recorded_run_def by blast
qed

theorem update_moments_witness:
  "\<exists>r s' t ds. check_updates_on_fs demo_abi demo_crypto demo_config (recording ram_view (ram_os demo_abi demo_config)) 0
      hw_rev_zero recorded_fw = Some (r, s')
    \<and> snd (world s') = ds
    \<and> (\<forall>d\<in>set ds. moment True (seen ram_view) demo_abi demo_crypto demo_config
          (recording ram_view (ram_os demo_abi demo_config)) hw_rev_zero t (r_dev update_ram) d)"
  using update_moments [OF demo_fw_platform demo_invalidate_spec recorded_fw_ok hw_rev_wf_zero, of 0]
  unfolding recorded_view by (auto simp: recorded_fw_def)

text \<open>
  C34. What is lost where power fails while a file is being copied. On a reliable platform that has the
  four partitions, every installed update whose file fits goes through a moment in which the file is in
  place and its partition is erased. Where an erased partition shows no firmware information, the next
  boot that finds the device as it was at that moment, with this partition among those it installs into,
  installs nothing there: the partition stays erased throughout its update step. And the only copy of
  the update is gone by the end of the pass over the update files, unless that pass has asked for a
  reboot because of an accepted update of the running MCUboot slot, which leaves the file to a later boot.
\<close>

theorem power_loss_loses_update:
  fixes s :: "('w \<times> dev list) fw"
  assumes plat: "fw_platform True dv E A C" and inv: "invalidate_spec dv E" and boot: "boot_spec dv K E"
    and keep: "files_persist dv E" and K: "areas_distinct K" and ok: "fw_ok K s" and wf: "hw_rev_wf hr"
    and areas: "\<forall>i\<in>update_areas K. d_area (sdev (seen dv) s) i \<noteq> None"
    and fa: "d_area (sdev (seen dv) s) i = Some fa"
    and bs: "d_files (sdev (seen dv) s) (btldr_path K n) = Some bs" "length bs \<le> length (d_flash (sdev (seen dv) s) i)"
    and no_info: "\<And>w buf. d_area (dv w) = d_area (sdev (seen dv) s) \<Longrightarrow> d_flash (dv w) i = replicate (unat (fa_size fa)) 0xFF
            \<Longrightarrow> fw_info_find E (fa_off fa) buf w = None"
    and run: "check_file_and_update A C K (recording dv E) n i hr b0 s = Some (True, s')"
  shows "\<exists>d ds. snd (world s') = ds @ d # snd (world s) \<and> erased i (sdev (seen dv) s) d
    \<and> (\<forall>s2 slot hr2. fw_ok K s2 \<and> hw_rev_wf hr2 \<and> same_contents d (sdev dv s2) \<and> (n, i, b0) \<in> plan_targets K slot \<longrightarrow>
         (\<exists>e. mcuboot_fw_update A C K E slot hr2 s2 = Some e \<and> d_flash (sdev dv (exit_state e)) i = d_flash d i)
         \<and> (\<exists>r s3. check_updates_on_fs A C K E slot hr2 s2 = Some (r, s3) \<and> d_flash (sdev dv s3) i = d_flash d i
              \<and> (d_files (sdev dv s3) (btldr_path K n) = None
                 \<or> r \<and> pending True A K E hr2 (own_file K slot) (own_area K slot) (sdev dv s2))))"
proof -
  obtain d ds where d: "snd (world s') = ds @ d # snd (world s)" "erased i (sdev (seen dv) s) d"
    using check_file_and_update_erases [OF plat ok wf fa bs run] by blast
  have sz: "unat (fa_size fa) = length (d_flash (sdev (seen dv) s) i)"
    using flash_specD(2) [OF fw_platformD(2) [OF plat]] fa unfolding flash_area_wf_def by metis
  have "(\<exists>e. mcuboot_fw_update A C K E slot hr2 s2 = Some e \<and> d_flash (sdev dv (exit_state e)) i = d_flash d i)
      \<and> (\<exists>r s3. check_updates_on_fs A C K E slot hr2 s2 = Some (r, s3) \<and> d_flash (sdev dv s3) i = d_flash d i
           \<and> (d_files (sdev dv s3) (btldr_path K n) = None
              \<or> r \<and> pending True A K E hr2 (own_file K slot) (own_area K slot) (sdev dv s2)))"
    if s2: "fw_ok K s2" "hw_rev_wf hr2" "same_contents d (sdev dv s2)" and tgt: "(n, i, b0) \<in> plan_targets K slot"
    for s2 slot hr2
  proof -
    have same: "d_area (sdev dv s2) = d_area (sdev (seen dv) s)" "d_flash (sdev dv s2) i = d_flash d i"
      "d_flash (sdev dv s2) i = replicate (unat (fa_size fa)) 0xFF"
      using d(2) s2(3) sz by (simp_all add: erased_def only_differs_def same_contents_def)
    have "\<forall>j\<in>update_areas K. d_area (sdev dv s2) j \<noteq> None" "d_area (sdev dv s2) i = Some fa"
      using areas fa same(1) by simp_all
    note later = no_info_next_boot [OF plat inv boot keep K s2(1,2) this(1) tgt this(2)]
    show ?thesis
      using later no_info same by metis
  qed
  then show ?thesis
    using d by blast
qed

theorem power_loss_loses_update_witness:
  "\<exists>s' d. check_file_and_update demo_abi demo_crypto demo_config (recording ram_view (ram_os demo_abi demo_config))
      ''ap'' 3 hw_rev_zero False recorded_fw = Some (True, s')
    \<and> d \<in> set (snd (world s')) \<and> d_files d = d_files (r_dev update_ram) \<and> d_flash d 3 = replicate 64 0xFF"
proof -
  let ?fa = "\<lparr>fa_id = 3, fa_off = 192, fa_size = 64\<rparr>"
  obtain s' where run: "check_file_and_update demo_abi demo_crypto demo_config
      (recording ram_view (ram_os demo_abi demo_config)) ''ap'' 3 hw_rev_zero False recorded_fw = Some (True, s')"
    using recorded_installs by blast
  have fa: "d_area (sdev (seen ram_view) recorded_fw) 3 = Some ?fa"
    and bs: "d_files (sdev (seen ram_view) recorded_fw) (btldr_path demo_config ''ap'') = Some update_image"
      "length update_image \<le> length (d_flash (sdev (seen ram_view) recorded_fw) 3)"
    unfolding recorded_view
    by (simp_all add: update_ram_def demo_area_def btldr_path_def demo_config_def old_image_def update_image_def)
  have no_info: "fw_info_find (ram_os demo_abi demo_config) (fa_off ?fa) buf w = None"
    if "d_area (ram_view w) = d_area (sdev (seen ram_view) recorded_fw)"
      and "d_flash (ram_view w) 3 = replicate (unat (fa_size ?fa)) 0xFF" for w buf
    using that unfolding recorded_view
    by (simp add: ram_os_def ram_fw_info_find_def update_ram_def demo_area_def demo_config_def bytes_at_def demo_abi_def byte_n_def)
  have areas: "\<forall>i\<in>update_areas demo_config. d_area (sdev (seen ram_view) recorded_fw) i \<noteq> None"
    unfolding recorded_view by (simp add: update_areas_def update_ram_def demo_area_def demo_config_def)
  from power_loss_loses_update [OF demo_fw_platform demo_invalidate_spec demo_boot_spec demo_files_persist demo_areas_distinct
      recorded_fw_ok hw_rev_wf_zero areas fa bs no_info run]
  obtain d ds where "snd (world s') = ds @ d # snd (world recorded_fw)" "erased 3 (r_dev update_ram) d"
    unfolding recorded_view by blast
  then show ?thesis
    using run by (auto simp: erased_def only_differs_def update_ram_def old_image_def intro!: exI [of _ s'] exI [of _ d])
qed

end
