(* ===== verification/Slots_Intact.thy ===== *)
theory Slots_Intact
  imports Power_Loss
begin

section \<open>The MCUboot slots at every moment of an update\<close>

text \<open>
  A device can only be repaired by a bootloader that still starts. This theory looks at the two
  MCUboot slots in all states the device goes through from mounting the file system to the reboot,
  which are the states a loss of power can leave behind; and at the one case in which no bootloader is
  left.
\<close>

subsection \<open>Mounting and unmounting, call by call\<close>

definition storing :: "('w \<Rightarrow> dev) \<Rightarrow> config \<Rightarrow> dev \<Rightarrow> dev list \<Rightarrow> 'w \<times> dev list \<Rightarrow> bool" where
  "storing dv K d0 h x \<longleftrightarrow>
     storage_step K d0 (dv (fst x)) \<and> (\<exists>ds. snd x = ds @ h \<and> (\<forall>d\<in>set ds. storage_step K d0 d))"

lemma storing_same: "storing dv K d0 h x \<Longrightarrow> dv w = dv (fst x) \<Longrightarrow> storing dv K d0 h (w, snd x)"
  by (simp add: storing_def)

lemma storing_noted:
  assumes "storing dv K d0 h x" and "storage_step K (dv (fst x)) (dv w)"
  shows "storing dv K d0 h (w, dv w # snd x)"
proof -
  obtain ds where "snd x = ds @ h" "\<forall>d\<in>set ds. storage_step K d0 d" and "storage_step K d0 (dv (fst x))"
    using assms(1) unfolding storing_def by blast
  moreover from this assms(2) have "storage_step K d0 (dv w)"
    using storage_step_trans by blast
  ultimately show ?thesis
    unfolding storing_def by (auto intro!: exI [of _ "dv w # ds"])
qed

lemma recording_boot_calls:
  "fs_mount (recording dv E) p = noting dv (fs_mount E p)"
  "fs_unmount (recording dv E) p = noting dv (fs_unmount E p)"
  "fs_statvfs (recording dv E) p = silently (fs_statvfs E p)"
  "flash_area_flatten (recording dv E) fa off n = noting dv (flash_area_flatten E fa off n)"
  "sys_reboot_cold (recording dv E) x = (sys_reboot_cold E (fst x), snd x)"
  by (simp_all add: recording_def)

lemma mount_recorded:
  fixes s :: "('w \<times> dev list) fw"
  assumes fl: "flash_spec rel dv E" and boot: "boot_spec dv K E"
    and run: "btldr_fs_mount K (recording dv E) s = (r, s')"
  shows "storing dv K (sdev (seen dv) s) (snd (world s)) (world s')"
proof -
  let ?E = "recording dv E" and ?J = "storing dv K (sdev (seen dv) s) (snd (world s))"
  have start: "?J (world s)"
    by (simp add: storing_def)
  have mount: "?J x \<Longrightarrow> ?J (snd (fs_mount ?E p x))" for p x
    using boot_specD(1) [OF boot prod.collapse [symmetric]] storing_noted [of dv K _ _ x]
    by (simp add: recording_boot_calls noting_def case_prod_beta)
  have statvfs: "?J x \<Longrightarrow> ?J (snd (fs_statvfs ?E p x))" for p x
    using boot_specD(2) [OF boot prod.collapse [symmetric]] storing_same [of dv K _ _ x]
    by (simp add: recording_boot_calls silently_def case_prod_beta)
  have close: "?J x \<Longrightarrow> ?J (flash_area_close ?E fa x)" for fa x
    using flash_specD(3) [OF fl] storing_same [of dv K _ _ x] by (simp add: recording_calls flash_close_spec_def)
  have erase: "?J (world (snd (btldr_fs_flash_erase K ?E t)))" if t: "?J (world t)" for t :: "('w \<times> dev list) fw"
  proof -
    obtain rc fa w1 where op: "flash_area_open E (PM_ID_littlefs_storage1 K) (fst (world t)) = ((rc, fa), w1)"
      by (metis prod.exhaust)
    have o: "dv w1 = dv (fst (world t))" "rc = 0 \<Longrightarrow> d_area (dv w1) (PM_ID_littlefs_storage1 K) = Some fa" "rc \<le> 0"
      using flash_specD(1) [OF fl] op boot_specD(5) [OF boot op] unfolding flash_open_spec_def by metis+
    have J1: "?J (w1, snd (world t))"
      by (rule storing_same [OF t o(1)])
    have "?J (snd (flash_area_flatten ?E fa off n (w1, snd (world t))))" if "rc = 0" for off n
      using storing_noted [OF J1] boot_specD(4) [OF boot prod.collapse [symmetric]] o(2) that
      by (simp add: recording_boot_calls noting_def case_prod_beta)
    then show ?thesis
      using J1 close o(3)
      by (simp add: btldr_fs_flash_erase_def recording_calls silently_def op case_prod_beta on_world_def)
  qed
  show ?thesis
    using run mount [OF start] statvfs [OF mount [OF start]]
      erase [of "snd (on_world (fs_mount ?E (RUUVI_FW_UPDATE_MOUNT_POINT K)) s)"]
    by (auto simp: btldr_fs_mount_def case_prod_beta on_world_def split: if_splits)
qed

lemma mount_recorded_files:
  fixes s :: "('w \<times> dev list) fw"
  assumes boot: "boot_spec dv K E" and keep: "files_persist dv E"
    and run: "btldr_fs_mount K (recording dv E) s = (True, s')"
  shows "d_files (sdev (seen dv) s') = d_files (sdev (seen dv) s)"
proof -
  let ?mp = "RUUVI_FW_UPDATE_MOUNT_POINT K"
  obtain rc w1 where mt: "fs_mount E ?mp (fst (world s)) = (rc, w1)"
    by (metis prod.exhaust)
  obtain rc2 w2 where st: "fs_statvfs E ?mp w1 = (rc2, w2)"
    by (metis prod.exhaust)
  have "rc = 0" and "fst (world s') = w2"
    using run by (auto simp: btldr_fs_mount_def on_world_def recording_boot_calls noting_def silently_def mt st
        split: if_splits)
  then show ?thesis
    using keep mt boot_specD(2) [OF boot st] unfolding files_persist_def by simp
qed

subsection \<open>The two MCUboot slots in the middle of a run\<close>

text \<open>
  The update of \<open>s1\<close> comes first in the plan of \<open>s0\<close>: once \<open>s0\<close> is invalidated, \<open>s1\<close> is not written again.
\<close>

lemma no_install_after_invalidate:
  assumes K: "areas_distinct K" and sub: "subseq (past @ Install n i b0 # todo) (update_plan K slot)"
    and inv: "Invalidate m j \<in> set past"
  shows "i \<noteq> PM_ID_s1 K"
proof
  assume i: "i = PM_ID_s1 K"
  obtain p1 p2 where p: "update_plan K slot = p1 @ p2" "subseq past p1" "subseq (Install n i b0 # todo) p2"
    using list_emb_appendD [OF sub] by blast
  have in2: "Install n i b0 \<in> set p2" and in1: "Invalidate m j \<in> set p1"
    using subseq_set [OF p(3)] subseq_set [OF p(2)] inv by auto
  have slot: "slot = 0"
    using in1 p(1) plan_actions(2) [of m j K slot] by simp
  let ?first = "Install (RUUVI_FW_MCUBOOT1_FILE_NAME K) (PM_ID_s1 K) True"
  obtain rest where rest: "update_plan K slot = ?first # rest" "Install n (PM_ID_s1 K) b0 \<notin> set rest"
    using K slot by (auto simp: update_plan_def areas_distinct_def)
  obtain a q where q: "p1 = a # q"
    using in1 by (cases p1) auto
  have "rest = q @ p2"
    using rest(1) p(1) q by simp
  then show False
    using rest(2) in2 i by simp
qed

text \<open>
  What holds of the device \<open>d\<close> at every moment of an update step that began with the device as \<open>d0\<close>. The
  running slot is as it was; or it is \<open>s0\<close>, there was an update for it that the immutable bootloader accepts, its
  contents are what the invalidation makes of the old ones, and \<open>s1\<close> is as it was or was changed by the
  copy of an accepted update.
\<close>

definition slots_kept ::
  "bool \<Rightarrow> ('w \<Rightarrow> dev) \<Rightarrow> image_abi \<Rightarrow> 'c crypto \<Rightarrow> config \<Rightarrow> 'w os \<Rightarrow> fw_image_hw_rev_t \<Rightarrow> slot_id_t
   \<Rightarrow> dev \<Rightarrow> dev \<Rightarrow> bool"
where
  "slots_kept rel dv A C K E hr slot d0 d \<longleftrightarrow>
     d_area d = d_area d0
     \<and> (\<forall>j. j \<notin> update_areas K \<and> j \<noteq> PM_ID_littlefs_storage1 K \<longrightarrow> d_flash d j = d_flash d0 j)
     \<and> (d_flash d (own_area K slot) = d_flash d0 (own_area K slot)
        \<or> slot = 0 \<and> pending rel A K E hr (own_file K slot) (own_area K slot) d0
          \<and> invalidated dv E (own_area K slot) d0 (d_flash d (own_area K slot))
          \<and> (d_flash d (PM_ID_s1 K) = d_flash d0 (PM_ID_s1 K)
             \<or> installed_from rel dv A C K E hr (RUUVI_FW_MCUBOOT1_FILE_NAME K) (PM_ID_s1 K) True d0
                 (d_flash d (PM_ID_s1 K))))"

text \<open>A moment of the plan, compared with the state after the actions that are done.\<close>

lemma moment_frame:
  assumes K: "areas_distinct K" and m: "moment rel dv A C K E hr t d1 d" and sub: "subseq t (update_plan K slot)"
  obtains past d2 where "update_run rel dv A C K E hr past d1 d2" and "subseq past (update_plan K slot)"
    and "d_area d = d_area d2" and "\<And>j. j \<notin> update_areas K \<or> j = own_area K slot \<Longrightarrow> d_flash d j = d_flash d2 j"
    and "\<And>m l. Invalidate m l \<in> set past \<Longrightarrow> d_flash d (PM_ID_s1 K) = d_flash d2 (PM_ID_s1 K)"
proof -
  obtain past todo d2 where t: "t = past @ todo" and run: "update_run rel dv A C K E hr past d1 d2"
    and d: "same_contents d2 d \<or> (\<exists>n i b0 todo'. todo = Install n i b0 # todo' \<and> only_differs i d2 d)"
    using m unfolding moment_def by blast
  have past: "subseq past (update_plan K slot)"
    using sub subseq_order.trans [OF list_emb_prefix [OF subseq_order.order_refl]] unfolding t by blast
  consider (between) "same_contents d2 d" | (copying) n i b0 todo' where "todo = Install n i b0 # todo'" "only_differs i d2 d"
    using d by blast
  then show thesis
  proof cases
    case between
    then show thesis
      using that [OF run past] by (simp add: same_contents_def)
  next
    case copying
    have "Install n i b0 \<in> set (update_plan K slot)"
      using subseq_set [OF sub] copying(1) by (auto simp: t)
    then have i: "i \<in> update_areas K" "i \<noteq> own_area K slot"
      using plan_target_unique(2,4) [OF K] plan_actions(1) by blast+
    have "i \<noteq> PM_ID_s1 K" if "Invalidate m l \<in> set past" for m l
      using no_install_after_invalidate [OF K _ that, of n i b0 todo'] sub unfolding t copying(1) by blast
    moreover have "d_area d = d_area d2" "k \<noteq> i \<Longrightarrow> d_flash d k = d_flash d2 k" for k
      using copying(2) by (simp_all add: only_differs_def)
    ultimately show thesis
      using that [OF run past] i by metis
  qed
qed

lemma moment_keeps_slots:
  assumes K: "areas_distinct K" and m: "moment rel dv A C K E hr t d1 d" and sub: "subseq t (update_plan K slot)"
    and st: "storage_step K d0 d1" and files: "d_files d1 = d_files d0"
  shows "slots_kept rel dv A C K E hr slot d0 d"
proof -
  let ?own = "own_area K slot" and ?s1 = "PM_ID_s1 K" and ?n1 = "RUUVI_FW_MCUBOOT1_FILE_NAME K"
  obtain past d2 where run: "update_run rel dv A C K E hr past d1 d2" and past: "subseq past (update_plan K slot)"
    and same: "d_area d = d_area d2" "\<And>j. j \<notin> update_areas K \<or> j = ?own \<Longrightarrow> d_flash d j = d_flash d2 j"
      "\<And>m l. Invalidate m l \<in> set past \<Longrightarrow> d_flash d ?s1 = d_flash d2 ?s1"
    by (rule moment_frame [OF K m sub]) blast
  note cont = planned_run_contents [OF K run past]
  have area: "d_area d1 = d_area d0"
    by (rule storage_step_frame(2) [OF st])
  have "?own \<noteq> PM_ID_littlefs_storage1 K" "?s1 \<noteq> PM_ID_littlefs_storage1 K"
    using K by (auto simp: areas_distinct_def own_area_def)
  then have flash: "d_flash d1 ?own = d_flash d0 ?own" "d_flash d1 ?s1 = d_flash d0 ?s1"
    using storage_step_frame(3) [OF st] by simp_all
  show ?thesis
    unfolding slots_kept_def
  proof (intro conjI allI impI)
    show "d_area d = d_area d0"
      using same(1) update_run_frame(2) [OF run] area by simp
    show "d_flash d j = d_flash d0 j" if "j \<notin> update_areas K \<and> j \<noteq> PM_ID_littlefs_storage1 K" for j
      using that same(2) cont(2) storage_step_frame(3) [OF st] by simp
    show "d_flash d ?own = d_flash d0 ?own
        \<or> slot = 0 \<and> pending rel A K E hr (own_file K slot) ?own d0 \<and> invalidated dv E ?own d0 (d_flash d ?own)
          \<and> (d_flash d ?s1 = d_flash d0 ?s1
             \<or> installed_from rel dv A C K E hr ?n1 ?s1 True d0 (d_flash d ?s1))"
    proof (cases "d_flash d2 ?own = d_flash d1 ?own")
      case True
      then show ?thesis
        using same(2) [of ?own] flash(1) by simp
    next
      case False
      then obtain m where slot: "slot = 0" and inv: "Invalidate m ?own \<in> set past"
        and pend: "pending rel A K E hr (own_file K slot) ?own d1" and new: "invalidated dv E ?own d1 (d_flash d2 ?own)"
        using cont(3) by blast
      have "(?n1, ?s1, True) \<in> plan_targets K slot"
        by (simp add: slot plan_targets_def)
      then have s1: "d_flash d2 ?s1 = d_flash d1 ?s1 \<or> installed_from rel dv A C K E hr ?n1 ?s1 True d1 (d_flash d2 ?s1)"
        by (rule cont(1))
      have "pending rel A K E hr (own_file K slot) ?own d0"
        by (rule pending_same [OF pend]) (simp_all add: area files)
      moreover have "invalidated dv E ?own d0 (d_flash d ?own)"
        using invalidated_same [OF new, of d0] area flash(1) same(2) [of ?own] by simp
      moreover have "d_flash d ?s1 = d_flash d0 ?s1
          \<or> installed_from rel dv A C K E hr ?n1 ?s1 True d0 (d_flash d ?s1)"
        using s1 same(3) [OF inv] flash(2) area files
          installed_from_same [of rel dv A C K E hr ?n1 ?s1 True d1 "d_flash d2 ?s1" d0] by auto
      ultimately show ?thesis
        using slot by blast
    qed
  qed
qed

lemma slots_kept_storage:
  assumes "slots_kept rel dv A C K E hr slot d0 d" and "storage_step K d d'" and K: "areas_distinct K"
  shows "slots_kept rel dv A C K E hr slot d0 d'"
proof -
  have "own_area K slot \<noteq> PM_ID_littlefs_storage1 K" "PM_ID_s1 K \<noteq> PM_ID_littlefs_storage1 K"
    using K by (auto simp: areas_distinct_def own_area_def)
  then show ?thesis
    using assms(1) storage_step_frame(2,3) [OF assms(2)] unfolding slots_kept_def by auto
qed

lemma slots_kept_start:
  "storage_step K d0 d \<Longrightarrow> areas_distinct K \<Longrightarrow> slots_kept rel dv A C K E hr slot d0 d"
  by (rule slots_kept_storage [where d = d0]) (simp_all add: slots_kept_def)

lemma slots_kept_flash:
  "slots_kept rel dv A C K E hr slot d0 d \<Longrightarrow> d_area d' = d_area d \<Longrightarrow> d_flash d' = d_flash d
   \<Longrightarrow> slots_kept rel dv A C K E hr slot d0 d'"
  by (simp add: slots_kept_def)

text \<open>The update step from mounting to its exit.\<close>

lemma mcuboot_fw_update_recorded:
  fixes s :: "('w \<times> dev list) fw" and slot :: slot_id_t
  assumes plat: "fw_platform rel dv E A C" and inv: "invalidate_spec dv E" and boot: "boot_spec dv K E"
    and keep: "files_persist dv E" and ok: "fw_ok K s" and wf: "hw_rev_wf hr" and K: "areas_distinct K"
  defines "kept \<equiv> slots_kept rel (seen dv) A C K (recording dv E) hr slot (sdev (seen dv) s)"
  obtains e ds where "mcuboot_fw_update A C K (recording dv E) slot hr s = Some e"
    and "snd (world (exit_state e)) = ds @ snd (world s)" and "\<forall>d\<in>set ds. kept d"
    and "kept (sdev (seen dv) (exit_state e))"
proof -
  let ?E = "recording dv E" and ?dv = "seen dv"
  obtain m s1 where mt: "btldr_fs_mount K ?E s = (m, s1)"
    by (metis prod.exhaust)
  obtain ds1 where st: "storage_step K (sdev ?dv s) (sdev ?dv s1)" and ds1: "snd (world s1) = ds1 @ snd (world s)"
      "\<forall>d\<in>set ds1. storage_step K (sdev ?dv s) d"
    using mount_recorded [OF fw_platformD(2) [OF plat] boot mt] unfolding storing_def by blast
  have ok1: "fw_ok K s1"
    using ok fw_ok_kept [OF btldr_kept_calls(3) [OF mt]] by simp
  have k1: "\<forall>d\<in>set ds1. kept d" "kept (sdev ?dv s1)"
    using ds1(2) st slots_kept_start [OF _ K] unfolding kept_def by blast+
  show thesis
  proof (cases m)
    case False
    then have "mcuboot_fw_update A C K ?E slot hr s = Some (Returned s1)"
      by (simp add: mcuboot_fw_update_def mt)
    then show thesis
      using that [of "Returned s1" ds1] ds1(1) k1 by simp
  next
    case True
    obtain r s2 t where c: "check_updates_on_fs A C K ?E slot hr s1 = Some (r, s2)" "subseq t (update_plan K slot)"
      and t: "recorded_run rel dv A C K E hr t s1 s2"
      by (rule check_updates_on_fs_recorded [OF plat inv ok1 wf])
    obtain ds2 where run: "update_run rel ?dv A C K ?E hr t (sdev ?dv s1) (sdev ?dv s2)"
      and ds2: "snd (world s2) = ds2 @ snd (world s1)" "\<forall>d\<in>set ds2. moment rel ?dv A C K ?E hr t (sdev ?dv s1) d"
      using t unfolding recorded_run_def by blast
    have files: "d_files (sdev ?dv s1) = d_files (sdev ?dv s)"
      using mount_recorded_files [OF boot keep, of s s1] mt True by simp
    have k2: "\<forall>d\<in>set ds2. kept d" "kept (sdev ?dv s2)"
      using ds2(2) moment_end [OF run] moment_keeps_slots [OF K _ c(2) st files] unfolding kept_def by blast+
    show thesis
    proof (cases r)
      case r: True
      have e: "mcuboot_fw_update A C K ?E slot hr s = Some (reboot_cold ?E s2)"
        using True r c(1) by (simp add: mcuboot_fw_update_def mt)
      have "dv (k_msleep E 500 (fst (world s2))) = sdev ?dv s2"
        using fw_platformD(3) [OF plat] by (simp add: query_spec_def)
      then have "kept (sdev ?dv (exit_state (reboot_cold ?E s2)))"
        using slots_kept_flash [OF k2(2) [unfolded kept_def]] boot_specD(6,7) [OF boot]
        by (simp add: reboot_cold_def recording_calls recording_boot_calls kept_def)
      moreover have "snd (world (exit_state (reboot_cold ?E s2))) = (ds2 @ ds1) @ snd (world s)"
        using ds1(1) ds2(1) by (simp add: reboot_cold_def recording_calls recording_boot_calls)
      ultimately show thesis
        using that [OF e] k1(1) k2(1) by (metis Un_iff set_append)
    next
      case False
      let ?s3 = "btldr_fs_unmount K ?E s2"
      have e: "mcuboot_fw_update A C K ?E slot hr s = Some (Returned ?s3)"
        using True False c(1) by (simp add: mcuboot_fw_update_def mt)
      have "storage_step K (sdev ?dv s2) (sdev ?dv ?s3)"
        using boot_specD(3) [OF boot prod.collapse [symmetric]]
        by (simp add: btldr_fs_unmount_def on_world_def recording_boot_calls noting_def case_prod_beta)
      then have "kept (sdev ?dv ?s3)"
        using slots_kept_storage [OF k2(2) [unfolded kept_def] _ K] unfolding kept_def by blast
      moreover have "snd (world ?s3) = (sdev ?dv ?s3 # ds2 @ ds1) @ snd (world s)"
        using ds1(1) ds2(1)
        by (simp add: btldr_fs_unmount_def on_world_def recording_boot_calls noting_def case_prod_beta)
      ultimately show thesis
        using that [OF e, of "sdev ?dv ?s3 # ds2 @ ds1"] k1(1) k2(1) by auto
    qed
  qed
qed

subsection \<open>Properties\<close>

text \<open>
  C5. In every state that a call leaves behind, from mounting the file system to the end of the update
  step, and so wherever power is lost between two calls, and however the platform behaves, the slot
  that is running is as it was. Only \<open>s0\<close> may differ: then an update file
  for it was there that the immutable bootloader accepts, the contents of \<open>s0\<close> are what \<open>fw_info_invalidate\<close>
  makes of the old ones, and \<open>s1\<close> is as it was or has been changed by the copy, which is over, of the update
  file for it, which was accepted (C4 says what a copy leaves). Partitions that take no updates
  are as they were, apart from that of the file system.
\<close>

theorem update_spares_running_slot:
  fixes s :: "('w \<times> dev list) fw"
  assumes "fw_platform rel dv E A C" and "invalidate_spec dv E" and "boot_spec dv K E" and "files_persist dv E"
    and "fw_ok K s" and "hw_rev_wf hr" and "areas_distinct K"
  shows "\<exists>e ds. mcuboot_fw_update A C K (recording dv E) slot hr s = Some e
    \<and> snd (world (exit_state e)) = ds @ snd (world s)
    \<and> (\<forall>d\<in>set ds \<union> {sdev (seen dv) (exit_state e)}.
         slots_kept rel (seen dv) A C K (recording dv E) hr slot (sdev (seen dv) s) d)"
  by (rule mcuboot_fw_update_recorded [OF assms, of slot]) blast

theorem update_spares_running_slot_witness:
  "\<exists>e. mcuboot_fw_update demo_abi demo_crypto demo_config (recording ram_view (ram_os demo_abi demo_config)) 1
      hw_rev_zero recorded_fw = Some e
    \<and> (\<forall>d\<in>set (snd (world (exit_state e))). d_flash d 2 = old_image)"
proof -
  have own: "own_area demo_config 1 = 2" "d_flash (r_dev update_ram) 2 = old_image" "snd (world recorded_fw) = []"
    by (simp_all add: own_area_def demo_config_def update_ram_def recorded_fw_def)
  from update_spares_running_slot [OF demo_fw_platform demo_invalidate_spec demo_boot_spec demo_files_persist
      recorded_fw_ok hw_rev_wf_zero demo_areas_distinct, of 1]
  obtain e where e: "mcuboot_fw_update demo_abi demo_crypto demo_config (recording ram_view (ram_os demo_abi demo_config)) 1
      hw_rev_zero recorded_fw = Some e"
    and kept: "\<forall>d\<in>set (snd (world (exit_state e))). slots_kept True (seen ram_view) demo_abi demo_crypto demo_config
        (recording ram_view (ram_os demo_abi demo_config)) hw_rev_zero 1 (r_dev update_ram) d"
    unfolding recorded_view own(3) append_Nil2 by blast
  have "\<forall>d\<in>set (snd (world (exit_state e))). d_flash d 2 = old_image"
    using kept own(1,2) unfolding slots_kept_def by simp
  with e show ?thesis
    by blast
qed

text \<open>
  C33. The one way to end without a bootloader: an update of \<open>s0\<close> is accepted and \<open>s0\<close> invalidated without a look
  at \<open>s1\<close>. Even where \<open>s1\<close> shows no firmware information, as after a loss of power while it was being
  written, an update of \<open>s1\<close> is thrown away, the accepted update of \<open>s0\<close> is left for \<open>s1\<close> to install, \<open>s0\<close> is
  invalidated and a reboot asked for, and \<open>s1\<close> stays as it is.
\<close>

theorem s0_invalidated_without_s1:
  assumes plat: "fw_platform True dv E A C" and inv: "invalidate_spec dv E" and ok: "fw_ok K s" and wf: "hw_rev_wf hr"
    and K: "areas_distinct K" and fa: "d_area (sdev dv s) (PM_ID_s1 K) = Some fa"
    and no_info: "\<And>w buf. dv w = sdev dv s \<Longrightarrow> fw_info_find E (fa_off fa) buf w = None"
  shows "\<exists>s1. check_file_and_update A C K E (RUUVI_FW_MCUBOOT1_FILE_NAME K) (PM_ID_s1 K) hr True s = Some (False, s1)
    \<and> sdev dv s1 = file_gone K (RUUVI_FW_MCUBOOT1_FILE_NAME K) (sdev dv s)
    \<and> (\<forall>s2. check_update_for_mcuboot A C K E (RUUVI_FW_MCUBOOT0_FILE_NAME K) (PM_ID_s0 K) hr s1 = Some (True, s2) \<longrightarrow>
         check_updates_on_fs A C K E 0 hr s = Some (True, snd (img_invalidate E (PM_ID_s0 K) s2))
         \<and> d_flash (sdev dv (snd (img_invalidate E (PM_ID_s0 K) s2))) (PM_ID_s1 K) = d_flash (sdev dv s) (PM_ID_s1 K))"
proof -
  let ?n0 = "RUUVI_FW_MCUBOOT0_FILE_NAME K" and ?n1 = "RUUVI_FW_MCUBOOT1_FILE_NAME K"
  obtain s1 where first: "check_file_and_update A C K E ?n1 (PM_ID_s1 K) hr True s = Some (False, s1)"
    and d1: "sdev dv s1 = file_gone K ?n1 (sdev dv s)"
    using no_info_discards_update [OF plat ok wf fa no_info] by blast
  have ok1: "fw_ok K s1"
    using check_file_and_update_answer [OF plat ok wf, of ?n1 "PM_ID_s1 K" True] first by auto
  have "check_updates_on_fs A C K E 0 hr s = Some (True, snd (img_invalidate E (PM_ID_s0 K) s2))
      \<and> d_flash (sdev dv (snd (img_invalidate E (PM_ID_s0 K) s2))) (PM_ID_s1 K) = d_flash (sdev dv s) (PM_ID_s1 K)"
    if second: "check_update_for_mcuboot A C K E ?n0 (PM_ID_s0 K) hr s1 = Some (True, s2)" for s2
  proof
    show "check_updates_on_fs A C K E 0 hr s = Some (True, snd (img_invalidate E (PM_ID_s0 K) s2))"
      using first second by (simp add: check_updates_on_fs_def)
    have "sdev dv s2 = sdev dv s1"
      using check_update_for_mcuboot_answer [OF plat ok1 wf, of ?n0 "PM_ID_s0 K"] second by auto
    moreover obtain img where "sdev dv (snd (img_invalidate E (PM_ID_s0 K) s2)) = set_flash (PM_ID_s0 K) img (sdev dv s2)"
      using img_invalidate_answer [OF fw_platformD(2) [OF plat] inv prod.collapse [symmetric]] by blast
    ultimately show "d_flash (sdev dv (snd (img_invalidate E (PM_ID_s0 K) s2))) (PM_ID_s1 K) = d_flash (sdev dv s) (PM_ID_s1 K)"
      using K d1 by (auto simp: areas_distinct_def)
  qed
  then show ?thesis
    using first d1 by blast
qed

text \<open>A device with \<open>s1\<close> erased and an update of \<open>s0\<close> that the stand-in for the immutable bootloader accepts.\<close>

definition s0_image :: "byte list" where
  "s0_image = [0x3D, 8, 0, 12, 0, 2, 0, 0,  0, 0, 0, 0,  0x44, 0, 0, 0,  0xF1, 3, 0x70, 0]"

definition s1_erased_fw :: "string \<Rightarrow> ram fw" where
  "s1_erased_fw path = update_fw\<lparr>
     world := update_ram\<lparr>r_dev := (r_dev update_ram)\<lparr>d_files := [''/m/b0'' \<mapsto> s0_image],
       d_flash := (\<lambda>i. if 1 \<le> i \<and> i \<le> 4 then if i = 2 then replicate 64 0xFF else old_image else [])\<rparr>\<rparr>,
     g_btldr_fs_abs_path := path\<rparr>"

theorem s0_invalidated_without_s1_witness:
  "\<exists>s'. check_updates_on_fs demo_abi demo_crypto demo_config (ram_os demo_abi demo_config) 0 hw_rev_zero (s1_erased_fw [])
      = Some (True, s')
    \<and> d_flash (sdev ram_view s') 2 = replicate 64 0xFF"
proof -
  let ?fa = "\<lparr>fa_id = 2, fa_off = 128, fa_size = 64\<rparr>"
  have view: "sdev ram_view (s1_erased_fw []) = r_dev (world (s1_erased_fw []))"
    by (rule dev.equality)
      (auto simp: s1_erased_fw_def update_fw_def update_ram_def ram_view_def fun_eq_iff demo_area_def old_image_def
        s0_image_def split: option.split)
  have s1: "PM_ID_s1 demo_config = 2" and area: "d_area (sdev ram_view (s1_erased_fw [])) (PM_ID_s1 demo_config) = Some ?fa"
    and flash: "d_flash (sdev ram_view (s1_erased_fw [])) 2 = replicate 64 0xFF"
    unfolding view by (simp_all add: demo_config_def s1_erased_fw_def update_fw_def update_ram_def demo_area_def)
  have ok: "fw_ok demo_config (s1_erased_fw [])"
    using update_fw_ok by (simp add: fw_ok_def s1_erased_fw_def)
  have run1: "check_file_and_update demo_abi demo_crypto demo_config (ram_os demo_abi demo_config)
      (RUUVI_FW_MCUBOOT1_FILE_NAME demo_config) (PM_ID_s1 demo_config) hw_rev_zero True (s1_erased_fw [])
      = Some (False, s1_erased_fw ''/m/b1'')"
    by (simp add: check_file_and_update_def check_file_def get_flash_area_address_and_size_def
        old_image_def s1_erased_fw_def fw_eval)
  have run2: "\<exists>s2. check_update_for_mcuboot demo_abi demo_crypto demo_config (ram_os demo_abi demo_config)
      (RUUVI_FW_MCUBOOT0_FILE_NAME demo_config) (PM_ID_s0 demo_config) hw_rev_zero (s1_erased_fw ''/m/b1'')
      = Some (True, s2)"
    by (simp add: check_update_for_mcuboot_def validate_b0_signature_def get_flash_area_address_and_size_def
        fw_info_find_in_file_def fw_info_check_in_file_def c_string_def sum_list_replicate
        old_image_def s1_erased_fw_def s0_image_def fw_eval)
  have no_info: "fw_info_find (ram_os demo_abi demo_config) (fa_off ?fa) buf w = None"
    if "ram_view w = sdev ram_view (s1_erased_fw [])" for w buf
  proof -
    have "d_area (ram_view w) = demo_area"
      unfolding that view by (simp add: s1_erased_fw_def update_fw_def update_ram_def)
    moreover have "d_flash (ram_view w) 2 = replicate 64 0xFF"
      unfolding that by (rule flash)
    then have "d_flash (r_dev w) 2 = replicate 64 0xFF"
      by simp
    ultimately show ?thesis
      by (simp add: ram_os_def ram_fw_info_find_def demo_area_def demo_config_def bytes_at_def demo_abi_def byte_n_def)
  qed
  let ?upd = "check_update_for_mcuboot demo_abi demo_crypto demo_config (ram_os demo_abi demo_config)
      (RUUVI_FW_MCUBOOT0_FILE_NAME demo_config) (PM_ID_s0 demo_config) hw_rev_zero"
  obtain t where "check_file_and_update demo_abi demo_crypto demo_config (ram_os demo_abi demo_config)
      (RUUVI_FW_MCUBOOT1_FILE_NAME demo_config) (PM_ID_s1 demo_config) hw_rev_zero True (s1_erased_fw []) = Some (False, t)"
    and t: "\<And>s2. ?upd t = Some (True, s2) \<Longrightarrow>
      \<exists>s'. check_updates_on_fs demo_abi demo_crypto demo_config (ram_os demo_abi demo_config) 0 hw_rev_zero (s1_erased_fw [])
          = Some (True, s')
        \<and> d_flash (sdev ram_view s') (PM_ID_s1 demo_config) = d_flash (sdev ram_view (s1_erased_fw [])) (PM_ID_s1 demo_config)"
    using s0_invalidated_without_s1 [OF demo_fw_platform demo_invalidate_spec ok hw_rev_wf_zero demo_areas_distinct
        area no_info] by metis
  then have "t = s1_erased_fw ''/m/b1''"
    using run1 by simp
  then show ?thesis
    using run2 t unfolding s1 flash by blast
qed

end
