(* ===== verification/Spec2Isabelle.thy ===== *)
theory Spec2Isabelle
  imports Img_Op File_Img_Validate Btldr_Fs Fa_Utils Hw_Rev Fw_Check Fw_Update Board_Io Rtt_Log Hook Boots
    Quiet_Calls Power_Loss Slots_Intact
begin

text \<open>
  \<^bold>\<open>The program.\<close> The repository extends MCUboot, the second-stage bootloader of a RuuviAir device,
  through MCUboot's hooks. Flash holds two MCUboot slots (\<open>s0\<close> and \<open>s1\<close>; the immutable bootloader B0
  starts one of them), the application (\<open>mcuboot_primary\<close>) and a firmware loader
  (\<open>mcuboot_secondary\<close>); a LittleFS file system on external flash may hold an update file for each of
  the four. At startup \<open>mcuboot_status_change\<close> (\<open>src/src/mcuboot_hook.c\<close>) checks that the running
  image is for this board and of the version it was built as, and then calls \<open>mcuboot_fw_update\<close>
  (\<open>src/src/mcuboot_fw_update.c\<close>), which mounts the file system, checks every update file, copies
  accepted files into their partitions, removes the files, and reboots when something was found.

  \<^bold>\<open>The theories\<close>, in the order of the imports, with the files under \<open>src/src\<close> they model. Functions keep
  their names; a function \<open>f\<close> of the C code is a definition \<open>f\<close>, a loop in it is \<open>f_loop\<close>.

  \<^item> \<open>Prelude\<close>: machine integers (the target has 32 bit \<open>int\<close>, \<open>size_t\<close> and \<open>off_t\<close>, so these are
    \<open>32 word\<close> where they can wrap), byte lists, and the two collections of facts that carry the
    proofs: \<open>frame\<close> (what an operation leaves alone) and \<open>spec\<close> (what it does to the device).
  \<^item> \<open>Platform\<close>: everything that is not in the repository, as parameters: the record \<open>os\<close> of calls into
    Zephyr, bootutil and the secure-boot library on a world \<open>'w\<close>; the record \<open>crypto\<close> of hashing and
    signature primitives; \<open>image_abi\<close>, the formats and numbers of MCUboot's headers; \<open>config\<close>, what the
    build configures. The record \<open>dev\<close> is the abstract device (files, open handles, flash areas), and
    predicates such as \<open>flash_spec\<close> and \<open>fs_read_spec\<close> state the documented behaviour of each call on a view
    \<open>dv\<close> of the world as a device. Their flag \<open>rel\<close> says whether calls may fail: safety theorems hold
    for both values, theorems of success and progress are for a reliable platform. What a copy into a
    partition can leave is the predicate \<open>copied\<close> of \<open>Img_Op\<close>: the padded file, or, where a call failed,
    the old contents, a prefix of the file in the erased partition, or what the failed call left.
  \<^item> \<open>Ram_Device\<close>: an executable device in memory that satisfies these predicates. It models no code;
    the witnesses run the code on it.
  \<^item> \<open>Img_Op\<close> (\<open>mcuboot_img_op.c\<close>): copying a file into a flash area and comparing the two. The contract
    between the streaming loop and its callback is the locale \<open>img_callback\<close>, interpreted for both
    callbacks.
  \<^item> \<open>File_Tlv\<close> (\<open>file_tlv.c\<close>, \<open>file_tlv.h\<close>, \<open>file_tlv_priv.h\<close>): reading image data, overflow-checked
    additions, and the iterator over the TLV area. What the iterator and the validation rely on when
    they read is the locale \<open>image_source\<close>, interpreted for open files.
  \<^item> \<open>File_Img_Validate\<close> (\<open>file_img_validate.c\<close>): digest, key, signature and the permitted TLVs.
  \<^item> \<open>Btldr_Fs\<close> (\<open>btldr_fs.c\<close>), \<open>Fa_Utils\<close> (\<open>mcuboot_fa_utils.c\<close>), \<open>Hw_Rev\<close> (\<open>fw_img_hw_rev.c\<close>): files by
    name under the mount point with the static variables of the file as a record around the world;
    address, size and header of a flash area; the hardware revision of an image, whose two parsers share
    the contract \<open>hw_rev_scanner\<close> of one round, interpreted for the loop over the file and the one over
    the flash area.
  \<^item> \<open>Fw_Check\<close> and \<open>Fw_Update\<close> (\<open>mcuboot_fw_update.c\<close>): the checks of an update file, and installing
    updates. The record \<open>fw\<close> extends that of \<open>Btldr_Fs\<close> by the static buffers. Handling one file is
    also given as its checks followed by the copy (\<open>checks_before_install\<close>, \<open>install_file\<close>).
  \<^item> \<open>Board_Io\<close> (\<open>mcuboot_gpio_input.c\<close>, \<open>mcuboot_button.c\<close>, \<open>mcuboot_led.c\<close>, \<open>mcuboot_led_err.c\<close>,
    \<open>mcuboot_supercap.c\<close>, \<open>mcuboot_ext_flash_power.c\<close>, \<open>mcuboot_early_init.c\<close>,
    \<open>mcuboot_err_handler.c\<close>): pins, early initialisation and the blinking that fatal errors end in, over
    a GPIO driver that is the record \<open>board\<close>.
  \<^item> \<open>Rtt_Log\<close> (\<open>mcuboot_segger_rtt.c\<close>, \<open>mcuboot_wrap_printk.c\<close>): the check of the RTT data and the copy of
    \<open>printk\<close> to the RTT console.
  \<^item> \<open>Hook\<close> (\<open>mcuboot_hook.c\<close>): startup, and the data shared with the application.
  \<^item> \<open>Boots\<close>: startup after startup on one device, with the static variables at zero each time, but for
    the shared image buffer, whose memory is not initialised and may hold anything.
  \<^item> \<open>Quiet_Calls\<close>: which calls the checks of an update make. The locale \<open>quiet\<close> takes any property that the
    reading calls preserve, and shows of every check of \<open>mcuboot_fw_update.c\<close> that it preserves it, up to
    removing the file.
  \<^item> \<open>Power_Loss\<close>: the moments of an update. On the platform \<open>recording dv E\<close> each call that changes the
    device notes the state it leaves. The locales \<open>quiet\<close> and \<open>copying\<close> (the calls of a copy) are interpreted
    on it, and \<open>moment\<close> says what a noted state may be.
  \<^item> \<open>Slots_Intact\<close>: what that means for the two MCUboot slots, from mounting to the reboot.

  \<^bold>\<open>How effects are modelled.\<close> State is passed explicitly. Out-pointers are results. A call that does
  not return is an exit value (\<open>exit_t\<close> for the update step, \<open>startup_t\<close> for startup, a sum for the
  board). A short read leaves the rest of a buffer as it was, which matters where the code does not
  check for it (\<open>overlay\<close>). Loops that end for reasons of their own are \<open>fun\<close> or \<open>function\<close> with a measure.
  Loops whose end depends on what the platform returns (hashing, the TLV loops, both searches for the
  hardware revision, the blinking) are \<open>partial_function (option)\<close>, where \<open>None\<close> is running for ever;
  that they return is a part of the theorems about them, and there is no fuel anywhere.

  \<^bold>\<open>What is shown\<close>, from the whole to the parts (the numbers are in front of the theorems):

  \<^item> Over all boots: whatever sequence of boots, in whichever slot and version, with calls failing at
    any time and anything in the shared buffer, application and loader change only by the copy of the
    accepted file that was named for them (C1); on a reliable platform updates settle after at most two
    reboots (C7).
  \<^item> One boot: with the data of RTT in place startup ends, looks for updates only behind its checks, and
    boots on only from a device whose slots it has not written (C2, C15); slots change only by the copy
    of the accepted file named for them (C4), \<open>s0\<close> by its invalidation when it is running, and nothing
    else is written (C8).
  \<^item> The update step as a refinement: an abstract machine with three kinds of steps (removing a file,
    installing an accepted file, invalidating \<open>s0\<close>) and a plan for each slot; what the code does to the
    device is a run along the plan (C9, C10, C16, C22, C30), and so is every state it goes through on the
    way, where power may be lost: either between two steps, or in the middle of a copy with the file
    still in place (C6). The running slot is spared at all these moments (C5).
  \<^item> What acceptance means: C3 and C18 for the signature, C14 and C17 for a file, C13 and C24 to C26 for
    the TLVs, C20, C21 and C40 for the hardware revision, C23 and C38 for versions.
  \<^item> Copying: C11, C12, C29. Files by name: C27, C28. Board, console and strings: C19, C31, C37, C39.
  \<^item> Behaviour one would not expect, proved of the code as it is: an update of \<open>s1\<close> that waits can keep
    the device rebooting (C32), an update that is interrupted after the erase is thrown away when the
    next boot gets to it (C34), \<open>s0\<close> is invalidated for an update even where \<open>s1\<close> cannot start (C33), the
    version in the destination is not compared (C35), a signature with an unknown key ends the checks
    and decides the verdict (C36). A copy that fails counts as a success (C10), and where the size of a
    file cannot be read, an old buffer is what the immutable bootloader's check looks at (C17).

  \<^bold>\<open>Not modelled.\<close> Log output, and with it \<open>get_image_slot_name\<close> and \<open>on_startup_print_logs\<close>, which only
  serve it. The parts of \<open>file_tlv_priv.h\<close> that no code of the repository uses: it is a copy of private
  declarations of MCUboot, of which the checked additions, \<open>BOOT_TLV_OFF\<close> and \<open>load_image_data\<close> are used
  and modelled. The branches for \<open>MCUBOOT_SIGN_PURE\<close>, \<open>MCUBOOT_HW_KEY\<close>, \<open>MCUBOOT_BUILTIN_KEY\<close> and
  \<open>MCUBOOT_HW_ROLLBACK_PROT\<close>: the first two do not compile here, and the product builds with none of
  them. Assertions: a build with them does not compile. Interrupts: the handler for the supercap is a
  definition, but that it may run between any two steps is not. The contents of the file system's own
  partition: mounting, unmounting and erasing may change it freely; that a file system which mounts shows
  the files that were there, and that a reboot keeps them, is the hypothesis \<open>files_persist\<close>. What
  MCUboot does after the hook.
\<close>

end
